(* ===== verification/DS_Prelude.thy ===== *)
theory DS_Prelude
  imports Main "HOL-Library.Word"
begin

text \<open>
  Shared vocabulary of the DeepSeer development: the widths of the machine integers the C++ code
  uses, the ways a C++ computation can fail to return (\<open>fault\<close>), the error values of
  \<^verbatim>\<open>Core/Types.hpp\<close> (\<open>error_code\<close>, \<open>error\<close>), and the operations of the standard library the
  sources call on strings and numbers: \<^verbatim>\<open>find\<close>, \<^verbatim>\<open>rfind\<close>, \<^verbatim>\<open>substr\<close>, \<^verbatim>\<open>stoi\<close>, \<^verbatim>\<open>stoul\<close>,
  \<^verbatim>\<open>tolower\<close>, decimal formatting. A \<^verbatim>\<open>std::string\<close> is a \<open>string\<close> (one \<open>char\<close> per byte), a
  \<^verbatim>\<open>std::byte\<close> an \<open>8 word\<close>. A position that C++ reports as \<^verbatim>\<open>npos\<close> is \<open>None\<close>.
\<close>

section \<open>Machine integers and bytes\<close>

type_synonym byte = "8 word"
type_synonym u8 = "8 word"
type_synonym u16 = "16 word"
type_synonym u32 = "32 word"
type_synonym u64 = "64 word"
type_synonym fd = int

abbreviation kInvalidFd :: fd where
  "kInvalidFd \<equiv> -1"

definition bytes_of_string :: "string \<Rightarrow> byte list" where
  "bytes_of_string s = map of_char s"

definition string_of_bytes :: "byte list \<Rightarrow> string" where
  "string_of_bytes bs = map (\<lambda>b. char_of (unat b)) bs"

section \<open>Faults and error values\<close>

text \<open>
  A C++ call that does not return normally is a \<open>fault\<close>: an \<^verbatim>\<open>assert\<close> that fails, an exception
  that leaves the function, or an operation whose behaviour the language leaves undefined.
  \<open>NotReturned\<close> stands for a loop with no bound of its own that is still running when the fuel of
  its model is used up.
  Errors that the code itself returns (\<^verbatim>\<open>std::unexpected\<close>) are ordinary values.
\<close>

datatype exn = InvalidArgument | OutOfRange | RuntimeError string | BadAlloc

datatype fault = AssertionFailed | Thrown exn | UndefinedBehaviour | NotReturned

datatype ErrorCode =
    EcOk
  | WouldBlock | FdExhausted | ConnectionClosed | ConnectionRefused | ConnectionTimeout
  | ReadError | WriteError
  | TlsHandshakeFailed | CertGenerationFailed
  | ParseError | InvalidRequest | InvalidResponse
  | UpstreamUnreachable | TunnelFailed
  | ConfigError
  | InternalError

record Error =
  err_code :: ErrorCode
  err_message :: string

definition mkError :: "ErrorCode \<Rightarrow> string \<Rightarrow> Error" where
  "mkError c m = \<lparr>err_code = c, err_message = m\<rparr>"

fun rbind :: "'e + 'a \<Rightarrow> ('a \<Rightarrow> 'e + 'b) \<Rightarrow> 'e + 'b" where
  "rbind (Inl e) f = Inl e"
| "rbind (Inr x) f = f x"

section \<open>Strings\<close>

fun str_index :: "char \<Rightarrow> string \<Rightarrow> nat option" where
  "str_index c [] = None"
| "str_index c (x # xs) = (if x = c then Some 0 else map_option Suc (str_index c xs))"

definition str_find_from :: "char \<Rightarrow> nat \<Rightarrow> string \<Rightarrow> nat option" where
  "str_find_from c i s = map_option (\<lambda>k. i + k) (str_index c (drop i s))"

definition str_rfind :: "char \<Rightarrow> string \<Rightarrow> nat option" where
  "str_rfind c s = map_option (\<lambda>k. length s - 1 - k) (str_index c (rev s))"

fun str_find_sub :: "string \<Rightarrow> string \<Rightarrow> nat option" where
  "str_find_sub p [] = (if p = [] then Some 0 else None)"
| "str_find_sub p (x # xs) =
     (if take (length p) (x # xs) = p then Some 0 else map_option Suc (str_find_sub p xs))"

definition str_sub :: "nat \<Rightarrow> nat \<Rightarrow> string \<Rightarrow> string" where
  "str_sub pos n s = take n (drop pos s)"

definition tolower :: "char \<Rightarrow> char" where
  "tolower c = (let k = (of_char c :: nat) in
     if 65 \<le> k \<and> k \<le> 90 then char_of (k + 32) else c)"

definition is_space :: "char \<Rightarrow> bool" where
  "is_space c = (let k = (of_char c :: nat) in k = 32 \<or> (9 \<le> k \<and> k \<le> 13))"

definition is_digit :: "char \<Rightarrow> bool" where
  "is_digit c = (let k = (of_char c :: nat) in 48 \<le> k \<and> k \<le> 57)"

definition digit_val :: "char \<Rightarrow> nat" where
  "digit_val c = (of_char c :: nat) - 48"

definition digit_char :: "nat \<Rightarrow> char" where
  "digit_char d = char_of (48 + d)"

fun dec_value :: "nat \<Rightarrow> string \<Rightarrow> nat" where
  "dec_value acc [] = acc"
| "dec_value acc (c # cs) = dec_value (10 * acc + digit_val c) cs"

text \<open>Decimal rendering, as \<^verbatim>\<open>std::format("{}", n)\<close> and \<^verbatim>\<open>std::to_string\<close> give it.\<close>

fun dec :: "nat \<Rightarrow> string" where
  "dec n = (if n < 10 then [digit_char n] else dec (n div 10) @ [digit_char (n mod 10)])"

declare dec.simps [simp del]

text \<open>
  The common part of \<^verbatim>\<open>stoi\<close>, \<^verbatim>\<open>stoul\<close> and \<^verbatim>\<open>stoull\<close>: leading white space is skipped, one sign is
  accepted, digits are read up to the first other character; no digit at all is an
  \<^verbatim>\<open>invalid_argument\<close>. The result is the sign and the magnitude.
\<close>

definition parse_int_prefix :: "string \<Rightarrow> exn + bool \<times> nat" where
  "parse_int_prefix s =
     (let t = dropWhile is_space s;
          neg = (t \<noteq> [] \<and> hd t = CHR ''-'');
          u = (if t \<noteq> [] \<and> (hd t = CHR ''-'' \<or> hd t = CHR ''+'') then tl t else t);
          ds = takeWhile is_digit u
      in if ds = [] then Inl InvalidArgument else Inr (neg, dec_value 0 ds))"

definition stoi :: "string \<Rightarrow> exn + int" where
  "stoi s = (case parse_int_prefix s of
       Inl e \<Rightarrow> Inl e
     | Inr (neg, n) \<Rightarrow>
         (let v = (if neg then - int n else int n) in
          if v < - (2 ^ 31) \<or> v > 2 ^ 31 - 1 then Inl OutOfRange else Inr v))"

text \<open>\<^verbatim>\<open>stoul\<close> and \<^verbatim>\<open>stoull\<close> (64-bit): a minus sign negates modulo \<open>2 ^ 64\<close>.\<close>

definition stoull :: "string \<Rightarrow> exn + u64" where
  "stoull s = (case parse_int_prefix s of
       Inl e \<Rightarrow> Inl e
     | Inr (neg, n) \<Rightarrow>
         if n > 2 ^ 64 - 1 then Inl OutOfRange
         else Inr (if neg then - of_nat n else of_nat n))"

text \<open>An exception that leaves the calling function.\<close>

fun throws :: "exn + 'a \<Rightarrow> fault + 'a" where
  "throws (Inl e) = Inl (Thrown e)"
| "throws (Inr x) = Inr x"

section \<open>Lemma collections\<close>

named_theorems res_iff \<open>when a result of the fault monad is a value\<close>
named_theorems str_simps \<open>facts on the string searches\<close>

lemma rbind_Inr_iff [res_iff]: "rbind m f = Inr y \<longleftrightarrow> (\<exists>x. m = Inr x \<and> f x = Inr y)"
  by (cases m) auto

lemma rbind_Inl_iff [res_iff]:
  "rbind m f = Inl e \<longleftrightarrow> m = Inl e \<or> (\<exists>x. m = Inr x \<and> f x = Inl e)"
  by (cases m) auto

lemma throws_Inr_iff [res_iff]: "throws m = Inr x \<longleftrightarrow> m = Inr x"
  by (cases m) auto

lemma throws_Inl_iff [res_iff]: "throws m = Inl f \<longleftrightarrow> (\<exists>e. m = Inl e \<and> f = Thrown e)"
  by (cases m) auto

lemma rbind_Inr_id [simp]: "rbind m Inr = m"
  by (cases m) auto

lemma rbind_assoc: "rbind (rbind m f) g = rbind m (\<lambda>x. rbind (f x) g)"
  by (cases m) auto

lemma rbind_cong [fundef_cong]:
  "m = m' \<Longrightarrow> (\<And>x. m' = Inr x \<Longrightarrow> f x = g x) \<Longrightarrow> rbind m f = rbind m' g"
  by (cases m') auto

section \<open>Generic lemmas\<close>

lemma length_bytes_of_string [simp]: "length (bytes_of_string s) = length s"
  by (simp add: bytes_of_string_def)

lemma bytes_of_string_append [simp]:
  "bytes_of_string (s @ t) = bytes_of_string s @ bytes_of_string t"
  by (simp add: bytes_of_string_def)

lemma bytes_of_string_Nil [simp]: "bytes_of_string [] = []"
  by (simp add: bytes_of_string_def)

lemma bytes_of_string_eq_Nil [simp]: "bytes_of_string s = [] \<longleftrightarrow> s = []"
  by (simp add: bytes_of_string_def)

lemma of_char_less_256: "(of_char c :: nat) < 256"
  by (metis nat_of_char_less_256)

lemma char_of_unat_of_char [simp]: "char_of (unat (of_char c :: byte)) = c"
proof -
  have "unat (of_nat (of_char c) :: byte) = of_char c"
    using of_char_less_256 [of c] by (simp add: unat_of_nat take_bit_eq_mod)
  then have "unat (of_char c :: byte) = of_char c" by (simp only: of_nat_of_char)
  then show ?thesis by simp
qed

lemma string_bytes_id [simp]: "string_of_bytes (bytes_of_string s) = s"
  by (induction s) (simp_all add: string_of_bytes_def bytes_of_string_def)

subsection \<open>String searches\<close>

lemma str_index_None [str_simps]: "str_index c s = None \<longleftrightarrow> c \<notin> set s"
  by (induction s) auto

lemma str_index_append [str_simps]: "c \<notin> set xs \<Longrightarrow> str_index c (xs @ c # ys) = Some (length xs)"
  by (induction xs) auto

lemma str_index_Some:
  "str_index c s = Some k \<Longrightarrow> k < length s \<and> s ! k = c \<and> c \<notin> set (take k s)"
proof (induction s arbitrary: k)
  case (Cons x s)
  then show ?case by (cases k) (auto split: if_splits)
qed simp

lemma str_rfind_None [str_simps]: "str_rfind c s = None \<longleftrightarrow> c \<notin> set s"
  by (simp add: str_rfind_def str_index_None)

lemma str_rfind_append [str_simps]:
  "c \<notin> set ys \<Longrightarrow> str_rfind c (xs @ c # ys) = Some (length xs)"
  by (simp add: str_rfind_def str_simps)

lemma str_find_sub_Some: "str_find_sub p s = Some k \<Longrightarrow> take (length p) (drop k s) = p"
proof (induction s arbitrary: k)
  case (Cons x s)
  then show ?case by (auto split: if_splits simp del: take_Cons)
qed (auto split: if_splits)

subsection \<open>Decimal numerals\<close>

lemma of_char_digit_char: "d < 10 \<Longrightarrow> (of_char (digit_char d) :: nat) = 48 + d"
  by (simp add: digit_char_def of_char_of)

lemma is_digit_digit_char [simp]: "d < 10 \<Longrightarrow> is_digit (digit_char d)"
  by (simp add: is_digit_def of_char_digit_char)

lemma digit_val_digit_char [simp]: "d < 10 \<Longrightarrow> digit_val (digit_char d) = d"
  by (simp add: digit_val_def of_char_digit_char)

lemma dec_digits: "list_all is_digit (dec n)" and dec_nonempty [simp]: "dec n \<noteq> []"
proof -
  show "list_all is_digit (dec n)"
  proof (induction n rule: dec.induct)
    case (1 n)
    then show ?case by (simp add: dec.simps [of n])
  qed
  show "dec n \<noteq> []" by (simp add: dec.simps [of n])
qed

lemma dec_value_append: "dec_value a (xs @ ys) = dec_value (dec_value a xs) ys"
  by (induction xs arbitrary: a) auto

lemma dec_value_dec [simp]: "dec_value 0 (dec n) = n"
proof (induction n rule: dec.induct)
  case (1 n)
  then show ?case by (simp add: dec.simps [of n] dec_value_append)
qed

lemma digit_not_space: "is_digit c \<Longrightarrow> \<not> is_space c"
  by (auto simp: is_digit_def is_space_def Let_def)

lemma digit_not_sign: "is_digit c \<Longrightarrow> c \<noteq> CHR ''-'' \<and> c \<noteq> CHR ''+''"
  by (auto simp: is_digit_def)

lemma parse_int_digits:
  assumes "list_all is_digit ds" and "ds \<noteq> []"
  shows "parse_int_prefix ds = Inr (False, dec_value 0 ds)"
proof -
  obtain d ds' where ds: "ds = d # ds'" "is_digit d" using assms by (cases ds) auto
  have tw: "takeWhile is_digit ds' = ds'"
    using assms(1) ds(1) by (simp add: list_all_iff takeWhile_eq_all_conv)
  show ?thesis using ds digit_not_space [OF ds(2)] digit_not_sign [OF ds(2)]
    by (simp add: parse_int_prefix_def tw)
qed

lemma parse_int_bad:
  assumes "s = [] \<or> (\<not> is_digit (hd s) \<and> \<not> is_space (hd s) \<and> hd s \<noteq> CHR ''-'' \<and> hd s \<noteq> CHR ''+'')"
  shows "parse_int_prefix s = Inl InvalidArgument"
  using assms by (cases s) (auto simp: parse_int_prefix_def)

lemma stoi_dec: "n < 2 ^ 31 \<Longrightarrow> stoi (dec n) = Inr (int n)"
  using dec_digits [of n] by (simp add: stoi_def parse_int_digits)

section \<open>Results that satisfy a predicate\<close>

text \<open>
  \<open>post Q m\<close>: whenever the computation \<open>m\<close> returns, its result satisfies \<open>Q\<close>. The rules of the collection
  \<open>post_intros\<close> take a computation apart; the components add the facts on their operations.
\<close>

definition post :: "('a \<Rightarrow> bool) \<Rightarrow> 'e + 'a \<Rightarrow> bool" where
  "post Q m \<longleftrightarrow> (\<forall>v. m = Inr v \<longrightarrow> Q v)"

named_theorems post_intros \<open>rules for results that satisfy a predicate\<close>

lemma postI: "(\<And>v. m = Inr v \<Longrightarrow> Q v) \<Longrightarrow> post Q m"
  by (simp add: post_def)

lemma postD: "post Q m \<Longrightarrow> m = Inr v \<Longrightarrow> Q v"
  by (simp add: post_def)

lemma post_mono: "post P m \<Longrightarrow> (\<And>v. P v \<Longrightarrow> Q v) \<Longrightarrow> post Q m"
  by (simp add: post_def)

lemma post_Inr [post_intros]: "Q v \<Longrightarrow> post Q (Inr v)"
  by (simp add: post_def)

lemma post_Inl [post_intros]: "post Q (Inl e)"
  by (simp add: post_def)

lemma post_bind: "post P m \<Longrightarrow> (\<And>v. P v \<Longrightarrow> post Q (f v)) \<Longrightarrow> post Q (rbind m f)"
  by (cases m) (auto simp: post_def)

lemma post_if [post_intros]: "(b \<Longrightarrow> post Q m) \<Longrightarrow> (\<not> b \<Longrightarrow> post Q m') \<Longrightarrow> post Q (if b then m else m')"
  by simp

lemma post_option [post_intros]:
  "(p = None \<Longrightarrow> post Q m) \<Longrightarrow> (\<And>x. p = Some x \<Longrightarrow> post Q (f x)) \<Longrightarrow> post Q (case p of None \<Rightarrow> m | Some x \<Rightarrow> f x)"
  by (cases p) simp_all

lemma post_sum [post_intros]:
  "(\<And>x. p = Inl x \<Longrightarrow> post Q (f x)) \<Longrightarrow> (\<And>y. p = Inr y \<Longrightarrow> post Q (g y)) \<Longrightarrow>
   post Q (case p of Inl x \<Rightarrow> f x | Inr y \<Rightarrow> g y)"
  by (cases p) simp_all

lemma post_prod [post_intros]: "post Q (f (fst p) (snd p)) \<Longrightarrow> post Q (case p of (x, y) \<Rightarrow> f x y)"
  by (cases p) simp

lemma post_Let [post_intros]: "post Q (f v) \<Longrightarrow> post Q (Let v f)"
  by simp

end
