(* ===== verification/Platform.thy ===== *)
theory Platform
  imports DS_Prelude
begin

text \<open>
  What the proxy uses of the operating system and of OpenSSL. Both are code outside the repository
  and stay parameters (\<open>os\<close>, \<open>openssl\<close>): every call the sources make is appended to the history
  \<open>pf_calls\<close>, and the answer of a call is a function of the history so far. Since the history grows
  with every call, any behaviour of the kernel, the peers and the TLS library is such a function.
  The macOS branch of the conditional code is modelled.
\<close>

section \<open>Error numbers, addresses, kernel events\<close>

datatype errno = EAGAIN | EWOULDBLOCK | EINPROGRESS | EMFILE | ENFILE | EINTR | EOTHER nat

abbreviation AF_UNSPEC :: int where "AF_UNSPEC \<equiv> 0"
abbreviation AF_INET :: int where "AF_INET \<equiv> 2"
abbreviation AF_INET6 :: int where "AF_INET6 \<equiv> 30"

text \<open>\<^verbatim>\<open>sockaddr_storage\<close>: the family, the port in network byte order, the host part.\<close>

record sockaddr =
  ss_family :: int
  ss_port :: u16
  ss_host :: "byte list"

datatype kfilter = EVFILT_READ | EVFILT_WRITE | EVFILT_TIMER

text \<open>A change handed to \<^verbatim>\<open>kevent\<close> (the filters on descriptors, the one-shot timer in microseconds).\<close>

datatype kchange =
    EvAdd kfilter u64
  | EvDelete kfilter u64
  | EvTimer u64 int

text \<open>An event that \<^verbatim>\<open>kevent\<close> reports: filter, identifier and the \<^verbatim>\<open>EV_EOF\<close> flag.\<close>

record kevent =
  ke_filter :: kfilter
  ke_ident :: u64
  ke_eof :: bool

type_synonym ssl = nat
type_synonym ssl_ctx = nat

datatype ssl_error =
    SSL_ERROR_WANT_READ | SSL_ERROR_WANT_WRITE | SSL_ERROR_ZERO_RETURN | SSL_ERROR_SYSCALL | SSL_ERROR_SSL

text \<open>The fields of an X.509 certificate that the sources set.\<close>

type_synonym evp_pkey = nat

datatype x509_ext = SubjectAltName string | BasicConstraints string

record X509 =
  xc_version :: int
  xc_serial :: int
  xc_notBefore :: int
  xc_notAfter :: int
  xc_subjectCN :: string
  xc_issuer :: string
  xc_pubkey :: evp_pkey
  xc_exts :: "x509_ext list"
  xc_signedBy :: "evp_pkey option"

section \<open>The history of calls\<close>

datatype syscall =
    CKevent "kchange list"
  | CWakeWrite
  | CWakeDrain
  | CClose fd
  | CShutdown fd
  | CNoSigpipe fd
  | CFcntl fd
  | CReuseAddr fd
  | CSocket "errno + fd"
  | CBind fd
  | CListen fd
  | CConnect fd
  | CAccept fd "errno + fd"
  | CRecv fd "errno + byte list"
  | CSend fd "byte list"
  | CResolve string string
  | CCtxNew ssl_ctx
  | CCtxUpRef ssl_ctx
  | CCtxFree ssl_ctx
  | CCtxVerifyNone ssl_ctx
  | CCtxUseCertificate ssl_ctx X509
  | CCtxUsePrivateKey ssl_ctx evp_pkey
  | CSslNew ssl ssl_ctx fd
  | CSslSni ssl string
  | CSslAlpn ssl "byte list"
  | CCtxAlpnSelect ssl "byte list"
  | CSslHandshake ssl
  | CSslRead ssl "byte list"
  | CSslWrite ssl "byte list"
  | CSslShutdown ssl
  | CSslFree ssl
  | CCertGen string
  | CInspect "byte list" string

record os =
  os_socket :: "syscall list \<Rightarrow> int \<Rightarrow> errno + fd"
  os_bind :: "syscall list \<Rightarrow> fd \<Rightarrow> sockaddr \<Rightarrow> errno option"
  os_listen :: "syscall list \<Rightarrow> fd \<Rightarrow> int \<Rightarrow> errno option"
  os_connect :: "syscall list \<Rightarrow> fd \<Rightarrow> sockaddr \<Rightarrow> errno option"
  os_accept :: "syscall list \<Rightarrow> fd \<Rightarrow> errno + fd \<times> sockaddr \<times> nat"
  os_nonblock :: "syscall list \<Rightarrow> fd \<Rightarrow> errno option"
  os_reuseaddr :: "syscall list \<Rightarrow> fd \<Rightarrow> errno option"
  os_recv :: "syscall list \<Rightarrow> fd \<Rightarrow> nat \<Rightarrow> errno + byte list"
  os_send :: "syscall list \<Rightarrow> fd \<Rightarrow> byte list \<Rightarrow> errno + nat"
  os_strerror :: "errno \<Rightarrow> string"
  os_getaddrinfo :: "syscall list \<Rightarrow> string \<Rightarrow> string \<Rightarrow> int + sockaddr \<times> nat"
  os_gai_strerror :: "int \<Rightarrow> string"
  os_getnameinfo :: "sockaddr \<Rightarrow> (string \<times> string) option"

text \<open>
  A call of OpenSSL that moves bytes answers with the byte count or with the value of
  \<^verbatim>\<open>SSL_get_error\<close>; a count of zero stands for \<^verbatim>\<open>SSL_ERROR_SYSCALL\<close>. \<open>tls_errorString\<close> is \<^verbatim>\<open>ERR_error_string_n (ERR_get_error ())\<close>.
\<close>

record openssl =
  tls_ctxNew :: "syscall list \<Rightarrow> ssl_ctx"
  tls_new :: "syscall list \<Rightarrow> ssl_ctx \<Rightarrow> ssl"
  tls_doHandshake :: "syscall list \<Rightarrow> ssl \<Rightarrow> ssl_error option"
  tls_read :: "syscall list \<Rightarrow> ssl \<Rightarrow> nat \<Rightarrow> ssl_error + byte list"
  tls_write :: "syscall list \<Rightarrow> ssl \<Rightarrow> byte list \<Rightarrow> ssl_error + nat"
  tls_errorString :: "syscall list \<Rightarrow> string"
  tls_alpnSelected :: "syscall list \<Rightarrow> ssl \<Rightarrow> byte list"

section \<open>The state that records the history\<close>

record platform =
  pf_calls :: "syscall list"

definition sys :: "syscall \<Rightarrow> 'a platform_scheme \<Rightarrow> 'a platform_scheme" where
  "sys c s = s\<lparr>pf_calls := pf_calls s @ [c]\<rparr>"

lemma sys_calls [simp]: "pf_calls (sys c s) = pf_calls s @ [c]"
  by (simp add: sys_def)

section \<open>Descriptors as identifiers\<close>

text \<open>\<^verbatim>\<open>static_cast<uintptr_t>(fd)\<close> and \<^verbatim>\<open>static_cast<int>(ident)\<close>.\<close>

definition uintptr :: "fd \<Rightarrow> u64" where
  "uintptr f = word_of_int f"

definition fd_of :: "u64 \<Rightarrow> fd" where
  "fd_of i = sint (ucast i :: 32 word)"

definition fd_ok :: "fd \<Rightarrow> bool" where
  "fd_ok f \<longleftrightarrow> - (2 ^ 31) \<le> f \<and> f < 2 ^ 31"

lemma fd_of_uintptr [simp]: "fd_ok f \<Longrightarrow> fd_of (uintptr f) = f"
proof -
  assume ok: "fd_ok f"
  have "fd_of (uintptr f) = signed_take_bit 31 (take_bit 64 f)"
    by (simp add: fd_of_def uintptr_def sint_uint unsigned_ucast_eq uint_word_of_int_eq signed_take_bit_take_bit)
  also have "\<dots> = signed_take_bit 31 f" by (simp add: signed_take_bit_take_bit)
  also have "\<dots> = f" using ok by (simp add: signed_take_bit_int_eq_self_iff fd_ok_def)
  finally show ?thesis .
qed

lemma uintptr_inj: "fd_ok f \<Longrightarrow> fd_ok g \<Longrightarrow> uintptr f = uintptr g \<longleftrightarrow> f = g"
  by (metis fd_of_uintptr)

end
