(* ===== verification/Event_Loop.thy ===== *)
theory Event_Loop
  imports Platform
begin

unbundle bit_operations_syntax

text \<open>
  \<^verbatim>\<open>Event/EventLoop.hpp\<close> and \<^verbatim>\<open>Event/KqueueLoop.cpp\<close>: the kqueue event loop. The state \<open>KqueueLoop\<close>
  extends the call history; callbacks are values of a type \<open>'cb\<close> and the functions that run them
  (\<open>io\<close> for I/O callbacks, \<open>task\<close> for timers and posted callbacks) are arguments, so that a callback
  may change the whole state. What \<^verbatim>\<open>kevent\<close> returns while the loop waits is an argument too: a
  list of \<open>kwait\<close> results, each with the calls other threads make meanwhile.
\<close>

section \<open>State\<close>

abbreviation Readable :: u32 where "Readable \<equiv> 1"
abbreviation Writable :: u32 where "Writable \<equiv> 2"

definition has_event :: "u32 \<Rightarrow> u32 \<Rightarrow> bool" where
  "has_event events e \<longleftrightarrow> (events AND e) \<noteq> 0"

record 'cb FdEntry =
  fe_events :: u32
  fe_callback :: 'cb

record 'cb TimerEntry =
  te_id :: u64
  te_callback :: 'cb
  te_cancelled :: bool

text \<open>
  A \<^verbatim>\<open>TimerEntry\<close> is shared by the loop and its handle: entries live in \<open>el_timerHeap\<close> (their
  address is the index) and \<^verbatim>\<open>timers_\<close> and the handles hold addresses.
\<close>

record 'cb KqueueLoop = platform +
  el_kqFd :: fd
  el_running :: bool
  el_wakeReadFd :: fd
  el_wakeWriteFd :: fd
  el_fdEntries :: "fd \<rightharpoonup> 'cb FdEntry"
  el_timerHeap :: "'cb TimerEntry list"
  el_timers :: "u64 \<rightharpoonup> nat"
  el_nextTimerId :: u64
  el_posted :: "'cb list"

type_synonym TimerHandle = nat

section \<open>Operations\<close>

definition KqueueLoop_new ::
  "os \<Rightarrow> errno + fd \<Rightarrow> errno + fd \<times> fd \<Rightarrow> syscall list \<Rightarrow> fault + 'cb KqueueLoop" where
  "KqueueLoop_new os kq pipe calls =
     (case kq of
        Inl e \<Rightarrow> Inl (Thrown (RuntimeError (''kqueue() failed: '' @ os_strerror os e)))
      | Inr k \<Rightarrow>
          (case pipe of
             Inl e \<Rightarrow> Inl (Thrown (RuntimeError (''pip() failed: '' @ os_strerror os e)))
           | Inr (r, w) \<Rightarrow>
               Inr \<lparr>pf_calls = calls @ [CFcntl r, CFcntl w, CKevent [EvAdd EVFILT_READ (uintptr r)]],
                    el_kqFd = k, el_running = False, el_wakeReadFd = r, el_wakeWriteFd = w,
                    el_fdEntries = Map.empty, el_timerHeap = [], el_timers = Map.empty,
                    el_nextTimerId = 1, el_posted = []\<rparr>))"

definition close_valid :: "fd \<Rightarrow> 'a platform_scheme \<Rightarrow> 'a platform_scheme" where
  "close_valid f s = (if 0 \<le> f then sys (CClose f) s else s)"

definition KqueueLoop_destroy :: "('cb, 'a) KqueueLoop_scheme \<Rightarrow> ('cb, 'a) KqueueLoop_scheme" where
  "KqueueLoop_destroy s =
     close_valid (el_wakeWriteFd s) (close_valid (el_wakeReadFd s) (close_valid (el_kqFd s) s))"

definition KqueueLoop_wake :: "('cb, 'a) KqueueLoop_scheme \<Rightarrow> ('cb, 'a) KqueueLoop_scheme" where
  "KqueueLoop_wake s = sys CWakeWrite s"

definition KqueueLoop_stop :: "('cb, 'a) KqueueLoop_scheme \<Rightarrow> ('cb, 'a) KqueueLoop_scheme" where
  "KqueueLoop_stop s = KqueueLoop_wake (s\<lparr>el_running := False\<rparr>)"

definition filters_of :: "u32 \<Rightarrow> kfilter list" where
  "filters_of events = (if has_event events Readable then [EVFILT_READ] else [])
     @ (if has_event events Writable then [EVFILT_WRITE] else [])"

definition KqueueLoop_remove :: "fd \<Rightarrow> ('cb, 'a) KqueueLoop_scheme \<Rightarrow> ('cb, 'a) KqueueLoop_scheme" where
  "KqueueLoop_remove f s =
     (case el_fdEntries s f of
        None \<Rightarrow> s
      | Some e \<Rightarrow>
          (sys (CKevent (map (\<lambda>k. EvDelete k (uintptr f)) (filters_of (fe_events e)))) s)
            \<lparr>el_fdEntries := (el_fdEntries s)(f := None)\<rparr>)"

definition KqueueLoop_watch ::
  "fd \<Rightarrow> u32 \<Rightarrow> 'cb \<Rightarrow> ('cb, 'a) KqueueLoop_scheme \<Rightarrow> ('cb, 'a) KqueueLoop_scheme" where
  "KqueueLoop_watch f events cb s =
     (let s1 = KqueueLoop_remove f s;
          s2 = s1\<lparr>el_fdEntries := (el_fdEntries s1)(f \<mapsto> \<lparr>fe_events = events, fe_callback = cb\<rparr>)\<rparr>;
          evs = map (\<lambda>k. EvAdd k (uintptr f)) (filters_of events)
      in if evs = [] then s2 else sys (CKevent evs) s2)"

text \<open>\<open>delay\<close> is in the nanoseconds of \<^verbatim>\<open>steady_clock::duration\<close>.\<close>

definition timer_ms :: "int \<Rightarrow> int" where
  "timer_ms delay = (let ms = delay div 1000000 in if ms \<le> 0 then 1 else ms)"

definition KqueueLoop_addTimer ::
  "int \<Rightarrow> 'cb \<Rightarrow> ('cb, 'a) KqueueLoop_scheme \<Rightarrow> TimerHandle \<times> ('cb, 'a) KqueueLoop_scheme" where
  "KqueueLoop_addTimer delay cb s =
     (let i = el_nextTimerId s;
          addr = length (el_timerHeap s);
          s1 = s\<lparr>el_nextTimerId := i + 1,
                 el_timerHeap := el_timerHeap s @ [\<lparr>te_id = i, te_callback = cb, te_cancelled = False\<rparr>],
                 el_timers := (el_timers s)(i \<mapsto> addr)\<rparr>
      in (addr, sys (CKevent [EvTimer i (timer_ms delay * 1000)]) s1))"

text \<open>\<^verbatim>\<open>KqueueTimerHandle::cancel\<close>, also what destroying the handle does.\<close>

definition TimerHandle_cancel :: "TimerHandle \<Rightarrow> ('cb, 'a) KqueueLoop_scheme \<Rightarrow> ('cb, 'a) KqueueLoop_scheme" where
  "TimerHandle_cancel h s =
     s\<lparr>el_timerHeap := (el_timerHeap s)[h := (el_timerHeap s ! h)\<lparr>te_cancelled := True\<rparr>]\<rparr>"

definition KqueueLoop_post :: "'cb \<Rightarrow> ('cb, 'a) KqueueLoop_scheme \<Rightarrow> ('cb, 'a) KqueueLoop_scheme" where
  "KqueueLoop_post cb s = KqueueLoop_wake (s\<lparr>el_posted := el_posted s @ [cb]\<rparr>)"

fun run_tasks :: "('cb \<Rightarrow> 's \<Rightarrow> fault + 's) \<Rightarrow> 'cb list \<Rightarrow> 's \<Rightarrow> fault + 's" where
  "run_tasks task [] s = Inr s"
| "run_tasks task (cb # cbs) s = rbind (task cb s) (run_tasks task cbs)"

definition KqueueLoop_processPosted ::
  "('cb \<Rightarrow> ('cb, 'a) KqueueLoop_scheme \<Rightarrow> fault + ('cb, 'a) KqueueLoop_scheme)
     \<Rightarrow> ('cb, 'a) KqueueLoop_scheme \<Rightarrow> fault + ('cb, 'a) KqueueLoop_scheme" where
  "KqueueLoop_processPosted task s = run_tasks task (el_posted s) (s\<lparr>el_posted := []\<rparr>)"

definition fired_events :: "kevent \<Rightarrow> u32" where
  "fired_events ev =
     (if ke_filter ev = EVFILT_READ then Readable else 0)
     OR (if ke_filter ev = EVFILT_WRITE then Writable else 0)
     OR (if ke_eof ev then Readable else 0)"

text \<open>The body of the \<^verbatim>\<open>for\<close> loop of \<^verbatim>\<open>run()\<close>, for one reported event.\<close>

definition KqueueLoop_event ::
  "('cb \<Rightarrow> u32 \<Rightarrow> ('cb, 'a) KqueueLoop_scheme \<Rightarrow> fault + ('cb, 'a) KqueueLoop_scheme)
     \<Rightarrow> ('cb \<Rightarrow> ('cb, 'a) KqueueLoop_scheme \<Rightarrow> fault + ('cb, 'a) KqueueLoop_scheme)
     \<Rightarrow> kevent \<Rightarrow> ('cb, 'a) KqueueLoop_scheme \<Rightarrow> fault + ('cb, 'a) KqueueLoop_scheme" where
  "KqueueLoop_event io task ev s =
     (if ke_filter ev = EVFILT_READ \<and> fd_of (ke_ident ev) = el_wakeReadFd s
      then KqueueLoop_processPosted task (sys CWakeDrain s)
      else if ke_filter ev = EVFILT_TIMER then
        (case el_timers s (ke_ident ev) of
           None \<Rightarrow> Inr s
         | Some addr \<Rightarrow>
             (let s1 = s\<lparr>el_timers := (el_timers s)(ke_ident ev := None)\<rparr>
              in if length (el_timerHeap s) \<le> addr then Inl UndefinedBehaviour
                 else if te_cancelled (el_timerHeap s ! addr) then Inr s1
                 else task (te_callback (el_timerHeap s ! addr)) s1))
      else
        (case el_fdEntries s (fd_of (ke_ident ev)) of
           None \<Rightarrow> Inr s
         | Some e \<Rightarrow> io (fe_callback e) (fired_events ev) s))"

fun run_batch ::
  "('cb \<Rightarrow> u32 \<Rightarrow> ('cb, 'a) KqueueLoop_scheme \<Rightarrow> fault + ('cb, 'a) KqueueLoop_scheme)
     \<Rightarrow> ('cb \<Rightarrow> ('cb, 'a) KqueueLoop_scheme \<Rightarrow> fault + ('cb, 'a) KqueueLoop_scheme)
     \<Rightarrow> kevent list \<Rightarrow> ('cb, 'a) KqueueLoop_scheme \<Rightarrow> fault + ('cb, 'a) KqueueLoop_scheme" where
  "run_batch io task [] s = Inr s"
| "run_batch io task (ev # evs) s = rbind (KqueueLoop_event io task ev s) (run_batch io task evs)"

text \<open>
  One wait of the loop in \<^verbatim>\<open>kevent\<close>: what other threads do meanwhile (\<^verbatim>\<open>post\<close> and \<^verbatim>\<open>stop\<close>, the calls that
  are safe from outside), then the result.
\<close>

datatype 'cb foreign = FPost 'cb | FStop

fun foreign_call :: "'cb foreign \<Rightarrow> ('cb, 'a) KqueueLoop_scheme \<Rightarrow> ('cb, 'a) KqueueLoop_scheme" where
  "foreign_call (FPost cb) s = KqueueLoop_post cb s"
| "foreign_call FStop s = KqueueLoop_stop s"

record 'cb kwait =
  kw_foreign :: "'cb foreign list"
  kw_result :: "errno + kevent list"

datatype loop_exit = LoopStopped | LoopBroken errno | LoopWaiting

fun run_loop ::
  "('cb \<Rightarrow> u32 \<Rightarrow> ('cb, 'a) KqueueLoop_scheme \<Rightarrow> fault + ('cb, 'a) KqueueLoop_scheme)
     \<Rightarrow> ('cb \<Rightarrow> ('cb, 'a) KqueueLoop_scheme \<Rightarrow> fault + ('cb, 'a) KqueueLoop_scheme)
     \<Rightarrow> 'cb kwait list \<Rightarrow> ('cb, 'a) KqueueLoop_scheme
     \<Rightarrow> fault + (loop_exit \<times> 'cb kwait list) \<times> ('cb, 'a) KqueueLoop_scheme" where
  "run_loop io task [] s = Inr ((if el_running s then LoopWaiting else LoopStopped, []), s)"
| "run_loop io task (w # ws) s =
     (if \<not> el_running s then Inr ((LoopStopped, w # ws), s)
      else
        (let s1 = fold foreign_call (kw_foreign w) s
         in case kw_result w of
              Inl e \<Rightarrow> if e = EINTR then run_loop io task ws s1 else Inr ((LoopBroken e, ws), s1)
            | Inr evs \<Rightarrow> rbind (run_batch io task evs s1) (run_loop io task ws)))"

definition KqueueLoop_run ::
  "('cb \<Rightarrow> u32 \<Rightarrow> ('cb, 'a) KqueueLoop_scheme \<Rightarrow> fault + ('cb, 'a) KqueueLoop_scheme)
     \<Rightarrow> ('cb \<Rightarrow> ('cb, 'a) KqueueLoop_scheme \<Rightarrow> fault + ('cb, 'a) KqueueLoop_scheme)
     \<Rightarrow> 'cb kwait list \<Rightarrow> ('cb, 'a) KqueueLoop_scheme
     \<Rightarrow> fault + (loop_exit \<times> 'cb kwait list) \<times> ('cb, 'a) KqueueLoop_scheme" where
  "KqueueLoop_run io task ws s = run_loop io task ws (s\<lparr>el_running := True\<rparr>)"

section \<open>What the kernel watches\<close>

text \<open>
  The interest list of the kqueue, replayed from the history: \<^verbatim>\<open>EV_ADD\<close> enters a filter,
  \<^verbatim>\<open>EV_DELETE\<close> takes it out, and closing a descriptor drops its filters.
\<close>

fun apply_change :: "kchange \<Rightarrow> (kfilter \<times> u64) set \<Rightarrow> (kfilter \<times> u64) set" where
  "apply_change (EvAdd k i) I = insert (k, i) I"
| "apply_change (EvDelete k i) I = I - {(k, i)}"
| "apply_change (EvTimer i us) I = I"

fun apply_call :: "syscall \<Rightarrow> (kfilter \<times> u64) set \<Rightarrow> (kfilter \<times> u64) set" where
  "apply_call (CKevent cs) I = fold apply_change cs I"
| "apply_call (CClose f) I = {x \<in> I. snd x \<noteq> uintptr f}"
| "apply_call _ I = I"

definition interest :: "syscall list \<Rightarrow> (kfilter \<times> u64) set" where
  "interest cs = fold apply_call cs {}"

lemma interest_snoc [simp]: "interest (cs @ [c]) = apply_call c (interest cs)"
  by (simp add: interest_def)

lemma apply_adds: "fold apply_change (map (\<lambda>k. EvAdd k i) ks) I = (\<lambda>k. (k, i)) ` set ks \<union> I"
  by (induction ks arbitrary: I) auto

lemma apply_deletes: "fold apply_change (map (\<lambda>k. EvDelete k i) ks) I = I - (\<lambda>k. (k, i)) ` set ks"
  by (induction ks arbitrary: I) auto

definition wanted :: "(fd \<rightharpoonup> 'cb FdEntry) \<Rightarrow> (kfilter \<times> u64) set" where
  "wanted m = {(k, uintptr f) | k f e. m f = Some e \<and> k \<in> set (filters_of (fe_events e))}"

definition fds_ok :: "('cb, 'a) KqueueLoop_scheme \<Rightarrow> bool" where
  "fds_ok s \<longleftrightarrow> fd_ok (el_wakeReadFd s) \<and>
     (\<forall>f \<in> dom (el_fdEntries s). fd_ok f \<and> f \<noteq> el_wakeReadFd s)"

definition interest_ok :: "('cb, 'a) KqueueLoop_scheme \<Rightarrow> bool" where
  "interest_ok s \<longleftrightarrow> interest (pf_calls s)
     = insert (EVFILT_READ, uintptr (el_wakeReadFd s)) (wanted (el_fdEntries s))"

definition timers_ok :: "('cb, 'a) KqueueLoop_scheme \<Rightarrow> bool" where
  "timers_ok s \<longleftrightarrow> (\<forall>i a. el_timers s i = Some a \<longrightarrow>
     a < length (el_timerHeap s) \<and> te_id (el_timerHeap s ! a) = i)"

definition loop_wf :: "('cb, 'a) KqueueLoop_scheme \<Rightarrow> bool" where
  "loop_wf s \<longleftrightarrow> fds_ok s \<and> interest_ok s \<and> timers_ok s"

lemmas loop_wf_defs = loop_wf_def fds_ok_def interest_ok_def timers_ok_def

lemma wanted_upd_None:
  assumes "\<forall>g \<in> dom m. fd_ok g" and "m f = Some e"
  shows "wanted (m(f := None)) = wanted m - (\<lambda>k. (k, uintptr f)) ` set (filters_of (fe_events e))"
proof -
  have ok: "fd_ok f" using assms by auto
  have ne: "uintptr g \<noteq> uintptr f" if "m g = Some e'" "g \<noteq> f" for g e'
    using that assms(1) ok uintptr_inj by (metis domI)
  then have "x \<in> wanted (m(f := None)) \<longleftrightarrow> x \<in> wanted m \<and> snd x \<noteq> uintptr f" for x
    by (cases x) (auto simp: wanted_def split: if_splits; metis)
  moreover have "x \<in> wanted m \<and> snd x = uintptr f \<longleftrightarrow>
      x \<in> (\<lambda>k. (k, uintptr f)) ` set (filters_of (fe_events e))" for x
  proof (cases x)
    case (Pair k i)
    have "m g = Some e' \<and> uintptr g = uintptr f \<longleftrightarrow> g = f \<and> e' = e" for g e'
      using assms(2) ne by (metis option.inject)
    then show ?thesis using assms(2) by (fastforce simp: Pair wanted_def)
  qed
  ultimately show ?thesis by blast
qed

lemma wanted_upd_Some:
  assumes "m f = None"
  shows "wanted (m(f \<mapsto> e)) = (\<lambda>k. (k, uintptr f)) ` set (filters_of (fe_events e)) \<union> wanted m"
  using assms by (fastforce simp: wanted_def split: if_splits)

lemma wake_not_wanted:
  assumes "fds_ok s" and "fd_ok f" and "f \<noteq> el_wakeReadFd s"
  shows "(k, uintptr (el_wakeReadFd s)) \<notin> (\<lambda>k. (k, uintptr f)) ` A"
  using assms uintptr_inj by (auto simp: fds_ok_def)

subsection \<open>The operations keep the loop well formed\<close>

lemma remove_fields [simp]:
  "el_fdEntries (KqueueLoop_remove f s) = (el_fdEntries s)(f := None)"
  "el_wakeReadFd (KqueueLoop_remove f s) = el_wakeReadFd s"
  "el_timerHeap (KqueueLoop_remove f s) = el_timerHeap s"
  "el_timers (KqueueLoop_remove f s) = el_timers s"
  "el_nextTimerId (KqueueLoop_remove f s) = el_nextTimerId s"
  "el_running (KqueueLoop_remove f s) = el_running s"
  "el_posted (KqueueLoop_remove f s) = el_posted s"
  "KqueueLoop.more (KqueueLoop_remove f s) = KqueueLoop.more s"
  by (auto simp: KqueueLoop_remove_def sys_def split: option.splits)

lemma watch_fields [simp]:
  "el_fdEntries (KqueueLoop_watch f ev cb s) = (el_fdEntries s)(f \<mapsto> \<lparr>fe_events = ev, fe_callback = cb\<rparr>)"
  "el_wakeReadFd (KqueueLoop_watch f ev cb s) = el_wakeReadFd s"
  "el_timerHeap (KqueueLoop_watch f ev cb s) = el_timerHeap s"
  "el_timers (KqueueLoop_watch f ev cb s) = el_timers s"
  "el_nextTimerId (KqueueLoop_watch f ev cb s) = el_nextTimerId s"
  "el_running (KqueueLoop_watch f ev cb s) = el_running s"
  "el_posted (KqueueLoop_watch f ev cb s) = el_posted s"
  "KqueueLoop.more (KqueueLoop_watch f ev cb s) = KqueueLoop.more s"
  by (auto simp: KqueueLoop_watch_def sys_def Let_def)

lemma remove_interest:
  assumes "fds_ok s" and "interest_ok s"
  shows "interest_ok (KqueueLoop_remove f s)"
proof (cases "el_fdEntries s f")
  case None
  then show ?thesis using assms by (simp add: KqueueLoop_remove_def)
next
  case (Some e)
  then have f: "fd_ok f" "f \<noteq> el_wakeReadFd s" and all: "\<forall>g \<in> dom (el_fdEntries s). fd_ok g"
    using assms(1) by (auto simp: fds_ok_def)
  let ?D = "(\<lambda>k. (k, uintptr f)) ` set (filters_of (fe_events e))"
  have "interest (pf_calls (KqueueLoop_remove f s)) = interest (pf_calls s) - ?D"
    using Some by (simp add: KqueueLoop_remove_def apply_deletes)
  also have "\<dots> = insert (EVFILT_READ, uintptr (el_wakeReadFd s)) (wanted (el_fdEntries s) - ?D)"
    using assms(2) wake_not_wanted [OF assms(1) f, of EVFILT_READ "set (filters_of (fe_events e))"] by (simp add: interest_ok_def insert_Diff_if del: image_iff)
  finally show ?thesis using Some wanted_upd_None [OF all Some]
    by (simp add: interest_ok_def)
qed

lemma watch_interest:
  assumes "fds_ok s" and "interest_ok s"
  shows "interest_ok (KqueueLoop_watch f ev cb s)"
proof -
  let ?r = "KqueueLoop_remove f s" and ?A = "(\<lambda>k. (k, uintptr f)) ` set (filters_of ev)"
  have calls: "interest (pf_calls (KqueueLoop_watch f ev cb s)) = ?A \<union> interest (pf_calls ?r)"
    by (auto simp: KqueueLoop_watch_def Let_def apply_adds)
  have "wanted ((el_fdEntries s)(f \<mapsto> \<lparr>fe_events = ev, fe_callback = cb\<rparr>))
      = ?A \<union> wanted (el_fdEntries ?r)"
    using wanted_upd_Some [of "el_fdEntries ?r" f "\<lparr>fe_events = ev, fe_callback = cb\<rparr>"] by simp
  then show ?thesis using calls remove_interest [OF assms, of f]
    by (auto simp: interest_ok_def)
qed

lemma remove_wf [intro]: "loop_wf s \<Longrightarrow> loop_wf (KqueueLoop_remove f s)"
  using remove_interest by (auto simp: loop_wf_def fds_ok_def timers_ok_def)

lemma watch_wf [intro]:
  assumes "loop_wf s" "fd_ok f" "f \<noteq> el_wakeReadFd s"
  shows "loop_wf (KqueueLoop_watch f ev cb s)"
  using watch_interest [of s f ev cb] assms by (auto simp: loop_wf_def fds_ok_def timers_ok_def)

lemma addTimer_wf [intro]: "loop_wf s \<Longrightarrow> loop_wf (snd (KqueueLoop_addTimer d cb s))"
  unfolding loop_wf_defs
  by (auto simp: KqueueLoop_addTimer_def Let_def sys_def nth_append less_SucI)

lemma cancel_wf [intro]: "loop_wf s \<Longrightarrow> loop_wf (TimerHandle_cancel h s)"
  unfolding loop_wf_defs
  by (cases "h < length (el_timerHeap s)") (auto simp: TimerHandle_cancel_def nth_list_update list_update_beyond)

lemma post_wf [intro]: "loop_wf s \<Longrightarrow> loop_wf (KqueueLoop_post cb s)"
  unfolding loop_wf_defs by (simp add: KqueueLoop_post_def KqueueLoop_wake_def sys_def)

lemma stop_wf [intro]: "loop_wf s \<Longrightarrow> loop_wf (KqueueLoop_stop s)"
  unfolding loop_wf_defs by (simp add: KqueueLoop_stop_def KqueueLoop_wake_def sys_def)

lemma new_wf:
  assumes "KqueueLoop_new os kq (Inr (r, w)) [] = Inr s" and "fd_ok r"
  shows "loop_wf s"
  using assms unfolding loop_wf_defs
  by (auto simp: KqueueLoop_new_def wanted_def interest_def split: sum.splits)

section \<open>Callbacks that call the loop\<close>

text \<open>The calls of the interface \<^verbatim>\<open>EventLoop\<close> that a callback can make on its own loop.\<close>

datatype 'cb loop_op =
    OpWatch fd u32 'cb
  | OpRemove fd
  | OpAddTimer int 'cb
  | OpCancel TimerHandle
  | OpPost 'cb
  | OpStop

fun loop_call :: "'cb loop_op \<Rightarrow> ('cb, 'a) KqueueLoop_scheme \<Rightarrow> ('cb, 'a) KqueueLoop_scheme" where
  "loop_call (OpWatch f ev cb) s = KqueueLoop_watch f ev cb s"
| "loop_call (OpRemove f) s = KqueueLoop_remove f s"
| "loop_call (OpAddTimer d cb) s = snd (KqueueLoop_addTimer d cb s)"
| "loop_call (OpCancel h) s = TimerHandle_cancel h s"
| "loop_call (OpPost cb) s = KqueueLoop_post cb s"
| "loop_call OpStop s = KqueueLoop_stop s"

fun op_ok :: "fd \<Rightarrow> 'cb loop_op \<Rightarrow> bool" where
  "op_ok r (OpWatch f ev cb) \<longleftrightarrow> fd_ok f \<and> f \<noteq> r"
| "op_ok r _ \<longleftrightarrow> True"

definition script_io ::
  "('cb \<Rightarrow> u32 \<Rightarrow> 'cb loop_op list) \<Rightarrow> 'cb \<Rightarrow> u32 \<Rightarrow> ('cb, 'a) KqueueLoop_scheme
     \<Rightarrow> fault + ('cb, 'a) KqueueLoop_scheme" where
  "script_io prog cb ev s = Inr (fold loop_call (prog cb ev) s)"

definition script_task ::
  "('cb \<Rightarrow> 'cb loop_op list) \<Rightarrow> 'cb \<Rightarrow> ('cb, 'a) KqueueLoop_scheme
     \<Rightarrow> fault + ('cb, 'a) KqueueLoop_scheme" where
  "script_task prog cb s = Inr (fold loop_call (prog cb) s)"

text \<open>
  Invariants of a run: what the callbacks keep and the loop's own bookkeeping keeps, every state the
  loop reaches has.
\<close>

locale loop_run_invariant =
  fixes io :: "'cb \<Rightarrow> u32 \<Rightarrow> ('cb, 'a) KqueueLoop_scheme \<Rightarrow> fault + ('cb, 'a) KqueueLoop_scheme"
    and task :: "'cb \<Rightarrow> ('cb, 'a) KqueueLoop_scheme \<Rightarrow> fault + ('cb, 'a) KqueueLoop_scheme"
    and inv :: "('cb, 'a) KqueueLoop_scheme \<Rightarrow> bool"
  assumes io_keeps: "inv s \<Longrightarrow> io cb ev s = Inr s' \<Longrightarrow> inv s'"
    and task_keeps: "inv s \<Longrightarrow> task cb s = Inr s' \<Longrightarrow> inv s'"
    and drained: "inv s \<Longrightarrow> inv ((sys CWakeDrain s)\<lparr>el_posted := []\<rparr>)"
    and expired: "inv s \<Longrightarrow> inv (s\<lparr>el_timers := (el_timers s)(i := None)\<rparr>)"
    and foreign: "inv s \<Longrightarrow> inv (foreign_call c s)"
begin

lemma run_tasks_inv: "inv s \<Longrightarrow> run_tasks task cbs s = Inr s' \<Longrightarrow> inv s'"
  by (induction cbs arbitrary: s) (auto simp: res_iff dest: task_keeps)

lemma event_inv:
  assumes "inv s" and "KqueueLoop_event io task ev s = Inr s'"
  shows "inv s'"
proof -
  have posted: "KqueueLoop_processPosted task (sys CWakeDrain s) = Inr s' \<Longrightarrow> inv s'"
    using run_tasks_inv [OF drained [OF assms(1)]] by (simp add: KqueueLoop_processPosted_def)
  have timer: "task cb (s\<lparr>el_timers := (el_timers s)(i := None)\<rparr>) = Inr s' \<Longrightarrow> inv s'" for cb i
    using task_keeps [OF expired [OF assms(1)]] .
  show ?thesis using assms(2) posted timer expired [OF assms(1)] io_keeps [OF assms(1)] assms(1)
    unfolding KqueueLoop_event_def Let_def
    by (simp split: option.splits if_splits) blast+
qed

lemma batch_inv: "inv s \<Longrightarrow> run_batch io task evs s = Inr s' \<Longrightarrow> inv s'"
  by (induction evs arbitrary: s) (auto simp: res_iff dest: event_inv)

lemma foreign_inv: "inv s \<Longrightarrow> inv (fold foreign_call cs s)"
  by (induction cs arbitrary: s) (simp_all add: foreign)

lemma loop_inv: "inv s \<Longrightarrow> run_loop io task ws s = Inr (x, s') \<Longrightarrow> inv s'"
proof (induction ws arbitrary: s)
  case (Cons w ws)
  note prem = foreign_inv [OF Cons.prems(1), of "kw_foreign w"]
  show ?case
    using Cons.prems prem Cons.IH batch_inv [OF prem]
    by (auto simp: Let_def res_iff split: sum.splits if_splits)
qed simp

end

text \<open>Callbacks that moreover never fault: then the loop does not fault either.\<close>

locale loop_run_total = loop_run_invariant +
  assumes io_total: "inv s \<Longrightarrow> \<exists>s'. io cb ev s = Inr s'"
    and task_total: "inv s \<Longrightarrow> \<exists>s'. task cb s = Inr s'"
    and heap: "inv s \<Longrightarrow> el_timers s i = Some a \<Longrightarrow> a < length (el_timerHeap s)"
begin

lemma run_tasks_total: "inv s \<Longrightarrow> \<exists>s'. run_tasks task cbs s = Inr s'"
proof (induction cbs arbitrary: s)
  case (Cons cb cbs)
  obtain s1 where "task cb s = Inr s1" "inv s1"
    using task_total [OF Cons.prems] task_keeps [OF Cons.prems] by blast
  then show ?case using Cons.IH by simp
qed simp

lemma event_total:
  assumes "inv s"
  shows "\<exists>s'. KqueueLoop_event io task ev s = Inr s'"
proof -
  have posted: "\<exists>s'. KqueueLoop_processPosted task (sys CWakeDrain s) = Inr s'"
    using run_tasks_total [OF drained [OF assms]] by (simp add: KqueueLoop_processPosted_def)
  have timer: "\<exists>s'. task cb (s\<lparr>el_timers := (el_timers s)(i := None)\<rparr>) = Inr s'" for cb i
    by (rule task_total) (rule expired [OF assms])
  show ?thesis using posted timer io_total [OF assms] heap [OF assms]
    unfolding KqueueLoop_event_def Let_def by (simp split: option.splits) (meson leD)
qed

lemma batch_total: "inv s \<Longrightarrow> \<exists>s'. run_batch io task evs s = Inr s'"
proof (induction evs arbitrary: s)
  case (Cons ev evs)
  obtain s1 where "KqueueLoop_event io task ev s = Inr s1" "inv s1"
    using event_total [OF Cons.prems] event_inv [OF Cons.prems] by blast
  then show ?case using Cons.IH by simp
qed simp

lemma loop_total: "inv s \<Longrightarrow> \<exists>x s'. run_loop io task ws s = Inr (x, s') \<and> inv s'"
proof (induction ws arbitrary: s)
  case (Cons w ws)
  note prem = foreign_inv [OF Cons.prems, of "kw_foreign w"]
  show ?case
  proof (cases "kw_result w")
    case (Inl e)
    then show ?thesis using Cons.IH [OF prem] Cons.prems prem by (auto simp: Let_def)
  next
    case (Inr evs)
    obtain s1 where "run_batch io task evs (fold foreign_call (kw_foreign w) s) = Inr s1" "inv s1"
      using batch_total [OF prem] batch_inv [OF prem] by blast
    then show ?thesis using Inr Cons.IH Cons.prems by (auto simp: Let_def)
  qed
qed simp

end

lemma loop_call_wf: "loop_wf s \<Longrightarrow> op_ok (el_wakeReadFd s) c \<Longrightarrow> loop_wf (loop_call c s)"
  by (cases c) auto

lemma loop_call_wakeFd [simp]: "el_wakeReadFd (loop_call c s) = el_wakeReadFd s"
  by (cases c) (simp_all add: KqueueLoop_addTimer_def TimerHandle_cancel_def KqueueLoop_post_def
      KqueueLoop_stop_def KqueueLoop_wake_def sys_def Let_def)

definition wf_on :: "fd \<Rightarrow> ('cb, 'a) KqueueLoop_scheme \<Rightarrow> bool" where
  "wf_on r s \<longleftrightarrow> loop_wf s \<and> el_wakeReadFd s = r"

lemma loop_calls_wf: "wf_on r s \<Longrightarrow> list_all (op_ok r) cs \<Longrightarrow> wf_on r (fold loop_call cs s)"
  by (induction cs arbitrary: s) (auto simp: wf_on_def loop_call_wf)

lemma foreign_as_op: "foreign_call c s = loop_call (case c of FPost cb \<Rightarrow> OpPost cb | FStop \<Rightarrow> OpStop) s"
  by (cases c) simp_all

text \<open>Callbacks that make any calls of the interface, except watching the wake pipe or an impossible descriptor.\<close>

definition safe_io :: "fd \<Rightarrow> ('cb \<Rightarrow> u32 \<Rightarrow> 'cb loop_op list) \<Rightarrow> 'cb \<Rightarrow> u32 \<Rightarrow> 'cb loop_op list" where
  "safe_io r prog cb ev = filter (op_ok r) (prog cb ev)"

definition safe_task :: "fd \<Rightarrow> ('cb \<Rightarrow> 'cb loop_op list) \<Rightarrow> 'cb \<Rightarrow> 'cb loop_op list" where
  "safe_task r prog cb = filter (op_ok r) (prog cb)"

interpretation script: loop_run_total "script_io (safe_io r ioProg)" "script_task (safe_task r taskProg)" "wf_on r"
  for r ioProg taskProg
proof
  fix s s' :: "('a, 'b) KqueueLoop_scheme" and c :: "'a foreign"
  assume wf: "wf_on r s"
  have safe: "list_all (op_ok r) (safe_io r ioProg cb ev)" "list_all (op_ok r) (safe_task r taskProg cb)" for cb ev
    by (simp_all add: safe_io_def safe_task_def list_all_iff)
  show "script_io (safe_io r ioProg) cb ev s = Inr s' \<Longrightarrow> wf_on r s'"
    and "\<exists>s'. script_io (safe_io r ioProg) cb ev s = Inr s'" for cb ev
    using loop_calls_wf [OF wf safe(1)] by (auto simp: script_io_def)
  show "script_task (safe_task r taskProg) cb s = Inr s' \<Longrightarrow> wf_on r s'"
    and "\<exists>s'. script_task (safe_task r taskProg) cb s = Inr s'" for cb
    using loop_calls_wf [OF wf safe(2)] by (auto simp: script_task_def)
  show "wf_on r ((sys CWakeDrain s)\<lparr>el_posted := []\<rparr>)"
    using wf by (auto simp: wf_on_def loop_wf_defs sys_def)
  show "wf_on r (s\<lparr>el_timers := (el_timers s)(i := None)\<rparr>)" for i
    using wf by (auto simp: wf_on_def loop_wf_defs)
  show "el_timers s i = Some a \<Longrightarrow> a < length (el_timerHeap s)" for i a
    using wf by (simp add: wf_on_def loop_wf_defs)
  show "wf_on r (foreign_call c s)"
    using wf loop_call_wf [of s] by (auto simp: foreign_as_op wf_on_def split: foreign.splits)
qed

lemma safe_programs:
  "(\<And>cb ev. list_all (op_ok r) (ioProg cb ev)) \<Longrightarrow> safe_io r ioProg = ioProg"
  "(\<And>cb. list_all (op_ok r) (taskProg cb)) \<Longrightarrow> safe_task r taskProg = taskProg"
  by (auto simp: safe_io_def safe_task_def list_all_iff fun_eq_iff)


section \<open>Timers\<close>

text \<open>
  A timer is one-shot and its handle cancels it. Its event runs its callback on the loop without
  the timer; after \<^verbatim>\<open>cancel\<close> the event only forgets the timer; once the timer is forgotten, a further
  event with its identifier does nothing. The kernel is asked for at least one millisecond.
\<close>

theorem timer_one_shot:
  "let i = el_nextTimerId s;
       h = fst (KqueueLoop_addTimer d cb s);
       s1 = snd (KqueueLoop_addTimer d cb s);
       ev = \<lparr>ke_filter = EVFILT_TIMER, ke_ident = i, ke_eof = eof\<rparr>;
       forget = (\<lambda>t. t\<lparr>el_timers := (el_timers t)(i := None)\<rparr>)
   in KqueueLoop_event io task ev s1 = task cb (forget s1) \<and>
      KqueueLoop_event io task ev (TimerHandle_cancel h s1) = Inr (forget (TimerHandle_cancel h s1)) \<and>
      KqueueLoop_event io task ev (forget t) = Inr (forget t) \<and>
      (\<exists>us. pf_calls s1 = pf_calls s @ [CKevent [EvTimer i us]] \<and> 1000 \<le> us)"
  by (simp add: KqueueLoop_event_def KqueueLoop_addTimer_def TimerHandle_cancel_def sys_def Let_def
      timer_ms_def nth_append)

section \<open>Stopping\<close>

lemma loop_call_running: "\<not> el_running s \<Longrightarrow> \<not> el_running (loop_call c s)"
  by (cases c) (simp_all add: KqueueLoop_addTimer_def TimerHandle_cancel_def KqueueLoop_post_def
      KqueueLoop_stop_def KqueueLoop_wake_def sys_def Let_def)

lemma loop_calls_running: "\<not> el_running s \<Longrightarrow> \<not> el_running (fold loop_call cs s)"
  by (induction cs arbitrary: s) (simp_all add: loop_call_running)

lemma foreign_stop: "FStop \<in> set cs \<or> \<not> el_running s \<Longrightarrow> \<not> el_running (fold foreign_call cs s)"
proof (induction cs arbitrary: s)
  case (Cons c cs)
  have "\<not> el_running s \<or> c = FStop \<Longrightarrow> \<not> el_running (foreign_call c s)"
    by (cases c) (auto simp: KqueueLoop_post_def KqueueLoop_stop_def KqueueLoop_wake_def sys_def)
  then show ?case using Cons by auto
qed simp

lemma stopped_invariant:
  "loop_run_invariant (script_io ioProg) (script_task taskProg) (\<lambda>s. \<not> el_running s)"
proof
  fix s :: "('a, 'b) KqueueLoop_scheme" and c
  assume st: "\<not> el_running s"
  show "\<not> el_running (foreign_call c s)" using foreign_stop [of "[c]" s] st by simp
qed (auto simp: script_io_def script_task_def sys_def loop_calls_running)

text \<open>
  A \<^verbatim>\<open>stop()\<close> made by another thread during a wait ends the loop after the events of that wait:
  the loop reports that it was stopped and waits no more.
\<close>

theorem stop_ends_run:
  fixes s :: "('cb, 'a) KqueueLoop_scheme"
  assumes "FStop \<in> set fs"
    and "KqueueLoop_run (script_io ioProg) (script_task taskProg)
           (\<lparr>kw_foreign = fs, kw_result = Inr evs\<rparr> # ws) s = Inr ((x, rest), s')"
  shows "x = LoopStopped \<and> rest = ws \<and> \<not> el_running s'"
proof -
  let ?s1 = "fold foreign_call fs (s\<lparr>el_running := True\<rparr>)"
  obtain s2 where s2: "run_batch (script_io ioProg) (script_task taskProg) evs ?s1 = Inr s2"
    and loop: "run_loop (script_io ioProg) (script_task taskProg) ws s2 = Inr ((x, rest), s')"
    using assms(2) by (auto simp: KqueueLoop_run_def res_iff)
  have "\<not> el_running ?s1" using assms(1) by (simp add: foreign_stop)
  then have "\<not> el_running s2" using loop_run_invariant.batch_inv [OF stopped_invariant] s2 by blast
  then show ?thesis using loop by (cases ws) auto
qed

theorem stop_ends_run_witness:
  "\<exists>x rest s'. KqueueLoop_run (script_io (\<lambda>cb ev. [])) (script_task (\<lambda>cb. []))
     [\<lparr>kw_foreign = [FStop], kw_result = Inr []\<rparr>, \<lparr>kw_foreign = [], kw_result = Inr []\<rparr>]
     (\<lparr>pf_calls = [], el_kqFd = 3, el_running = False, el_wakeReadFd = 4, el_wakeWriteFd = 5,
       el_fdEntries = Map.empty, el_timerHeap = [], el_timers = Map.empty, el_nextTimerId = 1,
       el_posted = []\<rparr> :: unit KqueueLoop) = Inr ((x, rest), s') \<and> x = LoopStopped \<and> length rest = 1"
proof -
  let ?s = "\<lparr>pf_calls = [], el_kqFd = 3, el_running = False, el_wakeReadFd = 4, el_wakeWriteFd = 5,
       el_fdEntries = Map.empty, el_timerHeap = [], el_timers = Map.empty, el_nextTimerId = 1,
       el_posted = []\<rparr> :: unit KqueueLoop"
  obtain x rest s' where run: "KqueueLoop_run (script_io (\<lambda>cb ev. [])) (script_task (\<lambda>cb. []))
     (\<lparr>kw_foreign = [FStop], kw_result = Inr []\<rparr> # [\<lparr>kw_foreign = [], kw_result = Inr []\<rparr>]) ?s
       = Inr ((x, rest), s')"
    by (simp add: KqueueLoop_run_def KqueueLoop_stop_def KqueueLoop_wake_def sys_def)
  have "FStop \<in> set [FStop]" by simp
  from stop_ends_run [OF this run] run show ?thesis by auto
qed

text \<open>
  \<^verbatim>\<open>run()\<close> sets the running flag itself, so a \<^verbatim>\<open>stop()\<close> made before it is forgotten: the loop runs
  exactly as after no \<^verbatim>\<open>stop()\<close>, but for the byte in the wake pipe.
\<close>

theorem stop_before_run_is_lost:
  "KqueueLoop_run io task ws (KqueueLoop_stop s) = KqueueLoop_run io task ws (KqueueLoop_wake s) \<and>
   KqueueLoop_run io task [] (KqueueLoop_stop s) = Inr ((LoopWaiting, []), (KqueueLoop_wake s)\<lparr>el_running := True\<rparr>)"
  by (simp add: KqueueLoop_run_def KqueueLoop_stop_def KqueueLoop_wake_def sys_def)

section \<open>Posting from other threads\<close>

text \<open>
  \<^verbatim>\<open>post()\<close> and the wake-up branch of \<^verbatim>\<open>run()\<close> as interleaved steps of several threads. A poster
  appends under the lock and then writes one byte to the wake pipe (which a full pipe ignores); the
  loop wakes when the pipe is readable, reads it empty in pieces of 64 bytes, swaps the list out
  under the lock and runs it. \<open>pq_posted\<close> and \<open>pq_ran\<close> record the callbacks posted and run so far.
\<close>

datatype poster = PIdle | PPushed

datatype 'cb loop_pc = LWaiting | LDraining | LDrained | LRunning "'cb list"

record 'cb post_state =
  pq_queue :: "'cb list"
  pq_pipe :: nat
  pq_poster :: "nat \<Rightarrow> poster"
  pq_loop :: "'cb loop_pc"
  pq_posted :: "'cb list"
  pq_ran :: "'cb list"

definition post_init :: "'cb post_state" where
  "post_init = \<lparr>pq_queue = [], pq_pipe = 0, pq_poster = (\<lambda>t. PIdle), pq_loop = LWaiting,
     pq_posted = [], pq_ran = []\<rparr>"

inductive poster_step :: "nat \<Rightarrow> 'cb post_state \<Rightarrow> 'cb post_state \<Rightarrow> bool" for cap where
  push: "pq_poster s t = PIdle \<Longrightarrow>
    poster_step cap s (s\<lparr>pq_queue := pq_queue s @ [cb], pq_posted := pq_posted s @ [cb],
      pq_poster := (pq_poster s)(t := PPushed)\<rparr>)"
| wake: "pq_poster s t = PPushed \<Longrightarrow>
    poster_step cap s (s\<lparr>pq_pipe := min cap (pq_pipe s + 1), pq_poster := (pq_poster s)(t := PIdle)\<rparr>)"

inductive loop_step :: "'cb post_state \<Rightarrow> 'cb post_state \<Rightarrow> bool" where
  woken: "pq_loop s = LWaiting \<Longrightarrow> 0 < pq_pipe s \<Longrightarrow> loop_step s (s\<lparr>pq_loop := LDraining\<rparr>)"
| read_some: "pq_loop s = LDraining \<Longrightarrow> 0 < pq_pipe s \<Longrightarrow> loop_step s (s\<lparr>pq_pipe := pq_pipe s - min 64 (pq_pipe s)\<rparr>)"
| read_none: "pq_loop s = LDraining \<Longrightarrow> pq_pipe s = 0 \<Longrightarrow> loop_step s (s\<lparr>pq_loop := LDrained\<rparr>)"
| swap: "pq_loop s = LDrained \<Longrightarrow> loop_step s (s\<lparr>pq_loop := LRunning (pq_queue s), pq_queue := []\<rparr>)"
| run_one: "pq_loop s = LRunning (cb # cbs) \<Longrightarrow>
    loop_step s (s\<lparr>pq_loop := LRunning cbs, pq_ran := pq_ran s @ [cb]\<rparr>)"
| run_done: "pq_loop s = LRunning [] \<Longrightarrow> loop_step s (s\<lparr>pq_loop := LWaiting\<rparr>)"

inductive post_reachable :: "nat \<Rightarrow> 'cb post_state \<Rightarrow> bool" for cap where
  init: "post_reachable cap post_init"
| by_poster: "post_reachable cap s \<Longrightarrow> poster_step cap s s' \<Longrightarrow> post_reachable cap s'"
| by_loop: "post_reachable cap s \<Longrightarrow> loop_step s s' \<Longrightarrow> post_reachable cap s'"

definition running_now :: "'cb loop_pc \<Rightarrow> 'cb list" where
  "running_now pc = (case pc of LRunning cbs \<Rightarrow> cbs | _ \<Rightarrow> [])"

definition post_inv :: "'cb post_state \<Rightarrow> bool" where
  "post_inv s \<longleftrightarrow> pq_ran s @ running_now (pq_loop s) @ pq_queue s = pq_posted s \<and>
     (pq_queue s \<noteq> [] \<longrightarrow> 0 < pq_pipe s \<or> pq_loop s = LDraining \<or> pq_loop s = LDrained
        \<or> (\<exists>t. pq_poster s t = PPushed))"

lemma poster_step_inv: "poster_step cap s s' \<Longrightarrow> 0 < cap \<Longrightarrow> post_inv s \<Longrightarrow> post_inv s'"
  by (induction rule: poster_step.induct) (auto simp: post_inv_def)

lemma loop_step_inv: "loop_step s s' \<Longrightarrow> post_inv s \<Longrightarrow> post_inv s'"
  by (induction rule: loop_step.induct) (auto simp: post_inv_def running_now_def)

lemma post_reachable_inv: "post_reachable cap s \<Longrightarrow> 0 < cap \<Longrightarrow> post_inv s"
proof (induction rule: post_reachable.induct)
  case init
  show ?case by (simp add: post_inv_def post_init_def running_now_def)
qed (auto intro: poster_step_inv loop_step_inv)

text \<open>
  C21: callbacks posted from any number of threads run in the order they were posted, each once: what
  has run, what the loop is running and what is still queued is exactly what was posted.
\<close>

theorem posted_exactly_once:
  assumes "post_reachable cap s" and "0 < cap"
  shows "pq_ran s @ (case pq_loop s of LRunning cbs \<Rightarrow> cbs | _ \<Rightarrow> []) @ pq_queue s = pq_posted s"
  using post_reachable_inv [OF assms] by (simp add: post_inv_def running_now_def)

definition posted_sample :: "nat post_state" where
  "posted_sample = post_init\<lparr>pq_queue := [7], pq_posted := [7], pq_poster := (\<lambda>t. PIdle)(3 := PPushed)\<rparr>"

lemma posted_sample_reachable: "post_reachable 1 posted_sample"
proof -
  have "poster_step 1 post_init posted_sample"
    using poster_step.push [of post_init 3 1 7] by (simp add: post_init_def posted_sample_def)
  then show ?thesis by (rule post_reachable.by_poster [OF post_reachable.init])
qed

theorem posted_exactly_once_witness:
  "pq_ran posted_sample @ (case pq_loop posted_sample of LRunning cbs \<Rightarrow> cbs | _ \<Rightarrow> [])
     @ pq_queue posted_sample = [7]"
  using posted_exactly_once [OF posted_sample_reachable] by (simp add: posted_sample_def)

subsection \<open>No wake-up is lost\<close>

lemma drains:
  "pq_loop s = LDraining \<Longrightarrow> loop_step\<^sup>*\<^sup>* s (s\<lparr>pq_pipe := 0, pq_loop := LDrained\<rparr>)"
proof (induction "pq_pipe s" arbitrary: s rule: less_induct)
  case less
  show ?case
  proof (cases "pq_pipe s = 0")
    case True
    have "loop_step s (s\<lparr>pq_loop := LDrained\<rparr>)" by (rule loop_step.read_none [OF less.prems True])
    moreover have "s\<lparr>pq_pipe := 0, pq_loop := LDrained\<rparr> = s\<lparr>pq_loop := LDrained\<rparr>" using True by simp
    ultimately show ?thesis by auto
  next
    case False
    let ?t = "s\<lparr>pq_pipe := pq_pipe s - min 64 (pq_pipe s)\<rparr>"
    have "loop_step s ?t" by (rule loop_step.read_some) (use less.prems False in auto)
    moreover have "loop_step\<^sup>*\<^sup>* ?t (?t\<lparr>pq_pipe := 0, pq_loop := LDrained\<rparr>)"
      by (rule less.hyps) (use less.prems False in auto)
    ultimately show ?thesis by simp
  qed
qed

lemma runs_all:
  "pq_loop s = LRunning cbs \<Longrightarrow>
   loop_step\<^sup>*\<^sup>* s (s\<lparr>pq_loop := LWaiting, pq_ran := pq_ran s @ cbs\<rparr>)"
proof (induction cbs arbitrary: s)
  case Nil
  then show ?case using loop_step.run_done [of s] by (simp add: r_into_rtranclp)
next
  case (Cons cb cbs)
  let ?t = "s\<lparr>pq_loop := LRunning cbs, pq_ran := pq_ran s @ [cb]\<rparr>"
  have "loop_step s ?t" by (rule loop_step.run_one) (rule Cons.prems)
  moreover have "loop_step\<^sup>*\<^sup>* ?t (?t\<lparr>pq_loop := LWaiting, pq_ran := pq_ran ?t @ cbs\<rparr>)"
    by (rule Cons.IH) simp
  ultimately show ?case by simp
qed

lemma from_drained:
  assumes "pq_loop s = LDrained"
  shows "loop_step\<^sup>*\<^sup>* s (s\<lparr>pq_queue := [], pq_loop := LWaiting, pq_ran := pq_ran s @ pq_queue s\<rparr>)"
proof -
  let ?t = "s\<lparr>pq_loop := LRunning (pq_queue s), pq_queue := []\<rparr>"
  have "loop_step s ?t" by (rule loop_step.swap) (rule assms)
  moreover have "loop_step\<^sup>*\<^sup>* ?t (?t\<lparr>pq_loop := LWaiting, pq_ran := pq_ran ?t @ pq_queue s\<rparr>)"
    by (rule runs_all) simp
  ultimately show ?thesis by simp
qed

lemma from_draining:
  assumes "pq_loop s = LDraining"
  shows "\<exists>s'. loop_step\<^sup>*\<^sup>* s s' \<and> pq_queue s' = [] \<and> pq_ran s' = pq_ran s @ pq_queue s"
proof -
  have "loop_step\<^sup>*\<^sup>* s (s\<lparr>pq_pipe := 0, pq_loop := LDrained\<rparr>)" by (rule drains [OF assms])
  from rtranclp_trans [OF this from_drained] show ?thesis by fastforce
qed

lemma from_waiting:
  assumes "pq_loop s = LWaiting" and "pq_queue s \<noteq> [] \<longrightarrow> 0 < pq_pipe s"
  shows "\<exists>s'. loop_step\<^sup>*\<^sup>* s s' \<and> pq_queue s' = [] \<and> pq_ran s' = pq_ran s @ pq_queue s"
proof (cases "pq_queue s = []")
  case False
  then have "loop_step s (s\<lparr>pq_loop := LDraining\<rparr>)" using assms loop_step.woken by blast
  then show ?thesis using from_draining [of "s\<lparr>pq_loop := LDraining\<rparr>"]
    by (auto intro: converse_rtranclp_into_rtranclp)
qed auto

text \<open>
  C22: no posted callback is forgotten. From any reachable state in which no thread is between its
  append and its wake-up write, the steps of the loop alone lead to a state in which the queue is
  empty and everything posted has run.
\<close>

theorem no_lost_wakeup:
  assumes "post_reachable cap s" and "0 < cap" and "\<And>t. pq_poster s t = PIdle"
  shows "\<exists>s'. loop_step\<^sup>*\<^sup>* s s' \<and> pq_queue s' = [] \<and> pq_ran s' = pq_posted s"
proof -
  have inv: "post_inv s" by (rule post_reachable_inv [OF assms(1,2)])
  show ?thesis
  proof (cases "pq_loop s")
    case LWaiting
    then show ?thesis using from_waiting [of s] inv assms(3) by (auto simp: post_inv_def running_now_def)
  next
    case LDraining
    then show ?thesis using from_draining [of s] inv by (auto simp: post_inv_def running_now_def)
  next
    case LDrained
    then show ?thesis using from_drained [OF LDrained] inv by (auto simp: post_inv_def running_now_def)
  next
    case (LRunning cbs)
    let ?t = "s\<lparr>pq_loop := LWaiting, pq_ran := pq_ran s @ cbs\<rparr>"
    have to: "loop_step\<^sup>*\<^sup>* s ?t" by (rule runs_all [OF LRunning])
    have "\<exists>s'. loop_step\<^sup>*\<^sup>* ?t s' \<and> pq_queue s' = [] \<and> pq_ran s' = pq_ran ?t @ pq_queue ?t"
      by (rule from_waiting) (use inv assms(3) LRunning in \<open>auto simp: post_inv_def\<close>)
    then show ?thesis using rtranclp_trans [OF to] inv LRunning
      by (auto simp: post_inv_def running_now_def)
  qed
qed

definition woken_sample :: "nat post_state" where
  "woken_sample = post_init\<lparr>pq_queue := [7], pq_posted := [7], pq_pipe := 1\<rparr>"

theorem no_lost_wakeup_witness:
  "\<exists>s'. loop_step\<^sup>*\<^sup>* woken_sample s' \<and> pq_queue s' = [] \<and> pq_ran s' = [7]"
proof -
  have "poster_step 1 posted_sample woken_sample"
    using poster_step.wake [of posted_sample 3 1]
    by (simp add: post_init_def posted_sample_def woken_sample_def fun_upd_idem)
  then have "post_reachable 1 woken_sample" using posted_sample_reachable post_reachable.by_poster by blast
  moreover have "pq_poster woken_sample t = PIdle" for t by (simp add: woken_sample_def post_init_def)
  ultimately show ?thesis using no_lost_wakeup [of 1 woken_sample]
    by (simp add: woken_sample_def)
qed

end
