(* ===== verification/Net_Socket.thy ===== *)
theory Net_Socket
  imports Event_Loop "HOL-Library.Multiset"
begin

text \<open>
  \<^verbatim>\<open>Net/Address.cpp\<close> and \<^verbatim>\<open>Net/Socket.cpp\<close> (POSIX branch, \<^verbatim>\<open>SO_NOSIGPIPE\<close> of macOS): addresses, the
  descriptor that a \<open>Socket\<close> owns, and the classification of the errors of its system calls.
  Moving out of a socket leaves \<open>kInvalidFd\<close> behind; an operation on a socket returns the result and
  the state, and the socket where it changes.
\<close>

section \<open>Addresses\<close>

record Address =
  ad_storage :: sockaddr
  ad_len :: nat

definition Address_new :: Address where
  "Address_new = \<lparr>ad_storage = \<lparr>ss_family = AF_UNSPEC, ss_port = 0, ss_host = []\<rparr>, ad_len = 0\<rparr>"

definition Address_family :: "Address \<Rightarrow> int" where
  "Address_family a = ss_family (ad_storage a)"

definition Address_isIpv4 :: "Address \<Rightarrow> bool" where
  "Address_isIpv4 a \<longleftrightarrow> ss_family (ad_storage a) = AF_INET"

definition Address_isIpv6 :: "Address \<Rightarrow> bool" where
  "Address_isIpv6 a \<longleftrightarrow> ss_family (ad_storage a) = AF_INET6"

definition Address_fromSockaddr :: "sockaddr \<Rightarrow> nat \<Rightarrow> Address" where
  "Address_fromSockaddr sa len = \<lparr>ad_storage = sa, ad_len = len\<rparr>"

definition Address_fromHostPort ::
  "os \<Rightarrow> string \<Rightarrow> u16 \<Rightarrow> 'a platform_scheme \<Rightarrow> (Error + Address) \<times> 'a platform_scheme" where
  "Address_fromHostPort os host port s =
     (let portStr = dec (unat port)
      in case os_getaddrinfo os (pf_calls s) host portStr of
           Inl rc \<Rightarrow> (Inl (mkError InternalError (''getaddrinfo failed: '' @ os_gai_strerror os rc)),
                      sys (CResolve host portStr) s)
         | Inr (sa, len) \<Rightarrow> (Inr \<lparr>ad_storage = sa, ad_len = len\<rparr>, sys (CResolve host portStr) s))"

text \<open>The text before the last colon and after it, brackets around an IPv6 host taken off.\<close>

definition split_address :: "string \<Rightarrow> Error + string \<times> string" where
  "split_address hostPort =
     (case str_rfind CHR '':'' hostPort of
        None \<Rightarrow> Inl (mkError InternalError ''Address construction got invalid address format'')
      | Some colonPos \<Rightarrow>
          if hd hostPort = CHR ''['' then
            (case str_find_from CHR '']'' 0 hostPort of
               None \<Rightarrow> Inl (mkError InternalError ''Address construction got invalide IPV6 address format'')
             | Some end \<Rightarrow>
                 if end + 1 \<noteq> colonPos
                 then Inl (mkError InternalError ''Address construction got invalide IPV6 address format'')
                 else Inr (str_sub 1 (end - 1) hostPort, drop (colonPos + 1) hostPort))
          else Inr (str_sub 0 colonPos hostPort, drop (colonPos + 1) hostPort))"

definition Address_fromString ::
  "os \<Rightarrow> string \<Rightarrow> 'a platform_scheme \<Rightarrow> fault + (Error + Address) \<times> 'a platform_scheme" where
  "Address_fromString os hostPort s =
     (case split_address hostPort of
        Inl e \<Rightarrow> Inr (Inl e, s)
      | Inr (host, port) \<Rightarrow>
          rbind (throws (stoull port))
            (\<lambda>n. Inr (Address_fromHostPort os host (ucast n) s)))"

definition Address_toString :: "os \<Rightarrow> Address \<Rightarrow> string" where
  "Address_toString os a =
     (case os_getnameinfo os (ad_storage a) of
        None \<Rightarrow> []
      | Some (host, port) \<Rightarrow>
          if Address_isIpv6 a then ''['' @ host @ '']:'' @ port else host @ '':'' @ port)"

text \<open>\<^verbatim>\<open>ntohs\<close> on a little-endian machine.\<close>

definition ntohs :: "u16 \<Rightarrow> u16" where
  "ntohs w = word_of_nat (unat w mod 256 * 256 + unat w div 256)"

definition Address_port :: "Address \<Rightarrow> u16" where
  "Address_port a =
     (if Address_isIpv6 a then ntohs (ss_port (ad_storage a))
      else if Address_isIpv4 a then ntohs (ss_port (ad_storage a))
      else 0)"

section \<open>Sockets\<close>

definition isWouldBlock :: "errno \<Rightarrow> bool" where
  "isWouldBlock e \<longleftrightarrow> e = EAGAIN \<or> e = EWOULDBLOCK"

definition isInProgress :: "errno \<Rightarrow> bool" where
  "isInProgress e \<longleftrightarrow> e = EINPROGRESS"

definition isFdExhausted :: "errno \<Rightarrow> bool" where
  "isFdExhausted e \<longleftrightarrow> e = EMFILE \<or> e = ENFILE"

record Socket =
  so_fd :: fd

definition Socket_new :: Socket where
  "Socket_new = \<lparr>so_fd = kInvalidFd\<rparr>"

definition Socket_of_fd :: "fd \<Rightarrow> Socket" where
  "Socket_of_fd f = \<lparr>so_fd = f\<rparr>"

definition Socket_valid :: "Socket \<Rightarrow> bool" where
  "Socket_valid k \<longleftrightarrow> so_fd k \<noteq> kInvalidFd"

definition Socket_close :: "Socket \<Rightarrow> 'a platform_scheme \<Rightarrow> Socket \<times> 'a platform_scheme" where
  "Socket_close k s =
     (if Socket_valid k then (k\<lparr>so_fd := kInvalidFd\<rparr>, sys (CClose (so_fd k)) s) else (k, s))"

definition Socket_destroy :: "Socket \<Rightarrow> 'a platform_scheme \<Rightarrow> 'a platform_scheme" where
  "Socket_destroy k s = snd (Socket_close k s)"

definition Socket_swap :: "Socket \<Rightarrow> Socket \<Rightarrow> Socket \<times> Socket" where
  "Socket_swap this other = (this\<lparr>so_fd := so_fd other\<rparr>, other\<lparr>so_fd := so_fd this\<rparr>)"

text \<open>Move construction: the new socket and what is left of the source.\<close>

definition Socket_move :: "Socket \<Rightarrow> Socket \<times> Socket" where
  "Socket_move other = (\<lparr>so_fd = so_fd other\<rparr>, other\<lparr>so_fd := kInvalidFd\<rparr>)"

text \<open>
  Move assignment: a temporary takes the source, swaps with the target and is destroyed, which
  closes what the target held. The result is the target and the source.
\<close>

definition Socket_assign ::
  "Socket \<Rightarrow> Socket \<Rightarrow> 'a platform_scheme \<Rightarrow> (Socket \<times> Socket) \<times> 'a platform_scheme" where
  "Socket_assign this other s =
     (let (tmp, other') = Socket_move other;
          (tmp', this') = Socket_swap tmp this
      in ((this', other'), Socket_destroy tmp' s))"

definition Socket_release :: "Socket \<Rightarrow> fd \<times> Socket" where
  "Socket_release k = (so_fd k, k\<lparr>so_fd := kInvalidFd\<rparr>)"

definition suppressSigpipe :: "fd \<Rightarrow> 'a platform_scheme \<Rightarrow> 'a platform_scheme" where
  "suppressSigpipe f s = sys (CNoSigpipe f) s"

definition Socket_createSocket ::
  "os \<Rightarrow> Address \<Rightarrow> 'a platform_scheme \<Rightarrow> (Error + Socket) \<times> 'a platform_scheme" where
  "Socket_createSocket os addr s =
     (let r = os_socket os (pf_calls s) (Address_family addr); s = sys (CSocket r) s
      in case r of
           Inl e \<Rightarrow> (Inl (mkError InternalError (''socket() failed: '' @ os_strerror os e)), s)
         | Inr f \<Rightarrow> (Inr (Socket_of_fd f), suppressSigpipe f s))"

definition Socket_bindAndListen ::
  "os \<Rightarrow> Address \<Rightarrow> int \<Rightarrow> Socket \<Rightarrow> 'a platform_scheme \<Rightarrow> (Error + unit) \<times> 'a platform_scheme" where
  "Socket_bindAndListen os addr backlog k s =
     (let rb = os_bind os (pf_calls s) (so_fd k) (ad_storage addr); s = sys (CBind (so_fd k)) s
      in case rb of
           Some e \<Rightarrow> (Inl (mkError InternalError (''bind() failed: '' @ os_strerror os e)), s)
         | None \<Rightarrow>
             (let rl = os_listen os (pf_calls s) (so_fd k) backlog; s = sys (CListen (so_fd k)) s
              in case rl of
                   Some e \<Rightarrow> (Inl (mkError InternalError (''listen() failed: '' @ os_strerror os e)), s)
                 | None \<Rightarrow> (Inr (), s)))"

definition Socket_connect ::
  "os \<Rightarrow> Address \<Rightarrow> Socket \<Rightarrow> 'a platform_scheme \<Rightarrow> (Error + bool) \<times> 'a platform_scheme" where
  "Socket_connect os addr k s =
     (let r = os_connect os (pf_calls s) (so_fd k) (ad_storage addr); s = sys (CConnect (so_fd k)) s
      in case r of
           None \<Rightarrow> (Inr True, s)
         | Some e \<Rightarrow>
             if isInProgress e then (Inr False, s)
             else (Inl (mkError ConnectionRefused (''connect() failed: '' @ os_strerror os e)), s))"

definition accept_error :: "os \<Rightarrow> errno \<Rightarrow> Error" where
  "accept_error os e =
     (if isWouldBlock e then mkError WouldBlock ''accept() would block''
      else if isFdExhausted e then mkError FdExhausted (''accept() fd exhausted: '' @ os_strerror os e)
      else mkError InternalError (''accept() failed: '' @ os_strerror os e))"

text \<open>\<^verbatim>\<open>accept(&clientAddr)\<close>, the form its only caller uses.\<close>

definition Socket_accept ::
  "os \<Rightarrow> Socket \<Rightarrow> 'a platform_scheme \<Rightarrow> (Error + Socket \<times> Address) \<times> 'a platform_scheme" where
  "Socket_accept os k s =
     (let r = os_accept os (pf_calls s) (so_fd k);
          s = sys (CAccept (so_fd k) (map_sum id fst r)) s
      in case r of
           Inl e \<Rightarrow> (Inl (accept_error os e), s)
         | Inr (f, sa, len) \<Rightarrow> (Inr (Socket_of_fd f, Address_fromSockaddr sa len), suppressSigpipe f s))"

text \<open>\<open>os_nonblock\<close> is the pair \<^verbatim>\<open>F_GETFL\<close>, \<^verbatim>\<open>F_SETFL\<close>; either failure gives the same error.\<close>

definition Socket_setNonblocking ::
  "os \<Rightarrow> Socket \<Rightarrow> 'a platform_scheme \<Rightarrow> (Error + unit) \<times> 'a platform_scheme" where
  "Socket_setNonblocking os k s =
     (case os_nonblock os (pf_calls s) (so_fd k) of
        Some e \<Rightarrow> (Inl (mkError InternalError (''fcntl(O_NONBLOCK) failed: '' @ os_strerror os e)),
                   sys (CFcntl (so_fd k)) s)
      | None \<Rightarrow> (Inr (), sys (CFcntl (so_fd k)) s))"

definition Socket_setReuseAddr ::
  "os \<Rightarrow> Socket \<Rightarrow> 'a platform_scheme \<Rightarrow> (Error + unit) \<times> 'a platform_scheme" where
  "Socket_setReuseAddr os k s =
     (case os_reuseaddr os (pf_calls s) (so_fd k) of
        Some e \<Rightarrow> (Inl (mkError InternalError (''setsockopt(SO_REUSEADDR) failed: '' @ os_strerror os e)),
                   sys (CReuseAddr (so_fd k)) s)
      | None \<Rightarrow> (Inr (), sys (CReuseAddr (so_fd k)) s))"

text \<open>
  \<^verbatim>\<open>read\<close>: \<open>None\<close> is the result -1 (no data now), \<open>Some []\<close> the end of the stream, \<open>Some bs\<close> the bytes
  received. \<^verbatim>\<open>write\<close>: the number of bytes the kernel took, 0 when the socket is not writable.
\<close>

definition Socket_read ::
  "os \<Rightarrow> Socket \<Rightarrow> nat \<Rightarrow> 'a platform_scheme \<Rightarrow> (Error + byte list option) \<times> 'a platform_scheme" where
  "Socket_read os k len s =
     (let r = os_recv os (pf_calls s) (so_fd k) len; s = sys (CRecv (so_fd k) r) s
      in case r of
           Inl e \<Rightarrow> if isWouldBlock e then (Inr None, s)
                    else (Inl (mkError ReadError (''recv() failed: '' @ os_strerror os e)), s)
         | Inr bs \<Rightarrow> (Inr (Some bs), s))"

definition Socket_write ::
  "os \<Rightarrow> Socket \<Rightarrow> byte list \<Rightarrow> 'a platform_scheme \<Rightarrow> (Error + nat) \<times> 'a platform_scheme" where
  "Socket_write os k data s =
     (case os_send os (pf_calls s) (so_fd k) data of
        Inl e \<Rightarrow> if isWouldBlock e then (Inr 0, sys (CSend (so_fd k) []) s)
                 else (Inl (mkError WriteError (''send() failed: '' @ os_strerror os e)),
                       sys (CSend (so_fd k) []) s)
      | Inr n \<Rightarrow> (Inr n, sys (CSend (so_fd k) (take n data)) s))"

section \<open>Printed addresses read back\<close>

text \<open>
  What \<^verbatim>\<open>getnameinfo\<close> gives with numeric flags: a port of digits, an IPv6 host without a bracket,
  any other host without a bracket or a colon.
\<close>

definition numeric_name :: "bool \<Rightarrow> string \<Rightarrow> string \<Rightarrow> bool" where
  "numeric_name v6 host port \<longleftrightarrow> port \<noteq> [] \<and> list_all is_digit port \<and> CHR '']'' \<notin> set host \<and>
     (\<not> v6 \<longrightarrow> CHR '':'' \<notin> set host \<and> (host = [] \<or> hd host \<noteq> CHR ''[''))"

lemma digits_no_colon: "list_all is_digit ds \<Longrightarrow> CHR '':'' \<notin> set ds"
  by (auto simp: list_all_iff is_digit_def)

lemma split_address_v4:
  assumes "CHR '':'' \<notin> set port" and "host = [] \<or> hd host \<noteq> CHR ''[''"
  shows "split_address (host @ CHR '':'' # port) = Inr (host, port)"
  using assms by (cases host) (simp_all add: split_address_def str_rfind_append str_sub_def
      str_rfind_append [of _ _ "[]", simplified] str_rfind_append [of _ _ "_ # _", simplified])

lemma split_address_v6:
  assumes "CHR '':'' \<notin> set port" and "CHR '']'' \<notin> set host"
  shows "split_address (CHR ''['' # host @ CHR '']'' # CHR '':'' # port) = Inr (host, port)"
proof -
  have "str_rfind CHR '':'' ((CHR ''['' # host @ [CHR '']'']) @ CHR '':'' # port) = Some (length host + 2)"
    using assms(1) by (subst str_rfind_append) simp_all
  moreover have "str_index CHR '']'' ((CHR ''['' # host) @ CHR '']'' # CHR '':'' # port) = Some (length host + 1)"
    using assms(2) by (subst str_index_append) simp_all
  ultimately show ?thesis by (simp add: split_address_def str_find_from_def str_sub_def)
qed

text \<open>
  The text \<^verbatim>\<open>toString()\<close> gives for an address is accepted by \<^verbatim>\<open>fromString\<close>, which resolves the same
  host with the same port number, for IPv4 and bracketed IPv6 addresses.
\<close>

theorem address_text_roundtrip:
  assumes "os_getnameinfo os (ad_storage a) = Some (host, dec p)" and "p < 65536"
    and "numeric_name (Address_isIpv6 a) host (dec p)"
  shows "Address_fromString os (Address_toString os a) s
     = Inr (Address_fromHostPort os host (of_nat p) s)"
proof -
  have nc: "CHR '':'' \<notin> set (dec p)" using dec_digits digits_no_colon by blast
  have "split_address (Address_toString os a) = Inr (host, dec p)"
    using split_address_v4 [OF nc] split_address_v6 [OF nc] assms
    by (auto simp: Address_toString_def numeric_name_def)
  moreover have "stoull (dec p) = Inr (of_nat p)"
    using assms(2) dec_digits [of p] by (simp add: stoull_def parse_int_digits)
  moreover have "(ucast (of_nat p :: u64) :: u16) = of_nat p"
    using assms(2) by (simp add: unsigned_of_nat take_bit_nat_eq_self)
  ultimately show ?thesis by (simp add: Address_fromString_def)
qed

definition quiet_os :: os where
  "quiet_os = \<lparr>os_socket = (\<lambda>_ _. Inr 9), os_bind = (\<lambda>_ _ _. None), os_listen = (\<lambda>_ _ _. None),
     os_connect = (\<lambda>_ _ _. None), os_accept = (\<lambda>_ _. Inl EAGAIN), os_nonblock = (\<lambda>_ _. None),
     os_reuseaddr = (\<lambda>_ _. None), os_recv = (\<lambda>_ _ _. Inl EAGAIN), os_send = (\<lambda>_ _ bs. Inr (length bs)),
     os_strerror = (\<lambda>_. ''error''), os_getaddrinfo = (\<lambda>_ _ _. Inl 8),
     os_gai_strerror = (\<lambda>_. ''no such host''), os_getnameinfo = (\<lambda>_. Some (''::1'', dec 8080))\<rparr>"

theorem address_text_roundtrip_witness:
  "Address_fromString quiet_os (Address_toString quiet_os
       \<lparr>ad_storage = \<lparr>ss_family = AF_INET6, ss_port = 0, ss_host = []\<rparr>, ad_len = 28\<rparr>) \<lparr>pf_calls = []\<rparr>
     = Inr (Address_fromHostPort quiet_os ''::1'' 8080 \<lparr>pf_calls = []\<rparr>)"
proof -
  let ?a = "\<lparr>ad_storage = \<lparr>ss_family = AF_INET6, ss_port = 0, ss_host = []\<rparr>, ad_len = 28\<rparr>"
  have name: "os_getnameinfo quiet_os (ad_storage ?a) = Some (''::1'', dec 8080)"
    by (simp add: quiet_os_def)
  have "numeric_name (Address_isIpv6 ?a) ''::1'' (dec 8080)"
    using dec_digits [of 8080] by (simp add: numeric_name_def Address_isIpv6_def)
  from address_text_roundtrip [OF name _ this] show ?thesis by simp
qed

section \<open>Descriptors are owned once\<close>

text \<open>
  Sockets live in slots; a program moves them between slots, swaps, closes and destroys them.
  \<open>valid_fds\<close> are the descriptors the slots own, \<open>closed_fds\<close> those the history closes.
\<close>

definition valid_fds :: "Socket list \<Rightarrow> fd multiset" where
  "valid_fds ks = mset (filter (\<lambda>f. f \<noteq> kInvalidFd) (map so_fd ks))"

definition closed_fds :: "syscall list \<Rightarrow> fd multiset" where
  "closed_fds cs = mset (concat (map (\<lambda>c. case c of CClose f \<Rightarrow> [f] | _ \<Rightarrow> []) cs))"

datatype socket_op = SkAssign nat nat | SkSwap nat nat | SkClose nat | SkDestroy nat

definition slots :: "nat \<Rightarrow> nat \<Rightarrow> Socket list \<Rightarrow> bool" where
  "slots i j ks \<longleftrightarrow> i < length ks \<and> j < length ks \<and> i \<noteq> j"

text \<open>\<^verbatim>\<open>ks[i] = std::move(ks[j])\<close>, \<^verbatim>\<open>ks[i].swap(ks[j])\<close>, \<^verbatim>\<open>ks[i].close()\<close>, and the end of the lifetime of a slot.\<close>

fun socket_call :: "socket_op \<Rightarrow> Socket list \<times> 'a platform_scheme \<Rightarrow> Socket list \<times> 'a platform_scheme" where
  "socket_call (SkAssign i j) (ks, s) =
     (if slots i j ks then
        (let ((a, b), s') = Socket_assign (ks ! i) (ks ! j) s in (ks[i := a, j := b], s'))
      else (ks, s))"
| "socket_call (SkSwap i j) (ks, s) =
     (if slots i j ks then (let (a, b) = Socket_swap (ks ! i) (ks ! j) in (ks[i := a, j := b], s)) else (ks, s))"
| "socket_call (SkClose i) (ks, s) =
     (if i < length ks then (let (a, s') = Socket_close (ks ! i) s in (ks[i := a], s')) else (ks, s))"
| "socket_call (SkDestroy i) (ks, s) =
     (if i < length ks then (take i ks @ drop (Suc i) ks, Socket_destroy (ks ! i) s) else (ks, s))"

definition fd_mset :: "Socket \<Rightarrow> fd multiset" where
  "fd_mset k = (if so_fd k = kInvalidFd then {#} else {#so_fd k#})"

lemma valid_fds_Nil [simp]: "valid_fds [] = {#}"
  by (simp add: valid_fds_def)

lemma valid_fds_Cons [simp]: "valid_fds (k # ks) = fd_mset k + valid_fds ks"
  by (simp add: valid_fds_def fd_mset_def)

lemma valid_fds_append [simp]: "valid_fds (xs @ ys) = valid_fds xs + valid_fds ys"
  by (simp add: valid_fds_def)

lemma closed_fds_snoc [simp]:
  "closed_fds (cs @ [c]) = closed_fds cs + (case c of CClose f \<Rightarrow> {#f#} | _ \<Rightarrow> {#})"
  by (simp add: closed_fds_def split: syscall.splits)

lemma valid_fds_update:
  "i < length ks \<Longrightarrow> valid_fds (ks[i := k]) + fd_mset (ks ! i) = valid_fds ks + fd_mset k"
  by (induction ks arbitrary: i) (auto simp: nth_Cons' split: nat.splits)

lemma valid_fds_update2:
  assumes "slots i j ks"
  shows "valid_fds (ks[i := a, j := b]) + fd_mset (ks ! i) + fd_mset (ks ! j)
     = valid_fds ks + fd_mset a + fd_mset b"
proof -
  have "valid_fds (ks[i := a, j := b]) + fd_mset (ks ! j) = valid_fds (ks[i := a]) + fd_mset b"
    using valid_fds_update [of j "ks[i := a]" b] assms by (simp add: slots_def)
  moreover have "valid_fds (ks[i := a]) + fd_mset (ks ! i) = valid_fds ks + fd_mset a"
    using valid_fds_update [of i ks a] assms by (simp add: slots_def)
  ultimately show ?thesis by (metis add.assoc add.commute)
qed

lemma Socket_close_fds:
  "closed_fds (pf_calls (snd (Socket_close k s))) + fd_mset (fst (Socket_close k s))
     = closed_fds (pf_calls s) + fd_mset k"
  by (simp add: Socket_close_def Socket_valid_def fd_mset_def)

lemma mset_exchange:
  fixes V V' X X' C C' :: "'b multiset"
  assumes "V' + X = V + X'" and "C' + X' = C + X"
  shows "V' + C' = V + C"
proof -
  have "(V' + C') + (X + X') = (V' + X) + (C' + X')" by (simp add: ac_simps)
  also have "\<dots> = (V + C) + (X + X')" unfolding assms by (simp add: ac_simps)
  finally show ?thesis by simp
qed

lemma socket_call_conserves:
  "valid_fds (fst (socket_call c (ks, s))) + closed_fds (pf_calls (snd (socket_call c (ks, s))))
     = valid_fds ks + closed_fds (pf_calls s)"
proof (cases c)
  case (SkAssign i j)
  have "valid_fds (ks[i := (ks ! i)\<lparr>so_fd := so_fd (ks ! j)\<rparr>, j := (ks ! j)\<lparr>so_fd := kInvalidFd\<rparr>]) + fd_mset (ks ! i)
      = valid_fds ks" if "slots i j ks"
    using valid_fds_update2 [OF that, of "(ks ! i)\<lparr>so_fd := so_fd (ks ! j)\<rparr>" "(ks ! j)\<lparr>so_fd := kInvalidFd\<rparr>"]
    by (simp add: fd_mset_def split: if_splits)
  then show ?thesis
    by (auto simp: SkAssign Socket_assign_def Socket_move_def Socket_swap_def Socket_destroy_def
        Socket_close_def Socket_valid_def fd_mset_def split: if_splits)
next
  case (SkSwap i j)
  then show ?thesis
    using valid_fds_update2 [of i j ks "(ks ! i)\<lparr>so_fd := so_fd (ks ! j)\<rparr>" "(ks ! j)\<lparr>so_fd := so_fd (ks ! i)\<rparr>"]
    by (auto simp: Socket_swap_def fd_mset_def split: if_splits)
next
  case (SkClose i)
  from mset_exchange [OF valid_fds_update Socket_close_fds, of i ks s] show ?thesis
    by (simp add: SkClose case_prod_beta)
next
  case (SkDestroy i)
  have "valid_fds ks = valid_fds (take i ks) + fd_mset (ks ! i) + valid_fds (drop (Suc i) ks)"
    if "i < length ks"
    using valid_fds_append [of "take i ks" "ks ! i # drop (Suc i) ks"] that
    by (simp add: Cons_nth_drop_Suc [symmetric] add.assoc id_take_nth_drop [symmetric])
  then show ?thesis
    by (auto simp: SkDestroy Socket_destroy_def Socket_close_def Socket_valid_def fd_mset_def)
qed

text \<open>
  Moving, swapping, closing and destroying sockets neither leaks a descriptor nor closes one twice:
  the descriptors still owned together with those closed are always the ones there were.
\<close>

theorem socket_fds_conserved:
  "valid_fds (fst (fold socket_call ops (ks, s))) + closed_fds (pf_calls (snd (fold socket_call ops (ks, s))))
     = valid_fds ks + closed_fds (pf_calls s)"
proof (induction ops arbitrary: ks s)
  case (Cons c ops)
  obtain ks' s' where step: "socket_call c (ks, s) = (ks', s')" by fastforce
  show ?case using Cons.IH [of ks' s'] socket_call_conserves [of c ks s] by (simp add: step)
qed simp

section \<open>How system call errors are reported\<close>

text \<open>
  \<^verbatim>\<open>read\<close> and \<^verbatim>\<open>write\<close> turn "would block" into the in-band values (no data, 0 bytes) and every other
  error into an error value; \<^verbatim>\<open>connect\<close> reports "in progress" as \<^verbatim>\<open>false\<close>; \<^verbatim>\<open>accept\<close> tells "would block"
  and "no descriptors left" from the other errors.
\<close>

theorem socket_error_classes:
  "(fst (Socket_read os k n s) = Inr None \<longleftrightarrow>
      (\<exists>e. os_recv os (pf_calls s) (so_fd k) n = Inl e \<and> (e = EAGAIN \<or> e = EWOULDBLOCK))) \<and>
   (fst (Socket_read os k n s) = Inr (Some bs) \<longleftrightarrow> os_recv os (pf_calls s) (so_fd k) n = Inr bs) \<and>
   (fst (Socket_write os k data s) = Inr m \<longleftrightarrow>
      os_send os (pf_calls s) (so_fd k) data = Inr m \<or>
      m = 0 \<and> (\<exists>e. os_send os (pf_calls s) (so_fd k) data = Inl e \<and> (e = EAGAIN \<or> e = EWOULDBLOCK))) \<and>
   (fst (Socket_connect os a k s) = Inr False \<longleftrightarrow>
      os_connect os (pf_calls s) (so_fd k) (ad_storage a) = Some EINPROGRESS) \<and>
   (fst (Socket_connect os a k s) = Inr True \<longleftrightarrow>
      os_connect os (pf_calls s) (so_fd k) (ad_storage a) = None) \<and>
   err_code (accept_error os e) = (if e = EAGAIN \<or> e = EWOULDBLOCK then WouldBlock
      else if e = EMFILE \<or> e = ENFILE then FdExhausted else InternalError)"
  by (auto simp: Socket_read_def Socket_write_def Socket_connect_def accept_error_def Let_def mkError_def
      isWouldBlock_def isInProgress_def isFdExhausted_def split: sum.splits option.splits)

end
