(* ===== verification/Buffer.thy ===== *)
theory Buffer
  imports DS_Prelude
begin

text \<open>
  \<^verbatim>\<open>Core/Buffer.hpp\<close> and \<^verbatim>\<open>Core/Buffer.cpp\<close>: the slice-based byte buffer every other component moves
  data through. A \<open>slice\<close> keeps its whole storage, so the drained, readable and reservable zones
  are the three parts of one list. A \<^verbatim>\<open>size_t\<close> is a \<open>nat\<close>: every size here is the size of memory
  that has been allocated. \<^verbatim>\<open>memcpy\<close> into a reservation is \<open>Slice_store\<close>, which is undefined when
  the bytes do not fit; the two \<^verbatim>\<open>assert\<close>s are faults. The lemmas show that on well-formed buffers no
  operation faults, and that each refines its effect on the plain byte sequence the buffer holds.
\<close>

section \<open>Slices\<close>

record slice =
  sl_storage :: "byte list"
  sl_capacity :: nat
  sl_readPos :: nat
  sl_writePos :: nat

definition kDefaultCapacity :: nat where
  "kDefaultCapacity = 16384"

definition Slice_new :: "nat \<Rightarrow> slice" where
  "Slice_new capacity = \<lparr>sl_storage = replicate capacity 0, sl_capacity = capacity,
     sl_readPos = 0, sl_writePos = 0\<rparr>"

definition Slice_copy :: "byte list \<Rightarrow> slice" where
  "Slice_copy data = \<lparr>sl_storage = data, sl_capacity = length data,
     sl_readPos = 0, sl_writePos = length data\<rparr>"

text \<open>A reservation is the span \<open>(offset, size)\<close> into the storage.\<close>

definition Slice_reservation :: "slice \<Rightarrow> nat \<times> nat" where
  "Slice_reservation s = (sl_writePos s, sl_capacity s - sl_writePos s)"

definition Slice_commit :: "nat \<Rightarrow> slice \<Rightarrow> fault + slice" where
  "Slice_commit n s =
     (if sl_writePos s + n \<le> sl_capacity s then Inr (s\<lparr>sl_writePos := sl_writePos s + n\<rparr>)
      else Inl AssertionFailed)"

definition Slice_length :: "slice \<Rightarrow> nat" where
  "Slice_length s = sl_writePos s - sl_readPos s"

definition Slice_available :: "slice \<Rightarrow> nat" where
  "Slice_available s = sl_capacity s - sl_writePos s"

definition Slice_data :: "slice \<Rightarrow> byte list" where
  "Slice_data s = take (Slice_length s) (drop (sl_readPos s) (sl_storage s))"

definition Slice_drain :: "nat \<Rightarrow> slice \<Rightarrow> fault + slice" where
  "Slice_drain n s =
     (if n \<le> Slice_length s then Inr (s\<lparr>sl_readPos := sl_readPos s + n\<rparr>)
      else Inl AssertionFailed)"

definition Slice_store :: "byte list \<Rightarrow> slice \<Rightarrow> fault + slice" where
  "Slice_store bs s =
     (if length bs \<le> snd (Slice_reservation s)
      then Inr (s\<lparr>sl_storage := take (sl_writePos s) (sl_storage s) @ bs
                    @ drop (sl_writePos s + length bs) (sl_storage s)\<rparr>)
      else Inl UndefinedBehaviour)"

section \<open>Buffers\<close>

record buffer =
  bf_slices :: "slice list"
  bf_totalLength :: nat
  bf_frontSlice :: nat

definition Buffer_new :: buffer where
  "Buffer_new = \<lparr>bf_slices = [], bf_totalLength = 0, bf_frontSlice = 0\<rparr>"

text \<open>The first statement of \<^verbatim>\<open>reserve\<close>, and of each round of \<^verbatim>\<open>add\<close>.\<close>

definition grow_slices :: "nat \<Rightarrow> slice list \<Rightarrow> slice list" where
  "grow_slices hint sls =
     (if sls = [] \<or> Slice_available (last sls) = 0
      then sls @ [Slice_new (max hint kDefaultCapacity)] else sls)"

lemma grow_slices_available: "0 < Slice_available (last (grow_slices h sls))"
  by (auto simp: grow_slices_def Slice_available_def Slice_new_def kDefaultCapacity_def)

function add_loop :: "byte list \<Rightarrow> slice list \<Rightarrow> fault + slice list" where
  "add_loop data sls =
     (if data = [] then Inr sls
      else
        let sls1 = grow_slices (length data) sls;
            n = min (snd (Slice_reservation (last sls1))) (length data)
        in case Slice_store (take n data) (last sls1) of
             Inl e \<Rightarrow> Inl e
           | Inr s1 \<Rightarrow>
               (case Slice_commit n s1 of
                  Inl e \<Rightarrow> Inl e
                | Inr s2 \<Rightarrow> add_loop (drop n data) (butlast sls1 @ [s2])))"
  by pat_completeness auto
termination
  using grow_slices_available
  by (relation "measure (\<lambda>(data, _). length data)")
     (auto simp: Slice_reservation_def Slice_available_def)

definition Buffer_add :: "byte list \<Rightarrow> buffer \<Rightarrow> fault + buffer" where
  "Buffer_add data b =
     rbind (add_loop data (bf_slices b))
       (\<lambda>sls. Inr (b\<lparr>bf_slices := sls, bf_totalLength := bf_totalLength b + length data\<rparr>))"

definition Buffer_add_string :: "string \<Rightarrow> buffer \<Rightarrow> fault + buffer" where
  "Buffer_add_string s b = Buffer_add (bytes_of_string s) b"

definition Buffer_reserve :: "nat \<Rightarrow> buffer \<Rightarrow> (nat \<times> nat) \<times> buffer" where
  "Buffer_reserve hint b =
     (let sls = grow_slices hint (bf_slices b)
      in (Slice_reservation (last sls), b\<lparr>bf_slices := sls\<rparr>))"

text \<open>What a reader such as \<^verbatim>\<open>recv\<close> does with the span that \<^verbatim>\<open>reserve\<close> returned.\<close>

definition Buffer_fill :: "byte list \<Rightarrow> buffer \<Rightarrow> fault + buffer" where
  "Buffer_fill bs b =
     (if bf_slices b = [] then Inl UndefinedBehaviour
      else rbind (Slice_store bs (last (bf_slices b)))
             (\<lambda>s. Inr (b\<lparr>bf_slices := butlast (bf_slices b) @ [s]\<rparr>)))"

definition Buffer_commit :: "nat \<Rightarrow> buffer \<Rightarrow> fault + buffer" where
  "Buffer_commit n b =
     (if bf_slices b = [] then Inl AssertionFailed
      else rbind (Slice_commit n (last (bf_slices b)))
             (\<lambda>s. Inr (b\<lparr>bf_slices := butlast (bf_slices b) @ [s],
                        bf_totalLength := bf_totalLength b + n\<rparr>)))"

definition compactSlices :: "buffer \<Rightarrow> buffer" where
  "compactSlices b = b\<lparr>bf_slices := drop (bf_frontSlice b) (bf_slices b), bf_frontSlice := 0\<rparr>"

function drain_loop :: "nat \<Rightarrow> nat \<Rightarrow> slice list \<Rightarrow> fault + nat \<times> nat \<times> slice list" where
  "drain_loop remaining front sls =
     (if 0 < remaining \<and> front < length sls then
        let toDrain = min remaining (Slice_length (sls ! front))
        in case Slice_drain toDrain (sls ! front) of
             Inl e \<Rightarrow> Inl e
           | Inr s \<Rightarrow>
               drain_loop (remaining - toDrain) (if Slice_length s = 0 then Suc front else front)
                 (sls[front := s])
      else Inr (remaining, front, sls))"
  by pat_completeness auto
termination
  by (relation "measure (\<lambda>(r, f, sls). r + (length sls - f))")
     (auto simp: Slice_drain_def Slice_length_def split: if_splits)

definition Buffer_drain :: "nat \<Rightarrow> buffer \<Rightarrow> fault + buffer" where
  "Buffer_drain n b =
     (case drain_loop n (bf_frontSlice b) (bf_slices b) of
        Inl e \<Rightarrow> Inl e
      | Inr (remaining, front, sls) \<Rightarrow>
          (let b1 = b\<lparr>bf_slices := sls, bf_frontSlice := front,
                      bf_totalLength := bf_totalLength b - (n - remaining)\<rparr>
           in Inr (if front = length sls then b1\<lparr>bf_slices := [], bf_frontSlice := 0\<rparr>
                   else if front * 2 \<ge> length sls then compactSlices b1
                   else b1)))"

definition Buffer_length :: "buffer \<Rightarrow> nat" where
  "Buffer_length b = bf_totalLength b"

definition Buffer_empty :: "buffer \<Rightarrow> bool" where
  "Buffer_empty b \<longleftrightarrow> bf_totalLength b = 0"

definition Buffer_slices :: "buffer \<Rightarrow> slice list" where
  "Buffer_slices b = drop (bf_frontSlice b) (bf_slices b)"

definition Buffer_linearize :: "buffer \<Rightarrow> byte list" where
  "Buffer_linearize b = concat (map Slice_data (drop (bf_frontSlice b) (bf_slices b)))"

definition Buffer_toString :: "buffer \<Rightarrow> string" where
  "Buffer_toString b = string_of_bytes (Buffer_linearize b)"

text \<open>\<^verbatim>\<open>this->move(other)\<close>: the new \<^verbatim>\<open>*this\<close> and the new \<^verbatim>\<open>other\<close> (two different buffers).\<close>

definition Buffer_move :: "buffer \<Rightarrow> buffer \<Rightarrow> buffer \<times> buffer" where
  "Buffer_move b other =
     (let b1 = (if bf_frontSlice b > 0 then compactSlices b else b)
      in (b1\<lparr>bf_slices := bf_slices b1 @ drop (bf_frontSlice other) (bf_slices other),
             bf_totalLength := bf_totalLength b1 + bf_totalLength other\<rparr>,
          other\<lparr>bf_slices := [], bf_frontSlice := 0, bf_totalLength := 0\<rparr>))"

section \<open>Well-formed slices and buffers\<close>

definition slice_wf :: "slice \<Rightarrow> bool" where
  "slice_wf s \<longleftrightarrow> length (sl_storage s) = sl_capacity s \<and>
     sl_readPos s \<le> sl_writePos s \<and> sl_writePos s \<le> sl_capacity s"

definition buffer_wf :: "buffer \<Rightarrow> bool" where
  "buffer_wf b \<longleftrightarrow> list_all slice_wf (bf_slices b) \<and>
     (if bf_slices b = [] then bf_frontSlice b = 0 else bf_frontSlice b < length (bf_slices b)) \<and>
     bf_totalLength b = sum_list (map Slice_length (Buffer_slices b))"

text \<open>No readable slice is empty: the writers of \<^verbatim>\<open>Connection\<close> and \<^verbatim>\<open>TlsConnection\<close> rely on it.\<close>

definition buffer_dense :: "buffer \<Rightarrow> bool" where
  "buffer_dense b \<longleftrightarrow> list_all (\<lambda>s. Slice_length s \<noteq> 0) (Buffer_slices b)"

named_theorems slice_simps \<open>definitions of the slice operations\<close>

declare Slice_reservation_def [slice_simps] Slice_length_def [slice_simps]
  Slice_available_def [slice_simps] slice_wf_def [slice_simps]

declare add_loop.simps [simp del] drain_loop.simps [simp del]

section \<open>Slice lemmas\<close>

lemma length_Slice_data [simp]: "slice_wf s \<Longrightarrow> length (Slice_data s) = Slice_length s"
  by (auto simp: slice_simps Slice_data_def)

lemma Slice_data_Nil_iff: "slice_wf s \<Longrightarrow> Slice_data s = [] \<longleftrightarrow> Slice_length s = 0"
  by (simp flip: length_Slice_data)

lemma Slice_new_wf [simp]: "slice_wf (Slice_new n)"
  and Slice_new_data [simp]: "Slice_data (Slice_new n) = []"
  and Slice_new_available [simp]: "Slice_available (Slice_new n) = n"
  by (simp_all add: slice_simps Slice_new_def Slice_data_def)

lemma Slice_copy_wf: "slice_wf (Slice_copy bs)" and Slice_copy_data: "Slice_data (Slice_copy bs) = bs"
  by (simp_all add: slice_simps Slice_copy_def Slice_data_def)

lemma Slice_store_commit:
  assumes "slice_wf s" and "length bs \<le> Slice_available s"
  obtains s1 s2 where "Slice_store bs s = Inr s1" and "slice_wf s1" and "Slice_data s1 = Slice_data s"
    and "Slice_available s1 = Slice_available s"
    and "Slice_commit (length bs) s1 = Inr s2" and "slice_wf s2"
    and "Slice_data s2 = Slice_data s @ bs"
proof -
  let ?s1 = "s\<lparr>sl_storage := take (sl_writePos s) (sl_storage s) @ bs
                    @ drop (sl_writePos s + length bs) (sl_storage s)\<rparr>"
  let ?s2 = "?s1\<lparr>sl_writePos := sl_writePos s + length bs\<rparr>"
  have pos: "sl_readPos s \<le> sl_writePos s" "sl_writePos s + length bs \<le> length (sl_storage s)"
    "length (sl_storage s) = sl_capacity s"
    using assms by (auto simp: slice_simps)
  show ?thesis
  proof (rule that [of ?s1 ?s2])
    show "Slice_store bs s = Inr ?s1" using assms by (simp add: Slice_store_def slice_simps)
    show "Slice_commit (length bs) ?s1 = Inr ?s2" using pos by (simp add: Slice_commit_def)
    show "slice_wf ?s1" "slice_wf ?s2" using pos by (auto simp: slice_wf_def)
    show "Slice_data ?s1 = Slice_data s" "Slice_available ?s1 = Slice_available s"
      using pos by (simp_all add: Slice_data_def Slice_length_def Slice_available_def drop_take)
    have "sl_writePos s + length bs - sl_readPos s = (sl_writePos s - sl_readPos s) + length bs"
      using pos by simp
    then show "Slice_data ?s2 = Slice_data s @ bs"
      using pos by (simp add: Slice_data_def Slice_length_def drop_take)
  qed
qed

lemma Slice_drain_ok:
  assumes "slice_wf s" and "n \<le> Slice_length s"
  obtains s' where "Slice_drain n s = Inr s'" and "slice_wf s'"
    and "Slice_data s' = drop n (Slice_data s)" and "Slice_length s' = Slice_length s - n"
proof
  let ?s' = "s\<lparr>sl_readPos := sl_readPos s + n\<rparr>"
  show "Slice_drain n s = Inr ?s'" using assms by (simp add: Slice_drain_def)
  show "slice_wf ?s'" and "Slice_length ?s' = Slice_length s - n"
    using assms by (auto simp: slice_simps)
  show "Slice_data ?s' = drop n (Slice_data s)"
    by (simp add: Slice_data_def Slice_length_def drop_take add.commute)
qed

lemma sum_Slice_length:
  "list_all slice_wf sls \<Longrightarrow>
   sum_list (map Slice_length sls) = length (concat (map Slice_data sls))"
  by (induction sls) auto

section \<open>The loop of add\<close>

lemma grow_slices_wf: "list_all slice_wf sls \<Longrightarrow> list_all slice_wf (grow_slices h sls)"
  by (auto simp: grow_slices_def)

lemma grow_slices_nonempty [simp]: "grow_slices h sls \<noteq> []"
  by (auto simp: grow_slices_def)

lemma length_grow_slices: "length sls \<le> length (grow_slices h sls)"
  by (auto simp: grow_slices_def)

lemma grow_slices_bytes:
  "f \<le> length sls \<Longrightarrow>
   concat (map Slice_data (drop f (grow_slices h sls))) = concat (map Slice_data (drop f sls))"
  by (auto simp: grow_slices_def)

lemma grow_slices_butlast_subset:
  "set (drop f (butlast (grow_slices h sls))) \<subseteq> set (drop f sls)"
proof -
  have "set (drop f (butlast sls)) \<subseteq> set (drop f sls)"
    by (cases sls rule: rev_cases) auto
  then show ?thesis by (auto simp: grow_slices_def)
qed

lemma drop_snoc_split:
  assumes "xs \<noteq> []" and "f < length xs"
  shows "drop f xs = drop f (butlast xs) @ [last xs]"
  using assms by (cases xs rule: rev_cases) auto

lemma add_loop_ok:
  assumes "list_all slice_wf sls" and "f \<le> length sls" and "f < length sls \<or> sls = []"
  shows "\<exists>sls'. add_loop data sls = Inr sls' \<and> list_all slice_wf sls' \<and>
           length sls \<le> length sls' \<and>
           concat (map Slice_data (drop f sls')) = concat (map Slice_data (drop f sls)) @ data \<and>
           ([] \<notin> Slice_data ` set (drop f sls) \<longrightarrow> [] \<notin> Slice_data ` set (drop f sls'))"
  using assms
proof (induction data sls rule: add_loop.induct)
  case (1 data sls)
  show ?case
  proof (cases "data = []")
    case True
    with 1 show ?thesis by (simp add: add_loop.simps)
  next
    case False
    let ?g = "grow_slices (length data) sls"
    let ?n = "min (snd (Slice_reservation (last ?g))) (length data)"
    have wf: "list_all slice_wf ?g" using 1 by (simp add: grow_slices_wf)
    then have wfl: "slice_wf (last ?g)" by (simp add: list_all_iff)
    have n: "length (take ?n data) = ?n" "length (take ?n data) \<le> Slice_available (last ?g)"
      by (auto simp: slice_simps)
    obtain s1 s2 where s: "Slice_store (take ?n data) (last ?g) = Inr s1"
        "Slice_commit ?n s1 = Inr s2" "slice_wf s2"
        "Slice_data s2 = Slice_data (last ?g) @ take ?n data"
      using Slice_store_commit [OF wfl n(2)] n(1) by metis
    let ?g' = "butlast ?g @ [s2]"
    have lg: "length ?g' = length ?g" by (simp add: Suc_pred)
    have fg: "f < length ?g" "f \<le> length ?g'"
      using 1 length_grow_slices [of sls "length data"] lg by (auto simp: grow_slices_def)
    have wf': "list_all slice_wf ?g'"
      using wf s(3) by (auto simp: list_all_iff dest: in_set_butlastD)
    obtain sls' where IH: "add_loop (drop ?n data) ?g' = Inr sls'" "list_all slice_wf sls'"
        "length ?g' \<le> length sls'"
        "concat (map Slice_data (drop f sls')) = concat (map Slice_data (drop f ?g')) @ drop ?n data"
        "[] \<notin> Slice_data ` set (drop f ?g') \<longrightarrow> [] \<notin> Slice_data ` set (drop f sls')"
      using "1.IH" [OF False refl refl s(1,2) wf' fg(2)] fg(1) lg by auto
    have "take ?n data \<noteq> []"
      using False grow_slices_available [of "length data" sls] by (simp add: slice_simps)
    then have dense: "[] \<notin> Slice_data ` set (drop f sls) \<Longrightarrow> [] \<notin> Slice_data ` set (drop f ?g')"
      using s(4) fg(1) grow_slices_butlast_subset [of f "length data" sls] by (auto simp: drop_append)
    have "concat (map Slice_data (drop f ?g')) = concat (map Slice_data (drop f ?g)) @ take ?n data"
      using s(4) fg(1) drop_snoc_split [of ?g f] lg by (simp add: drop_append)
    also have "\<dots> = concat (map Slice_data (drop f sls)) @ take ?n data"
      using 1 by (simp add: grow_slices_bytes)
    finally show ?thesis
      using IH dense False s(1,2) lg length_grow_slices [of sls "length data"]
      by (subst add_loop.simps) (auto simp: Let_def)
  qed
qed

section \<open>Buffers refine byte sequences\<close>

lemma linearize_slices: "Buffer_linearize b = concat (map Slice_data (Buffer_slices b))"
  by (simp add: Buffer_linearize_def Buffer_slices_def)

lemma Buffer_slices_wf:
  "list_all slice_wf (bf_slices b) \<Longrightarrow> list_all slice_wf (Buffer_slices b)"
  by (auto simp: Buffer_slices_def list_all_iff dest: in_set_dropD)

lemma buffer_wf_total: "buffer_wf b \<Longrightarrow> bf_totalLength b = length (Buffer_linearize b)"
  by (simp add: buffer_wf_def linearize_slices Buffer_slices_wf sum_Slice_length)

lemma buffer_wfI:
  assumes "list_all slice_wf (bf_slices b)"
    and "bf_slices b = [] \<Longrightarrow> bf_frontSlice b = 0"
    and "bf_slices b \<noteq> [] \<Longrightarrow> bf_frontSlice b < length (bf_slices b)"
    and "bf_totalLength b = length (Buffer_linearize b)"
  shows "buffer_wf b"
  using assms by (simp add: buffer_wf_def linearize_slices Buffer_slices_wf sum_Slice_length)

lemma buffer_dense_iff:
  assumes "buffer_wf b"
  shows "buffer_dense b \<longleftrightarrow> [] \<notin> Slice_data ` set (Buffer_slices b)"
proof -
  have "list_all slice_wf (Buffer_slices b)"
    using assms by (simp add: buffer_wf_def Buffer_slices_wf)
  then have "(Slice_length s = 0) = (Slice_data s = [])" if "s \<in> set (Buffer_slices b)" for s
    using that by (simp add: list_all_iff Slice_data_Nil_iff)
  then show ?thesis by (force simp: buffer_dense_def list_all_iff)
qed

lemma Buffer_new_wf [simp]: "buffer_wf Buffer_new"
  and Buffer_new_dense [simp]: "buffer_dense Buffer_new"
  and Buffer_new_linearize [simp]: "Buffer_linearize Buffer_new = []"
  by (simp_all add: buffer_wf_def buffer_dense_def Buffer_new_def Buffer_linearize_def Buffer_slices_def)

lemma Buffer_empty_iff: "buffer_wf b \<Longrightarrow> Buffer_empty b \<longleftrightarrow> Buffer_linearize b = []"
  by (simp add: Buffer_empty_def buffer_wf_total)

lemma Buffer_add_ok:
  assumes "buffer_wf b"
  obtains b' where "Buffer_add data b = Inr b'" and "buffer_wf b'"
    and "Buffer_linearize b' = Buffer_linearize b @ data"
    and "buffer_dense b \<Longrightarrow> buffer_dense b'"
proof -
  let ?f = "bf_frontSlice b" and ?sls = "bf_slices b"
  have pre: "list_all slice_wf ?sls" "?f \<le> length ?sls" "?f < length ?sls \<or> ?sls = []"
    using assms by (auto simp: buffer_wf_def split: if_splits)
  obtain sls where sls: "add_loop data ?sls = Inr sls" "list_all slice_wf sls"
      "length ?sls \<le> length sls"
      "concat (map Slice_data (drop ?f sls)) = concat (map Slice_data (drop ?f ?sls)) @ data"
      "[] \<notin> Slice_data ` set (drop ?f ?sls) \<longrightarrow> [] \<notin> Slice_data ` set (drop ?f sls)"
    using add_loop_ok [OF pre, of data] by blast
  let ?b' = "b\<lparr>bf_slices := sls, bf_totalLength := bf_totalLength b + length data\<rparr>"
  have lin: "Buffer_linearize ?b' = Buffer_linearize b @ data"
    using sls(4) by (simp add: Buffer_linearize_def)
  have wf': "buffer_wf ?b'"
    using sls(2,3) pre(3) lin buffer_wf_total [OF assms] assms
    by (intro buffer_wfI) (auto simp: buffer_wf_def)
  show ?thesis
  proof
    show "Buffer_add data b = Inr ?b'" using sls(1) by (simp add: Buffer_add_def)
    show "buffer_dense b \<Longrightarrow> buffer_dense ?b'"
      using sls(5) by (simp add: buffer_dense_iff [OF wf'] buffer_dense_iff [OF assms] Buffer_slices_def)
  qed (use lin wf' in auto)
qed

lemma drain_loop_ok:
  assumes "list_all slice_wf sls" and "f \<le> length sls"
  shows "\<exists>r f' sls'. drain_loop n f sls = Inr (r, f', sls') \<and> list_all slice_wf sls' \<and>
           f' \<le> length sls' \<and> r = n - length (concat (map Slice_data (drop f sls))) \<and>
           concat (map Slice_data (drop f' sls')) = drop n (concat (map Slice_data (drop f sls))) \<and>
           ([] \<notin> Slice_data ` set (drop f sls) \<longrightarrow> [] \<notin> Slice_data ` set (drop f' sls'))"
  using assms
proof (induction n f sls rule: drain_loop.induct)
  case (1 n f sls)
  show ?case
  proof (cases "0 < n \<and> f < length sls")
    case False
    with 1 show ?thesis by (auto simp: drain_loop.simps [of n f sls])
  next
    case True
    let ?s = "sls ! f" and ?t = "min n (Slice_length (sls ! f))"
    have wfs: "slice_wf ?s" using 1 True by (simp add: list_all_iff)
    have split: "drop f sls = ?s # drop (Suc f) sls" using True by (simp add: Cons_nth_drop_Suc)
    obtain s' where s': "Slice_drain ?t ?s = Inr s'" "slice_wf s'"
        "Slice_data s' = drop ?t (Slice_data ?s)" "Slice_length s' = Slice_length ?s - ?t"
      using Slice_drain_ok [OF wfs, of ?t] by auto
    let ?f = "if Slice_length s' = 0 then Suc f else f" and ?sls = "sls[f := s']"
    have wf': "list_all slice_wf ?sls" using 1 s'(2)
      by (auto simp: list_all_iff dest: set_update_subset_insert [THEN subsetD])
    have f': "?f \<le> length ?sls" using True by simp
    obtain r f2 sls2 where IH: "drain_loop (n - ?t) ?f ?sls = Inr (r, f2, sls2)"
        "list_all slice_wf sls2" "f2 \<le> length sls2"
        "r = n - ?t - length (concat (map Slice_data (drop ?f ?sls)))"
        "concat (map Slice_data (drop f2 sls2)) = drop (n - ?t) (concat (map Slice_data (drop ?f ?sls)))"
        "[] \<notin> Slice_data ` set (drop ?f ?sls) \<longrightarrow> [] \<notin> Slice_data ` set (drop f2 sls2)"
      using "1.IH" [OF True refl s'(1) wf' f'] by blast
    have len: "length (Slice_data ?s) = Slice_length ?s" using wfs by simp
    have front: "drop ?f ?sls = (if Slice_length s' = 0 then [] else [s']) @ drop (Suc f) sls"
      using True by (simp add: drop_update_swap Cons_nth_drop_Suc [symmetric])
    have dense: "[] \<notin> Slice_data ` set (drop f sls) \<Longrightarrow> [] \<notin> Slice_data ` set (drop ?f ?sls)"
      using split front Slice_data_Nil_iff [OF s'(2)] by (auto simp: eq_commute [of "[]"])
    have bytes: "r = n - length (concat (map Slice_data (drop f sls)))"
        "concat (map Slice_data (drop f2 sls2)) = drop n (concat (map Slice_data (drop f sls)))"
      using IH(4,5) front split s'(3,4) len by (auto simp: min_def split: if_splits)
    show ?thesis
      using IH(1-3,6) dense bytes True s'(1)
      by (subst drain_loop.simps) (auto simp: Let_def)
  qed
qed

lemma Buffer_drain_ok:
  assumes "buffer_wf b"
  obtains b' where "Buffer_drain n b = Inr b'" and "buffer_wf b'"
    and "Buffer_linearize b' = drop n (Buffer_linearize b)"
    and "buffer_dense b \<Longrightarrow> buffer_dense b'"
proof -
  let ?f = "bf_frontSlice b" and ?sls = "bf_slices b"
  have pre: "list_all slice_wf ?sls" "?f \<le> length ?sls"
    using assms by (auto simp: buffer_wf_def split: if_splits)
  obtain r f sls where L: "drain_loop n ?f ?sls = Inr (r, f, sls)" "list_all slice_wf sls"
      "f \<le> length sls" "r = n - length (Buffer_linearize b)"
      "concat (map Slice_data (drop f sls)) = drop n (Buffer_linearize b)"
      "[] \<notin> Slice_data ` set (Buffer_slices b) \<longrightarrow> [] \<notin> Slice_data ` set (drop f sls)"
    using drain_loop_ok [OF pre, of n] by (auto simp: Buffer_linearize_def Buffer_slices_def)
  let ?b1 = "b\<lparr>bf_slices := sls, bf_frontSlice := f, bf_totalLength := bf_totalLength b - (n - r)\<rparr>"
  let ?b' = "if f = length sls then ?b1\<lparr>bf_slices := [], bf_frontSlice := 0\<rparr>
             else if f * 2 \<ge> length sls then compactSlices ?b1 else ?b1"
  have run: "Buffer_drain n b = Inr ?b'" using L(1) by (simp add: Buffer_drain_def Let_def)
  have act: "Buffer_slices ?b' = drop f sls"
    by (simp add: Buffer_slices_def compactSlices_def)
  have lin: "Buffer_linearize ?b' = drop n (Buffer_linearize b)"
    by (simp only: linearize_slices act L(5) [unfolded linearize_slices])
  have tot: "bf_totalLength ?b' = length (Buffer_linearize ?b')"
    using L(4) buffer_wf_total [OF assms] by (auto simp: lin compactSlices_def)
  have wf': "buffer_wf ?b'"
    by (rule buffer_wfI [OF _ _ _ tot])
       (use L(2,3) in \<open>auto simp: compactSlices_def list_all_iff dest: in_set_dropD\<close>)
  show ?thesis
  proof
    show "buffer_dense b \<Longrightarrow> buffer_dense ?b'"
      using L(6) by (simp only: buffer_dense_iff [OF wf'] buffer_dense_iff [OF assms] act) simp
  qed (use run wf' lin in auto)
qed

lemma Buffer_reserve_ok:
  assumes "buffer_wf b"
  obtains off size b1 where "Buffer_reserve h b = ((off, size), b1)" and "0 < size" and "buffer_wf b1"
    and "bf_slices b1 \<noteq> []" and "size = Slice_available (last (bf_slices b1))"
    and "Buffer_linearize b1 = Buffer_linearize b"
proof
  let ?g = "grow_slices h (bf_slices b)"
  let ?b1 = "b\<lparr>bf_slices := ?g\<rparr>"
  have pre: "list_all slice_wf (bf_slices b)" "bf_frontSlice b \<le> length (bf_slices b)"
      "bf_frontSlice b < length (bf_slices b) \<or> bf_slices b = []" "bf_slices b = [] \<Longrightarrow> bf_frontSlice b = 0"
    using assms by (auto simp: buffer_wf_def split: if_splits)
  show lin: "Buffer_linearize ?b1 = Buffer_linearize b"
    using pre(2) by (simp add: Buffer_linearize_def grow_slices_bytes)
  show "buffer_wf ?b1"
    using pre(1,3,4) lin buffer_wf_total [OF assms] length_grow_slices [of "bf_slices b" h]
    by (intro buffer_wfI) (auto simp: grow_slices_wf)
  show "Buffer_reserve h b = ((sl_writePos (last ?g), Slice_available (last ?g)), ?b1)"
    by (simp add: Buffer_reserve_def Slice_reservation_def Slice_available_def Let_def)
qed (simp_all add: grow_slices_available)

lemma buffer_wf_replace_last:
  assumes wf: "buffer_wf b" and ne: "bf_slices b \<noteq> []" and s: "slice_wf s"
    and data: "Slice_data s = Slice_data (last (bf_slices b)) @ bs"
    and tot: "t = bf_totalLength b + length bs"
  shows "buffer_wf (b\<lparr>bf_slices := butlast (bf_slices b) @ [s], bf_totalLength := t\<rparr>)"
    and "Buffer_linearize (b\<lparr>bf_slices := butlast (bf_slices b) @ [s], bf_totalLength := t\<rparr>)
           = Buffer_linearize b @ bs"
proof -
  have f: "bf_frontSlice b < length (bf_slices b)" using wf ne by (simp add: buffer_wf_def)
  show lin: "Buffer_linearize (b\<lparr>bf_slices := butlast (bf_slices b) @ [s], bf_totalLength := t\<rparr>)
           = Buffer_linearize b @ bs"
    using drop_snoc_split [OF ne f] f data by (simp add: Buffer_linearize_def drop_append)
  show "buffer_wf (b\<lparr>bf_slices := butlast (bf_slices b) @ [s], bf_totalLength := t\<rparr>)"
    using lin f s wf tot buffer_wf_total [OF wf]
    by (intro buffer_wfI) (auto simp: buffer_wf_def list_all_iff dest: in_set_butlastD)
qed

lemma Buffer_fill_commit_ok:
  assumes wf: "buffer_wf b" and ne: "bf_slices b \<noteq> []"
    and fits: "length bs \<le> Slice_available (last (bf_slices b))"
  obtains b1 b2 where "Buffer_fill bs b = Inr b1" and "buffer_wf b1"
    and "Buffer_linearize b1 = Buffer_linearize b"
    and "Buffer_commit (length bs) b1 = Inr b2" and "buffer_wf b2"
    and "Buffer_linearize b2 = Buffer_linearize b @ bs"
proof -
  have "slice_wf (last (bf_slices b))" using wf ne by (simp add: buffer_wf_def list_all_iff)
  then obtain s1 s2 where s: "Slice_store bs (last (bf_slices b)) = Inr s1" "slice_wf s1"
      "Slice_data s1 = Slice_data (last (bf_slices b))"
      "Slice_commit (length bs) s1 = Inr s2" "slice_wf s2"
      "Slice_data s2 = Slice_data (last (bf_slices b)) @ bs"
    using fits by (rule Slice_store_commit)
  let ?b1 = "b\<lparr>bf_slices := butlast (bf_slices b) @ [s1], bf_totalLength := bf_totalLength b\<rparr>"
  let ?b2 = "b\<lparr>bf_slices := butlast (bf_slices b) @ [s2],
               bf_totalLength := bf_totalLength b + length bs\<rparr>"
  show ?thesis
  proof
    show "Buffer_fill bs b = Inr ?b1" using ne s(1) by (simp add: Buffer_fill_def)
    show "Buffer_commit (length bs) ?b1 = Inr ?b2" using s(4) by (simp add: Buffer_commit_def)
    show "buffer_wf ?b1" "Buffer_linearize ?b1 = Buffer_linearize b"
      using buffer_wf_replace_last [OF wf ne s(2), of "[]"] s(3) by simp_all
    show "buffer_wf ?b2" "Buffer_linearize ?b2 = Buffer_linearize b @ bs"
      using buffer_wf_replace_last [OF wf ne s(5,6) refl] by simp_all
  qed
qed

lemma compactSlices_ok:
  assumes "buffer_wf b"
  shows "buffer_wf (compactSlices b)" and "Buffer_slices (compactSlices b) = Buffer_slices b"
    and "bf_slices (compactSlices b) = Buffer_slices b" and "bf_frontSlice (compactSlices b) = 0"
    and "bf_totalLength (compactSlices b) = bf_totalLength b"
proof -
  have "list_all slice_wf (Buffer_slices b)" using assms by (simp add: buffer_wf_def Buffer_slices_wf)
  then show "buffer_wf (compactSlices b)"
    using assms by (auto simp: buffer_wf_def compactSlices_def Buffer_slices_def)
qed (simp_all add: compactSlices_def Buffer_slices_def)

lemma Buffer_move_ok:
  assumes b: "buffer_wf b" and other: "buffer_wf other"
  obtains b' where "Buffer_move b other = (b', Buffer_new)" and "buffer_wf b'"
    and "Buffer_linearize b' = Buffer_linearize b @ Buffer_linearize other"
    and "buffer_dense b \<Longrightarrow> buffer_dense other \<Longrightarrow> buffer_dense b'"
proof -
  let ?b1 = "if bf_frontSlice b > 0 then compactSlices b else b"
  let ?b' = "?b1\<lparr>bf_slices := bf_slices ?b1 @ Buffer_slices other,
                 bf_totalLength := bf_totalLength ?b1 + bf_totalLength other\<rparr>"
  have b1: "bf_slices ?b1 = Buffer_slices b" "bf_frontSlice ?b1 = 0"
      "bf_totalLength ?b1 = bf_totalLength b"
    using compactSlices_ok [OF b] by (auto simp: Buffer_slices_def)
  have act: "Buffer_slices ?b' = Buffer_slices b @ Buffer_slices other"
    using b1 by (simp add: Buffer_slices_def [of "_\<lparr>bf_slices := _, bf_totalLength := _\<rparr>"])
  have lin: "Buffer_linearize ?b' = Buffer_linearize b @ Buffer_linearize other"
    by (simp only: linearize_slices act map_append concat_append)
  have wf': "buffer_wf ?b'"
    using b1 lin buffer_wf_total [OF b] buffer_wf_total [OF other] b other
    by (intro buffer_wfI) (simp_all add: buffer_wf_def Buffer_slices_wf)
  show ?thesis
  proof
    show "Buffer_move b other = (?b', Buffer_new)"
      by (simp add: Buffer_move_def Let_def Buffer_slices_def Buffer_new_def)
    show "buffer_dense ?b'" if "buffer_dense b" "buffer_dense other"
      using that by (simp only: buffer_dense_def act list_all_append simp_thms)
  qed (use wf' lin in auto)
qed

section \<open>The interface the writers use\<close>

text \<open>
  Several components append pieces to a byte queue and consume it from the front: the HTTP encoder,
  the flush loops of \<^verbatim>\<open>Connection\<close> and \<^verbatim>\<open>TlsConnection\<close>, the body inspector. What they rely on is this
  contract; \<open>front\<close> is the contiguous run of bytes a single \<^verbatim>\<open>send\<close> is offered.
\<close>

fun add_all :: "(byte list \<Rightarrow> 'q \<Rightarrow> fault + 'q) \<Rightarrow> byte list list \<Rightarrow> 'q \<Rightarrow> fault + 'q" where
  "add_all add [] q = Inr q"
| "add_all add (d # ds) q = rbind (add d q) (add_all add ds)"

lemma add_all_append: "add_all add (ds @ es) q = rbind (add_all add ds q) (add_all add es)"
proof (induction ds arbitrary: q)
  case (Cons d ds)
  then show ?case by (cases "add d q") simp_all
qed simp

lemma add_all_append_fun: "add_all add (ds @ es) = (\<lambda>q. rbind (add_all add ds q) (add_all add es))"
  by (simp add: add_all_append fun_eq_iff)

lemma add_all_single [simp]: "add_all add [d] = add d"
proof
  show "add_all add [d] q = add d q" for q by (cases "add d q") simp_all
qed

locale byte_queue =
  fixes invar :: "'q \<Rightarrow> bool" and content :: "'q \<Rightarrow> byte list"
    and add :: "byte list \<Rightarrow> 'q \<Rightarrow> fault + 'q" and drain :: "nat \<Rightarrow> 'q \<Rightarrow> fault + 'q"
    and front :: "'q \<Rightarrow> byte list"
  assumes add_ok: "invar q \<Longrightarrow> \<exists>q'. add d q = Inr q' \<and> invar q' \<and> content q' = content q @ d"
    and drain_ok: "invar q \<Longrightarrow> \<exists>q'. drain n q = Inr q' \<and> invar q' \<and> content q' = drop n (content q)"
    and front_prefix: "invar q \<Longrightarrow> \<exists>rest. content q = front q @ rest"
    and front_nonempty: "invar q \<Longrightarrow> content q \<noteq> [] \<Longrightarrow> front q \<noteq> []"
begin

lemma add_all_ok:
  "invar q \<Longrightarrow> \<exists>q'. add_all add ds q = Inr q' \<and> invar q' \<and> content q' = content q @ concat ds"
proof (induction ds arbitrary: q)
  case Nil
  then show ?case by simp
next
  case (Cons d ds)
  obtain q1 where q1: "add d q = Inr q1" "invar q1" "content q1 = content q @ d"
    using add_ok [OF Cons.prems] by blast
  then show ?case using Cons.IH [OF q1(2)] by simp
qed

lemma drain_front:
  assumes "invar q" and "n \<le> length (front q)"
  shows "\<exists>q'. drain n q = Inr q' \<and> invar q' \<and> content q = take n (front q) @ content q'"
proof -
  obtain q' where q': "drain n q = Inr q'" "invar q'" "content q' = drop n (content q)"
    using drain_ok [OF assms(1)] by blast
  obtain rest where "content q = front q @ rest" using front_prefix [OF assms(1)] by blast
  then have "content q = take n (front q) @ content q'" using q'(3) assms(2) by simp
  then show ?thesis using q' by blast
qed

lemma drain_front_less:
  assumes "invar q" and "0 < n" and "n \<le> length (front q)"
  shows "\<exists>q'. drain n q = Inr q' \<and> length (content q') < length (content q)"
proof -
  obtain q' where "drain n q = Inr q'" and eq: "content q = take n (front q) @ content q'"
    using drain_front [OF assms(1,3)] by blast
  moreover have "length (content q) = n + length (content q')"
    using assms(3) by (subst eq) simp
  ultimately show ?thesis using assms(2) by auto
qed

end

text \<open>The bytes one \<^verbatim>\<open>send\<close> is offered: \<^verbatim>\<open>slices().front().data()\<close>.\<close>

definition front_data :: "buffer \<Rightarrow> byte list" where
  "front_data b = (case Buffer_slices b of [] \<Rightarrow> [] | s # _ \<Rightarrow> Slice_data s)"

definition write_queue :: "buffer \<Rightarrow> bool" where
  "write_queue b \<longleftrightarrow> buffer_wf b \<and> buffer_dense b"

interpretation wq: byte_queue write_queue Buffer_linearize Buffer_add Buffer_drain front_data
proof unfold_locales
  fix q :: buffer and d :: "byte list" and n
  assume q: "write_queue q"
  then have wf: "buffer_wf q" and dense: "buffer_dense q" by (auto simp: write_queue_def)
  show "\<exists>q'. Buffer_add d q = Inr q' \<and> write_queue q' \<and> Buffer_linearize q' = Buffer_linearize q @ d"
    using Buffer_add_ok [OF wf, of d] dense by (metis write_queue_def)
  show "\<exists>q'. Buffer_drain n q = Inr q' \<and> write_queue q' \<and> Buffer_linearize q' = drop n (Buffer_linearize q)"
    using Buffer_drain_ok [OF wf, of n] dense by (metis write_queue_def)
  show "\<exists>rest. Buffer_linearize q = front_data q @ rest"
    by (simp add: linearize_slices front_data_def split: list.split)
  assume "Buffer_linearize q \<noteq> []"
  then show "front_data q \<noteq> []"
    using dense buffer_dense_iff [OF wf]
    by (auto simp: linearize_slices front_data_def eq_commute [of "[]"] split: list.split)
qed

text \<open>
  The same contract without the density requirement: what the codec and the inspector need, which
  only append, drain and read everything back.
\<close>

interpretation bq: byte_queue buffer_wf Buffer_linearize Buffer_add Buffer_drain Buffer_linearize
proof unfold_locales
  fix q :: buffer and d :: "byte list" and n
  assume wf: "buffer_wf q"
  show "\<exists>q'. Buffer_add d q = Inr q' \<and> buffer_wf q' \<and> Buffer_linearize q' = Buffer_linearize q @ d"
    using Buffer_add_ok [OF wf, of d] by metis
  show "\<exists>q'. Buffer_drain n q = Inr q' \<and> buffer_wf q' \<and> Buffer_linearize q' = drop n (Buffer_linearize q)"
    using Buffer_drain_ok [OF wf, of n] by metis
qed auto

lemma Buffer_new_write_queue [simp]: "write_queue Buffer_new"
  by (simp add: write_queue_def)

section \<open>Properties\<close>

datatype buffer_op = OpAdd "byte list" | OpAddString string | OpDrain nat | OpMoveIn buffer

fun Buffer_step :: "buffer_op \<Rightarrow> buffer \<Rightarrow> fault + buffer" where
  "Buffer_step (OpAdd d) b = Buffer_add d b"
| "Buffer_step (OpAddString s) b = Buffer_add_string s b"
| "Buffer_step (OpDrain n) b = Buffer_drain n b"
| "Buffer_step (OpMoveIn other) b = Inr (fst (Buffer_move b other))"

fun Buffer_run :: "buffer_op list \<Rightarrow> buffer \<Rightarrow> fault + buffer" where
  "Buffer_run [] b = Inr b"
| "Buffer_run (x # xs) b = rbind (Buffer_step x b) (Buffer_run xs)"

text \<open>The specification: the same operations on a plain byte sequence.\<close>

fun bytes_step :: "buffer_op \<Rightarrow> byte list \<Rightarrow> byte list" where
  "bytes_step (OpAdd d) c = c @ d"
| "bytes_step (OpAddString s) c = c @ bytes_of_string s"
| "bytes_step (OpDrain n) c = drop n c"
| "bytes_step (OpMoveIn other) c = c @ Buffer_linearize other"

fun op_wf :: "buffer_op \<Rightarrow> bool" where
  "op_wf (OpMoveIn other) = buffer_wf other"
| "op_wf _ = True"

lemma Buffer_step_refines:
  assumes "buffer_wf b" and "op_wf x"
  shows "\<exists>b'. Buffer_step x b = Inr b' \<and> buffer_wf b' \<and>
           Buffer_linearize b' = bytes_step x (Buffer_linearize b)"
proof (cases x)
  case (OpAdd d)
  then show ?thesis using bq.add_ok [OF assms(1), of d] by simp
next
  case (OpAddString s)
  then show ?thesis using bq.add_ok [OF assms(1), of "bytes_of_string s"]
    by (simp add: Buffer_add_string_def)
next
  case (OpDrain n)
  then show ?thesis using bq.drain_ok [OF assms(1), of n] by simp
next
  case (OpMoveIn other)
  with assms have "buffer_wf other" by simp
  from assms(1) this obtain b' where "Buffer_move b other = (b', Buffer_new)" "buffer_wf b'"
      "Buffer_linearize b' = Buffer_linearize b @ Buffer_linearize other"
    by (rule Buffer_move_ok)
  then show ?thesis using OpMoveIn by simp
qed

text \<open>
  C15: whatever sequence of \<open>add\<close>, \<open>drain\<close> and \<open>move\<close> calls is made on a well-formed buffer, no call
  trips an assertion or leaves its storage, the result is well formed, and the bytes it holds are
  those that the same operations leave in a plain byte sequence; \<open>length()\<close> and \<open>empty()\<close> report them.
\<close>

theorem Buffer_run_refines:
  assumes "buffer_wf b" and "list_all op_wf ops"
  shows "\<exists>b'. Buffer_run ops b = Inr b' \<and> buffer_wf b' \<and>
           Buffer_linearize b' = fold bytes_step ops (Buffer_linearize b) \<and>
           Buffer_length b' = length (Buffer_linearize b') \<and>
           Buffer_empty b' = (Buffer_linearize b' = [])"
  using assms
proof (induction ops arbitrary: b)
  case Nil
  then show ?case by (simp add: Buffer_length_def buffer_wf_total Buffer_empty_iff)
next
  case (Cons x ops)
  obtain b1 where b1: "Buffer_step x b = Inr b1" "buffer_wf b1"
      "Buffer_linearize b1 = bytes_step x (Buffer_linearize b)"
    using Buffer_step_refines Cons.prems by auto
  then show ?case using Cons.IH [OF b1(2)] Cons.prems by simp
qed

theorem Buffer_run_refines_witness:
  "\<exists>b'. Buffer_run [OpAdd [1, 2, 3], OpMoveIn Buffer_new, OpDrain 2] Buffer_new = Inr b' \<and>
     Buffer_linearize b' = [3]"
proof -
  have "list_all op_wf [OpAdd [1, 2, 3], OpMoveIn Buffer_new, OpDrain 2]" by simp
  from Buffer_run_refines [OF Buffer_new_wf this] show ?thesis by auto
qed

text \<open>
  The zero-copy read path. \<open>reserve\<close> gives a non-empty span and changes no readable byte; filling
  at most that span and committing what was written appends exactly those bytes, without a fault.
\<close>

theorem Buffer_reserve_commit:
  assumes "buffer_wf b" and "Buffer_reserve h b = ((off, sz), b1)" and "length bs \<le> sz"
  shows "0 < sz \<and> Buffer_linearize b1 = Buffer_linearize b \<and>
    (\<exists>b2. rbind (Buffer_fill bs b1) (Buffer_commit (length bs)) = Inr b2 \<and> buffer_wf b2 \<and>
       Buffer_linearize b2 = Buffer_linearize b @ bs)"
proof -
  from assms(1) have r: "0 < sz" "buffer_wf b1" "bf_slices b1 \<noteq> []"
      "sz = Slice_available (last (bf_slices b1))" "Buffer_linearize b1 = Buffer_linearize b"
    using assms(2) by (auto elim: Buffer_reserve_ok [of b h])
  obtain b2 b3 where "Buffer_fill bs b1 = Inr b2" "Buffer_commit (length bs) b2 = Inr b3"
      "buffer_wf b3" "Buffer_linearize b3 = Buffer_linearize b1 @ bs"
    using Buffer_fill_commit_ok [OF r(2,3)] assms(3) r(4) by blast
  then show ?thesis using r by auto
qed

theorem Buffer_reserve_commit_witness:
  "\<exists>off sz b1 b2. Buffer_reserve 1 Buffer_new = ((off, sz), b1) \<and>
     rbind (Buffer_fill [7] b1) (Buffer_commit 1) = Inr b2 \<and> Buffer_linearize b2 = [7]"
proof -
  obtain off sz b1 where r: "Buffer_reserve 1 Buffer_new = ((off, sz), b1)" "0 < sz"
    by (rule Buffer_reserve_ok [OF Buffer_new_wf])
  then have "length [7 :: byte] \<le> sz" by simp
  from Buffer_reserve_commit [OF Buffer_new_wf r(1) this] show ?thesis using r by auto
qed

text \<open>
  Draining never removes an empty front slice when nothing is asked for: \<open>drain(0)\<close>, which
  \<open>Connection::handleWrite\<close> calls to step over an empty front slice, leaves the readable slices of a
  well-formed buffer as they are. Only density keeps the flush loop from stopping there.
\<close>

theorem Buffer_drain_zero:
  assumes "buffer_wf b"
  shows "\<exists>b'. Buffer_drain 0 b = Inr b' \<and> Buffer_slices b' = Buffer_slices b \<and>
           Buffer_length b' = Buffer_length b"
  using assms
  by (auto simp: Buffer_drain_def drain_loop.simps [of 0] Buffer_slices_def compactSlices_def
      Let_def Buffer_length_def buffer_wf_def split: if_splits)

theorem Buffer_drain_zero_witness:
  "\<exists>b'. Buffer_drain 0 \<lparr>bf_slices = [Slice_new 1, Slice_copy [5]], bf_totalLength = 1, bf_frontSlice = 0\<rparr>
       = Inr b' \<and> front_data b' = [] \<and> Buffer_length b' = 1"
proof -
  let ?b = "\<lparr>bf_slices = [Slice_new 1, Slice_copy [5]], bf_totalLength = 1, bf_frontSlice = 0\<rparr>"
  have "buffer_wf ?b"
    by (simp add: buffer_wf_def slice_wf_def Buffer_slices_def Slice_length_def Slice_new_def Slice_copy_def)
  from Buffer_drain_zero [OF this] show ?thesis
    by (auto simp: front_data_def Buffer_slices_def Buffer_length_def)
qed

section \<open>Progress of the flush loops\<close>

text \<open>
  The loops of \<^verbatim>\<open>Connection::handleWrite\<close> and \<^verbatim>\<open>TlsConnection::doWrite\<close> drain at least one byte of a
  non-empty front slice per round: the readable bytes are their termination measure, on any buffer.
\<close>

definition readable_bytes :: "buffer \<Rightarrow> nat" where
  "readable_bytes b = sum_list (map Slice_length (Buffer_slices b))"

lemma drain_loop_sum:
  "drain_loop n f sls = Inr (r, f', sls') \<Longrightarrow>
   r \<le> n \<and> sum_list (map Slice_length (drop f' sls')) + (n - r) = sum_list (map Slice_length (drop f sls))"
proof (induction n f sls rule: drain_loop.induct)
  case (1 n f sls)
  show ?case
  proof (cases "0 < n \<and> f < length sls")
    case False
    then show ?thesis using "1.prems" by (auto simp: drain_loop.simps [of n f sls])
  next
    case True
    let ?d = "min n (Slice_length (sls ! f))"
    let ?s = "(sls ! f)\<lparr>sl_readPos := sl_readPos (sls ! f) + ?d\<rparr>"
    let ?f = "if Slice_length ?s = 0 then Suc f else f"
    have sd: "Slice_drain ?d (sls ! f) = Inr ?s" by (simp add: Slice_drain_def)
    have len: "Slice_length ?s + ?d = Slice_length (sls ! f)" by (auto simp: Slice_length_def)
    have "drain_loop (n - ?d) ?f (sls[f := ?s]) = Inr (r, f', sls')"
      using "1.prems" True sd by (simp add: drain_loop.simps [of n f sls] Let_def)
    then have IH: "r \<le> n - ?d"
        "sum_list (map Slice_length (drop f' sls')) + (n - ?d - r) = sum_list (map Slice_length (drop ?f (sls[f := ?s])))"
      using "1.IH" [OF True refl sd] by auto
    define t where "t = ?s"
    have split: "drop f sls = sls ! f # drop (Suc f) sls" "drop f (sls[f := t]) = t # drop (Suc f) sls"
      "drop (Suc f) (sls[f := t]) = drop (Suc f) sls"
      using True by (simp_all add: Cons_nth_drop_Suc [symmetric])
    have "sum_list (map Slice_length (drop ?f (sls[f := ?s]))) + ?d = sum_list (map Slice_length (drop f sls))"
      unfolding t_def [symmetric] using len [folded t_def] by (auto simp: split)
    then show ?thesis using IH by linarith
  qed
qed

lemma drain_loop_consumes:
  assumes "drain_loop n f sls = Inr (r, f', sls')" and "0 < n" and "f < length sls" and "0 < Slice_length (sls ! f)"
  shows "r < n"
proof -
  let ?d = "min n (Slice_length (sls ! f))"
  have "Slice_drain ?d (sls ! f) = Inr ((sls ! f)\<lparr>sl_readPos := sl_readPos (sls ! f) + ?d\<rparr>)"
    by (simp add: Slice_drain_def)
  then have "\<exists>g xs. drain_loop (n - ?d) g xs = Inr (r, f', sls')"
    using assms by (auto simp: drain_loop.simps [of n f sls] Let_def)
  then have "r \<le> n - ?d" using drain_loop_sum by blast
  then show ?thesis using assms by auto
qed

lemma Buffer_drain_progress:
  assumes "Buffer_drain n b = Inr b'" and "0 < n" and "front_data b \<noteq> []"
  shows "readable_bytes b' < readable_bytes b"
proof -
  obtain r f sls where loop: "drain_loop n (bf_frontSlice b) (bf_slices b) = Inr (r, f, sls)"
    and b': "b' = (let b1 = b\<lparr>bf_slices := sls, bf_frontSlice := f,
                      bf_totalLength := bf_totalLength b - (n - r)\<rparr>
           in if f = length sls then b1\<lparr>bf_slices := [], bf_frontSlice := 0\<rparr>
              else if f * 2 \<ge> length sls then compactSlices b1 else b1)"
    using assms(1) by (auto simp: Buffer_drain_def Let_def split: sum.splits)
  have front: "bf_frontSlice b < length (bf_slices b)" "0 < Slice_length (bf_slices b ! bf_frontSlice b)"
  proof -
    obtain s rest where sl: "Buffer_slices b = s # rest" "Slice_data s \<noteq> []"
      using assms(3) by (auto simp: front_data_def split: list.splits)
    then show lt: "bf_frontSlice b < length (bf_slices b)" 
      by (metis Buffer_slices_def drop_all leI list.distinct(1))
    have "s = bf_slices b ! bf_frontSlice b" using sl(1) lt
      by (simp add: Buffer_slices_def Cons_nth_drop_Suc [symmetric])
    then show "0 < Slice_length (bf_slices b ! bf_frontSlice b)" using sl(2) by (auto simp: Slice_data_def)
  qed
  have "readable_bytes b' = sum_list (map Slice_length (drop f sls))"
    by (auto simp: b' readable_bytes_def Buffer_slices_def Let_def compactSlices_def)
  then show ?thesis
    using drain_loop_sum [OF loop] drain_loop_consumes [OF loop assms(2) front]
    by (simp add: readable_bytes_def Buffer_slices_def)
qed

end
