(* ===== verification/Net_Connection.thy ===== *)
theory Net_Connection
  imports Net_Socket Buffer "HOL-Library.Sublist"
begin

text \<open>
  \<^verbatim>\<open>Net/Connection.hpp\<close> and \<^verbatim>\<open>Net/Connection.cpp\<close>: a TCP connection on the event loop. Connections live in
  a heap (\<open>nw_conns\<close>, addressed by numbers) inside the state, because the loop and the session share
  them; using one that is no longer there is undefined behaviour. The callbacks of a connection are
  values of a type \<open>'u\<close> whose meaning is an argument of the operations that run them. The
  closure a connection hands to \<^verbatim>\<open>watch\<close> is \<open>IoConnection c\<close>. Log output is not modelled.
\<close>

section \<open>State\<close>

datatype 'u net_cb = IoConnection nat | IoTls nat | IoListener | TmResume | App 'u

record 'u Connection =
  co_socket :: Socket
  co_closed :: bool
  co_reading :: bool
  co_writeBuf :: buffer
  co_onData :: "'u option"
  co_onClose :: "'u option"
  co_onError :: "'u option"

text \<open>The \<^verbatim>\<open>Listener\<close> of the server; its accept callback is an argument of the operations that call it.\<close>

record Listener =
  li_bindAddr :: Address
  li_socket :: Socket
  li_hasAccept :: bool
  li_resumeTimer :: "TimerHandle option"

record 'u net = "'u net_cb KqueueLoop" +
  nw_conns :: "nat \<rightharpoonup> 'u Connection"
  nw_nextConn :: nat
  nw_listener :: Listener

definition with_conn ::
  "nat \<Rightarrow> ('u, 'a) net_scheme \<Rightarrow> ('u Connection \<Rightarrow> fault + 'b) \<Rightarrow> fault + 'b" where
  "with_conn c s f = (case nw_conns s c of None \<Rightarrow> Inl UndefinedBehaviour | Some x \<Rightarrow> f x)"

lemma with_conn_Inr [res_iff]: "with_conn c s f = Inr r \<longleftrightarrow> (\<exists>x. nw_conns s c = Some x \<and> f x = Inr r)"
  by (simp add: with_conn_def split: option.splits)

definition put_conn :: "nat \<Rightarrow> 'u Connection \<Rightarrow> ('u, 'a) net_scheme \<Rightarrow> ('u, 'a) net_scheme" where
  "put_conn c x s = s\<lparr>nw_conns := (nw_conns s)(c \<mapsto> x)\<rparr>"

section \<open>Operations\<close>

definition Connection_new :: "Socket \<Rightarrow> ('u, 'a) net_scheme \<Rightarrow> nat \<times> ('u, 'a) net_scheme" where
  "Connection_new k s =
     (let c = nw_nextConn s
      in (c, put_conn c \<lparr>co_socket = k, co_closed = False, co_reading = False, co_writeBuf = Buffer_new,
                         co_onData = None, co_onClose = None, co_onError = None\<rparr>
               (s\<lparr>nw_nextConn := Suc c\<rparr>)))"

definition Connection_onData :: "'u \<Rightarrow> nat \<Rightarrow> ('u, 'a) net_scheme \<Rightarrow> fault + ('u, 'a) net_scheme" where
  "Connection_onData cb c s = with_conn c s (\<lambda>x. Inr (put_conn c (x\<lparr>co_onData := Some cb\<rparr>) s))"

definition Connection_onClose :: "'u \<Rightarrow> nat \<Rightarrow> ('u, 'a) net_scheme \<Rightarrow> fault + ('u, 'a) net_scheme" where
  "Connection_onClose cb c s = with_conn c s (\<lambda>x. Inr (put_conn c (x\<lparr>co_onClose := Some cb\<rparr>) s))"

definition Connection_onError :: "'u \<Rightarrow> nat \<Rightarrow> ('u, 'a) net_scheme \<Rightarrow> fault + ('u, 'a) net_scheme" where
  "Connection_onError cb c s = with_conn c s (\<lambda>x. Inr (put_conn c (x\<lparr>co_onError := Some cb\<rparr>) s))"

definition Connection_close :: "nat \<Rightarrow> ('u, 'a) net_scheme \<Rightarrow> fault + ('u, 'a) net_scheme" where
  "Connection_close c s =
     with_conn c s (\<lambda>x.
       if co_closed x then Inr s
       else
         (let s1 = KqueueLoop_remove (so_fd (co_socket x)) s;
              (k, s2) = Socket_close (co_socket x) s1
          in Inr (put_conn c (x\<lparr>co_socket := k, co_closed := True\<rparr>) s2)))"

text \<open>The destructor: \<^verbatim>\<open>close()\<close>, then the members are destroyed.\<close>

definition Connection_destroy :: "nat \<Rightarrow> ('u, 'a) net_scheme \<Rightarrow> fault + ('u, 'a) net_scheme" where
  "Connection_destroy c s =
     rbind (Connection_close c s)
       (\<lambda>s. with_conn c s (\<lambda>x. Inr ((Socket_destroy (co_socket x) s)\<lparr>nw_conns := (nw_conns s)(c := None)\<rparr>)))"

definition wanted_events :: "'u Connection \<Rightarrow> u32" where
  "wanted_events x = (if co_reading x then Readable else 0)
     OR (if Buffer_empty (co_writeBuf x) then 0 else Writable)"

definition Connection_updateEvents :: "nat \<Rightarrow> ('u, 'a) net_scheme \<Rightarrow> fault + ('u, 'a) net_scheme" where
  "Connection_updateEvents c s =
     with_conn c s (\<lambda>x.
       if co_closed x then Inr s
       else
         (let events = wanted_events x
          in if events = 0 then Inr (KqueueLoop_remove (so_fd (co_socket x)) s)
             else Inr (KqueueLoop_watch (so_fd (co_socket x)) events (IoConnection c) s)))"

definition Connection_startRead :: "nat \<Rightarrow> ('u, 'a) net_scheme \<Rightarrow> fault + ('u, 'a) net_scheme" where
  "Connection_startRead c s =
     with_conn c s (\<lambda>x.
       if co_closed x then Inr s
       else Connection_updateEvents c (put_conn c (x\<lparr>co_reading := True\<rparr>) s))"

definition Connection_stopRead :: "nat \<Rightarrow> ('u, 'a) net_scheme \<Rightarrow> fault + ('u, 'a) net_scheme" where
  "Connection_stopRead c s =
     with_conn c s (\<lambda>x.
       if co_closed x then Inr s
       else Connection_updateEvents c (put_conn c (x\<lparr>co_reading := False\<rparr>) s))"

definition Connection_shutdownWrite :: "nat \<Rightarrow> ('u, 'a) net_scheme \<Rightarrow> fault + ('u, 'a) net_scheme" where
  "Connection_shutdownWrite c s =
     with_conn c s (\<lambda>x. if co_closed x then Inr s else Inr (sys (CShutdown (so_fd (co_socket x))) s))"

definition Connection_connected :: "nat \<Rightarrow> ('u, 'a) net_scheme \<Rightarrow> fault + bool" where
  "Connection_connected c s = with_conn c s (\<lambda>x. Inr (\<not> co_closed x))"

definition Connection_releaseSocket ::
  "nat \<Rightarrow> ('u, 'a) net_scheme \<Rightarrow> fault + Socket \<times> ('u, 'a) net_scheme" where
  "Connection_releaseSocket c s =
     with_conn c s (\<lambda>x.
       let s1 = KqueueLoop_remove (so_fd (co_socket x)) s;
           (k, rest) = Socket_move (co_socket x)
       in Inr (k, put_conn c (x\<lparr>co_socket := rest, co_closed := True\<rparr>) s1))"

text \<open>
  The loop of \<^verbatim>\<open>handleWrite\<close>: offers the front slice to the socket and drains what the kernel took,
  until the buffer is empty, the kernel takes nothing, or the write fails.
\<close>

function Connection_flush ::
  "os \<Rightarrow> Socket \<Rightarrow> buffer \<Rightarrow> 's platform_scheme \<Rightarrow> fault + Error option \<times> buffer \<times> 's platform_scheme" where
  "Connection_flush os k buf s =
     (if Buffer_empty buf \<or> Buffer_slices buf = [] then Inr (None, buf, s)
      else if front_data buf = [] then rbind (Buffer_drain 0 buf) (\<lambda>buf. Inr (None, buf, s))
      else
        (case Socket_write os k (front_data buf) s of
           (Inl e, s1) \<Rightarrow> Inr (Some e, buf, s1)
         | (Inr n, s1) \<Rightarrow>
             if n = 0 then Inr (None, buf, s1)
             else rbind (Buffer_drain n buf) (\<lambda>buf1. Connection_flush os k buf1 s1)))"
  by pat_completeness auto
termination
  by (relation "measure (\<lambda>(os, k, buf, s). readable_bytes buf)") (auto intro: Buffer_drain_progress)

declare Connection_flush.simps [simp del]

fun run_opt :: "('u \<Rightarrow> 's \<Rightarrow> fault + 's) \<Rightarrow> 'u option \<Rightarrow> 's \<Rightarrow> fault + 's" where
  "run_opt f None s = Inr s"
| "run_opt f (Some cb) s = f cb s"

definition Connection_handleWrite ::
  "os \<Rightarrow> ('u \<Rightarrow> Error \<Rightarrow> ('u, 'a) net_scheme \<Rightarrow> fault + ('u, 'a) net_scheme)
     \<Rightarrow> nat \<Rightarrow> ('u, 'a) net_scheme \<Rightarrow> fault + ('u, 'a) net_scheme" where
  "Connection_handleWrite os onErr c s =
     with_conn c s (\<lambda>x.
       if co_closed x then Inr s
       else
         rbind (Connection_flush os (co_socket x) (co_writeBuf x) s)
           (\<lambda>(r, buf, s).
              let s1 = put_conn c (x\<lparr>co_writeBuf := buf\<rparr>) s
              in case r of
                   Some e \<Rightarrow> rbind (run_opt (\<lambda>cb. onErr cb e) (co_onError x) s1) (Connection_close c)
                 | None \<Rightarrow> Connection_updateEvents c s1))"

definition write_flush ::
  "os \<Rightarrow> ('u \<Rightarrow> Error \<Rightarrow> ('u, 'a) net_scheme \<Rightarrow> fault + ('u, 'a) net_scheme)
     \<Rightarrow> nat \<Rightarrow> ('u, 'a) net_scheme \<Rightarrow> fault + ('u, 'a) net_scheme" where
  "write_flush os onErr c s =
     rbind (Connection_updateEvents c s)
       (\<lambda>s. with_conn c s (\<lambda>x.
          if Buffer_empty (co_writeBuf x) then Inr s else Connection_handleWrite os onErr c s))"

text \<open>\<^verbatim>\<open>write(Buffer&)\<close>: the buffer that is left to the caller, and the state.\<close>

definition Connection_write ::
  "os \<Rightarrow> ('u \<Rightarrow> Error \<Rightarrow> ('u, 'a) net_scheme \<Rightarrow> fault + ('u, 'a) net_scheme)
     \<Rightarrow> buffer \<Rightarrow> nat \<Rightarrow> ('u, 'a) net_scheme \<Rightarrow> fault + buffer \<times> ('u, 'a) net_scheme" where
  "Connection_write os onErr data c s =
     with_conn c s (\<lambda>x.
       if co_closed x then Inr (data, s)
       else
         (let (wb, data') = Buffer_move (co_writeBuf x) data
          in rbind (write_flush os onErr c (put_conn c (x\<lparr>co_writeBuf := wb\<rparr>) s)) (\<lambda>s. Inr (data', s))))"

definition Connection_write_string ::
  "os \<Rightarrow> ('u \<Rightarrow> Error \<Rightarrow> ('u, 'a) net_scheme \<Rightarrow> fault + ('u, 'a) net_scheme)
     \<Rightarrow> string \<Rightarrow> nat \<Rightarrow> ('u, 'a) net_scheme \<Rightarrow> fault + ('u, 'a) net_scheme" where
  "Connection_write_string os onErr data c s =
     with_conn c s (\<lambda>x.
       if co_closed x then Inr s
       else rbind (Buffer_add_string data (co_writeBuf x))
              (\<lambda>wb. write_flush os onErr c (put_conn c (x\<lparr>co_writeBuf := wb\<rparr>) s)))"

definition Connection_handleRead ::
  "os \<Rightarrow> ('u \<Rightarrow> buffer \<Rightarrow> ('u, 'a) net_scheme \<Rightarrow> fault + ('u, 'a) net_scheme)
     \<Rightarrow> ('u \<Rightarrow> ('u, 'a) net_scheme \<Rightarrow> fault + ('u, 'a) net_scheme)
     \<Rightarrow> ('u \<Rightarrow> Error \<Rightarrow> ('u, 'a) net_scheme \<Rightarrow> fault + ('u, 'a) net_scheme)
     \<Rightarrow> nat \<Rightarrow> ('u, 'a) net_scheme \<Rightarrow> fault + ('u, 'a) net_scheme" where
  "Connection_handleRead os onData onClose onErr c s =
     with_conn c s (\<lambda>x.
       if co_closed x then Inr s
       else
         (let (span, buf) = Buffer_reserve kDefaultCapacity Buffer_new
          in case Socket_read os (co_socket x) (snd span) s of
               (Inl e, s1) \<Rightarrow> rbind (run_opt (\<lambda>cb. onErr cb e) (co_onError x) s1) (Connection_close c)
             | (Inr None, s1) \<Rightarrow> Inr s1
             | (Inr (Some bs), s1) \<Rightarrow>
                 if bs = [] then rbind (Connection_close c s1) (run_opt onClose (co_onClose x))
                 else rbind (Buffer_fill bs buf)
                        (\<lambda>buf. rbind (Buffer_commit (length bs) buf)
                           (\<lambda>buf. run_opt (\<lambda>cb. onData cb buf) (co_onData x) s1))))"

text \<open>The closure that \<^verbatim>\<open>updateEvents\<close> registers.\<close>

definition Connection_io ::
  "os \<Rightarrow> ('u \<Rightarrow> buffer \<Rightarrow> ('u, 'a) net_scheme \<Rightarrow> fault + ('u, 'a) net_scheme)
     \<Rightarrow> ('u \<Rightarrow> ('u, 'a) net_scheme \<Rightarrow> fault + ('u, 'a) net_scheme)
     \<Rightarrow> ('u \<Rightarrow> Error \<Rightarrow> ('u, 'a) net_scheme \<Rightarrow> fault + ('u, 'a) net_scheme)
     \<Rightarrow> nat \<Rightarrow> u32 \<Rightarrow> ('u, 'a) net_scheme \<Rightarrow> fault + ('u, 'a) net_scheme" where
  "Connection_io os onData onClose onErr c fired s =
     rbind (if has_event fired Readable then Connection_handleRead os onData onClose onErr c s else Inr s)
       (\<lambda>s. if has_event fired Writable then Connection_handleWrite os onErr c s else Inr s)"

section \<open>The flush loop\<close>

text \<open>\<^verbatim>\<open>send(2)\<close> never reports more bytes than it was given.\<close>

definition send_ok :: "os \<Rightarrow> bool" where
  "send_ok os \<longleftrightarrow> (\<forall>h f d n. os_send os h f d = Inr n \<longrightarrow> n \<le> length d)"

lemma Socket_write_log:
  assumes "send_ok os"
  shows "\<exists>d. snd (Socket_write os k data s) = sys (CSend (so_fd k) d) s \<and>
    (case fst (Socket_write os k data s) of
       Inl e \<Rightarrow> d = [] | Inr n \<Rightarrow> n \<le> length data \<and> d = take n data)"
  using assms by (auto simp: Socket_write_def send_ok_def isWouldBlock_def split: sum.splits)

lemma Connection_flush_ok:
  assumes "write_queue buf" and "send_ok os"
  shows "\<exists>r buf' ds. Connection_flush os k buf s
       = Inr (r, buf', s\<lparr>pf_calls := pf_calls s @ map (CSend (so_fd k)) ds\<rparr>) \<and>
     write_queue buf' \<and> Buffer_linearize buf = concat ds @ Buffer_linearize buf'"
  using assms
proof (induction os k buf s rule: Connection_flush.induct)
  case (1 os k buf s)
  note simps = Connection_flush.simps [of os k buf s]
  have wf: "buffer_wf buf" using "1.prems" by (simp add: write_queue_def)
  show ?case
  proof (cases "Buffer_empty buf \<or> Buffer_slices buf = [] \<or> front_data buf = []")
    case True
    have "Buffer_linearize buf = []"
    proof (rule ccontr)
      assume ne: "Buffer_linearize buf \<noteq> []"
      then have "front_data buf \<noteq> []" using wq.front_nonempty "1.prems"(1) by blast
      then show False using True ne wf by (auto simp: Buffer_empty_iff front_data_def)
    qed
    then have "Buffer_empty buf" using wf by (simp add: Buffer_empty_iff)
    then show ?thesis using "1.prems" by (auto simp: simps intro!: exI [of _ "[]"])
  next
    case False
    obtain res s1 where w: "Socket_write os k (front_data buf) s = (res, s1)" by fastforce
    obtain d where d: "s1 = sys (CSend (so_fd k) d) s"
        "case res of Inl e \<Rightarrow> d = [] | Inr n \<Rightarrow> n \<le> length (front_data buf) \<and> d = take n (front_data buf)"
      using Socket_write_log [OF "1.prems"(2), of k "front_data buf" s] w by auto
    show ?thesis
    proof (cases res)
      case (Inl e)
      then show ?thesis using False w d "1.prems"
        by (auto simp: simps sys_def intro!: exI [of _ "[[]]"])
    next
      case (Inr n)
      show ?thesis
      proof (cases "n = 0")
        case True
        then show ?thesis using False w d Inr "1.prems"
          by (auto simp: simps sys_def intro!: exI [of _ "[[]]"])
      next
        case nz: False
        have n: "n \<le> length (front_data buf)" using d(2) Inr by simp
        obtain b1 where b1: "Buffer_drain n buf = Inr b1" "write_queue b1"
            "Buffer_linearize buf = take n (front_data buf) @ Buffer_linearize b1"
          using wq.drain_front [OF "1.prems"(1) n] by blast
        obtain r b2 ds where IH: "Connection_flush os k b1 s1
              = Inr (r, b2, s1\<lparr>pf_calls := pf_calls s1 @ map (CSend (so_fd k)) ds\<rparr>)"
            "write_queue b2" "Buffer_linearize b1 = concat ds @ Buffer_linearize b2"
          using "1.IH" [OF _ _ w [symmetric] Inr nz b1(1) b1(2) "1.prems"(2)] False by auto
        then show ?thesis using False w Inr nz b1 d
          by (auto simp: simps sys_def intro!: exI [of _ "take n (front_data buf) # ds"])
      qed
    qed
  qed
qed
section \<open>What reaches the wire\<close>

definition sent_on :: "fd \<Rightarrow> syscall list \<Rightarrow> byte list" where
  "sent_on f cs = concat (map (\<lambda>c. case c of CSend g d \<Rightarrow> if g = f then d else [] | _ \<Rightarrow> []) cs)"

lemma sent_on_append [simp]: "sent_on f (cs @ ds) = sent_on f cs @ sent_on f ds"
  by (simp add: sent_on_def)

lemma sent_on_sends [simp]: "sent_on f (map (CSend f) ds) = concat ds"
  by (induction ds) (simp_all add: sent_on_def)

lemma sent_on_kevent [simp]: "sent_on f [CKevent cs] = []" "sent_on f [CClose g] = []"
  by (simp_all add: sent_on_def)

lemma sent_on_remove [simp]: "sent_on f (pf_calls (KqueueLoop_remove g s)) = sent_on f (pf_calls s)"
  by (simp add: KqueueLoop_remove_def split: option.splits)

lemma sent_on_watch [simp]: "sent_on f (pf_calls (KqueueLoop_watch g ev cb s)) = sent_on f (pf_calls s)"
  by (simp add: KqueueLoop_watch_def Let_def)

lemma loop_keeps_conns [simp]:
  "nw_conns (KqueueLoop_remove g s) = nw_conns s" "nw_conns (KqueueLoop_watch g ev cb s) = nw_conns s"
  "nw_conns (sys k s) = nw_conns s"
  by (auto simp: KqueueLoop_remove_def KqueueLoop_watch_def sys_def Let_def split: option.splits)

lemma put_conn_fields [simp]:
  "nw_conns (put_conn c x s) = (nw_conns s)(c \<mapsto> x)"
  "pf_calls (put_conn c x s) = pf_calls s"
  "el_fdEntries (put_conn c x s) = el_fdEntries s"
  by (simp_all add: put_conn_def)

section \<open>Connections as byte streams\<close>

text \<open>How the loop watches an open connection: for reading when it reads, for writing while bytes wait.\<close>

definition registered :: "nat \<Rightarrow> 'u Connection \<Rightarrow> (fd \<rightharpoonup> 'u net_cb FdEntry) \<Rightarrow> bool" where
  "registered c x m \<longleftrightarrow> m (so_fd (co_socket x))
     = (if wanted_events x = 0 then None
        else Some \<lparr>fe_events = wanted_events x, fe_callback = IoConnection c\<rparr>)"

text \<open>
  The kernel has taken a prefix of the bytes \<open>B\<close> on descriptor \<open>f\<close>; and connection \<open>c\<close> is closed, or it is
  open on \<open>f\<close> and the bytes still buffered are the rest of \<open>B\<close>.
\<close>

definition streams :: "nat \<Rightarrow> fd \<Rightarrow> byte list \<Rightarrow> ('u, 'a) net_scheme \<Rightarrow> bool" where
  "streams c f B s \<longleftrightarrow> (\<exists>x. nw_conns s c = Some x \<and> prefix (sent_on f (pf_calls s)) B \<and>
     (co_closed x \<or> so_fd (co_socket x) = f \<and> write_queue (co_writeBuf x) \<and>
        sent_on f (pf_calls s) @ Buffer_linearize (co_writeBuf x) = B))"

lemma streams_openI:
  assumes "nw_conns s c = Some x" and "so_fd (co_socket x) = f" and "write_queue (co_writeBuf x)"
    and "sent_on f (pf_calls s) @ Buffer_linearize (co_writeBuf x) = B"
  shows "streams c f B s"
  using assms prefixI [OF assms(4) [symmetric]] by (simp add: streams_def)

definition watched :: "nat \<Rightarrow> ('u, 'a) net_scheme \<Rightarrow> bool" where
  "watched c s \<longleftrightarrow> (\<forall>x. nw_conns s c = Some x \<longrightarrow> co_closed x \<or> registered c x (el_fdEntries s))"

text \<open>A step on connection \<open>c\<close> with descriptor \<open>f\<close> leaves the other streams as they are, or closes them.\<close>

definition others_stream :: "nat \<Rightarrow> fd \<Rightarrow> ('u, 'a) net_scheme \<Rightarrow> ('u, 'a) net_scheme \<Rightarrow> bool" where
  "others_stream c f s s' \<longleftrightarrow> (\<forall>c' f' B. c' \<noteq> c \<longrightarrow> f' \<noteq> f \<longrightarrow> streams c' f' B s \<longrightarrow> streams c' f' B s')"

lemma others_refl [simp]: "others_stream c f s s"
  by (simp add: others_stream_def)

lemma others_trans: "others_stream c f s s1 \<Longrightarrow> others_stream c f s1 s2 \<Longrightarrow> others_stream c f s s2"
  by (simp add: others_stream_def)

lemma sent_on_other [simp]: "g \<noteq> f \<Longrightarrow> sent_on f (map (CSend g) ds) = []"
  by (induction ds) (simp_all add: sent_on_def)

lemma others_put [simp]:
  "others_stream c f s (put_conn c x s1) = others_stream c f s s1"
  "others_stream c f (put_conn c x s) s1 = others_stream c f s s1"
  by (auto simp: others_stream_def streams_def)

lemma others_loop [simp]:
  "others_stream c f s (KqueueLoop_remove g s1) = others_stream c f s s1"
  "others_stream c f s (KqueueLoop_watch g ev cb s1) = others_stream c f s s1"
  by (simp_all add: others_stream_def streams_def)

lemma others_sends [simp]:
  "others_stream c f s (s1\<lparr>pf_calls := pf_calls s1 @ map (CSend f) ds\<rparr>) = others_stream c f s s1"
  by (auto simp: others_stream_def streams_def)

lemma updateEvents_others: "Connection_updateEvents c s = Inr s' \<Longrightarrow> others_stream c f s s'"
  by (auto simp: Connection_updateEvents_def with_conn_def Let_def split: option.splits if_splits)

lemma streams_sys:
  "sent_on f [k] = [] \<Longrightarrow> streams c f B (sys k s) = streams c f B s"
  by (simp add: streams_def)

lemma streams_loop [simp]:
  "streams c f B (KqueueLoop_remove g s) = streams c f B s"
  "streams c f B (KqueueLoop_watch g ev cb s) = streams c f B s"
  by (simp_all add: streams_def)

lemma Connection_close_streams:
  assumes "Connection_close c s = Inr s'" and "streams c' f B s"
  shows "streams c' f B s'"
  using assms
  by (auto simp: Connection_close_def with_conn_def Socket_close_def Let_def streams_def split: option.splits if_splits)

lemma Connection_close_ok:
  assumes "nw_conns s c = Some x"
  shows "\<exists>s' x'. Connection_close c s = Inr s' \<and> nw_conns s' c = Some x' \<and> co_closed x'"
  using assms by (auto simp: Connection_close_def with_conn_def Socket_close_def Let_def)

lemma updateEvents_ok:
  assumes "streams c f B s"
  shows "\<exists>s'. Connection_updateEvents c s = Inr s' \<and> nw_conns s' = nw_conns s \<and> streams c f B s' \<and> watched c s'"
  using assms
  by (auto simp: Connection_updateEvents_def with_conn_def streams_def watched_def registered_def Let_def)

lemma move_write_queue:
  assumes "write_queue b" and "write_queue d"
  shows "\<exists>b'. Buffer_move b d = (b', Buffer_new) \<and> write_queue b' \<and>
     Buffer_linearize b' = Buffer_linearize b @ Buffer_linearize d"
  using Buffer_move_ok [of b d] assms by (metis write_queue_def)

lemma streams_put:
  assumes "nw_conns s c = Some x" and "\<not> co_closed x" and "streams c f B s" and "write_queue wb"
    and "Buffer_linearize wb = Buffer_linearize (co_writeBuf x) @ d"
  shows "streams c f (B @ d) (put_conn c (x\<lparr>co_writeBuf := wb\<rparr>) s)"
  using assms by (auto simp: streams_def)

lemma streams_reading:
  "nw_conns s c = Some x \<Longrightarrow> streams c f B s \<Longrightarrow> streams c f B (put_conn c (x\<lparr>co_reading := b\<rparr>) s)"
  by (auto simp: streams_def)

subsection \<open>Sequences of calls\<close>

datatype conn_op = WriteString string | WriteBuffer buffer | WritableEvent | StartRead | StopRead

fun conn_call ::
  "os \<Rightarrow> ('u \<Rightarrow> Error \<Rightarrow> ('u, 'a) net_scheme \<Rightarrow> fault + ('u, 'a) net_scheme)
     \<Rightarrow> nat \<Rightarrow> conn_op \<Rightarrow> ('u, 'a) net_scheme \<Rightarrow> fault + ('u, 'a) net_scheme" where
  "conn_call os onErr c (WriteString d) s = Connection_write_string os onErr d c s"
| "conn_call os onErr c (WriteBuffer b) s = rbind (Connection_write os onErr b c s) (\<lambda>(b, s). Inr s)"
| "conn_call os onErr c WritableEvent s = Connection_handleWrite os onErr c s"
| "conn_call os onErr c StartRead s = Connection_startRead c s"
| "conn_call os onErr c StopRead s = Connection_stopRead c s"

fun conn_calls ::
  "os \<Rightarrow> ('u \<Rightarrow> Error \<Rightarrow> ('u, 'a) net_scheme \<Rightarrow> fault + ('u, 'a) net_scheme)
     \<Rightarrow> nat \<Rightarrow> conn_op list \<Rightarrow> ('u, 'a) net_scheme \<Rightarrow> fault + ('u, 'a) net_scheme" where
  "conn_calls os onErr c [] s = Inr s"
| "conn_calls os onErr c (op # ops) s = rbind (conn_call os onErr c op s) (conn_calls os onErr c ops)"

fun op_bytes :: "conn_op \<Rightarrow> byte list" where
  "op_bytes (WriteString d) = bytes_of_string d"
| "op_bytes (WriteBuffer b) = Buffer_linearize b"
| "op_bytes _ = []"

fun conn_op_ok :: "conn_op \<Rightarrow> bool" where
  "conn_op_ok (WriteBuffer b) = write_queue b"
| "conn_op_ok _ = True"

subsection \<open>What connections ask of their owner\<close>

definition same_callbacks :: "'u Connection \<Rightarrow> 'u Connection \<Rightarrow> bool" where
  "same_callbacks x y \<longleftrightarrow> co_onData x = co_onData y \<and> co_onClose x = co_onClose y \<and> co_onError x = co_onError y"

lemma same_callbacks_simps [simp]:
  "same_callbacks x x" "same_callbacks (x\<lparr>co_writeBuf := b\<rparr>) y = same_callbacks x y"
  "same_callbacks (x\<lparr>co_reading := r\<rparr>) y = same_callbacks x y"
  "same_callbacks (x\<lparr>co_closed := r\<rparr>) y = same_callbacks x y"
  "same_callbacks (x\<lparr>co_socket := k\<rparr>) y = same_callbacks x y"
  by (simp_all add: same_callbacks_def)

text \<open>
  An invariant of the owner that the connections' own steps keep: calls, registrations, and changes
  of a connection other than of its callbacks.
\<close>

locale conn_invariant =
  fixes inv :: "('u, 'a) net_scheme \<Rightarrow> bool"
  assumes inv_sys: "inv s \<Longrightarrow> inv (sys k s)"
    and inv_put: "inv s \<Longrightarrow> nw_conns s c = Some y \<Longrightarrow> same_callbacks x y \<Longrightarrow> inv (put_conn c x s)"
    and inv_remove: "inv s \<Longrightarrow> inv (KqueueLoop_remove f s)"
    and inv_watch: "inv s \<Longrightarrow> inv (KqueueLoop_watch f ev cb s)"
begin

lemma inv_calls: "inv s \<Longrightarrow> inv (s\<lparr>pf_calls := pf_calls s @ cs\<rparr>)"
proof (induction cs arbitrary: s)
  case (Cons c cs)
  show ?case using Cons.IH [OF inv_sys [OF Cons.prems, of c]] by (simp add: sys_def)
qed simp

lemma updateEvents_inv: "inv s \<Longrightarrow> Connection_updateEvents c s = Inr s' \<Longrightarrow> inv s'"
  by (auto simp: Connection_updateEvents_def with_conn_def Let_def inv_remove inv_watch
      split: option.splits if_splits)

lemma close_inv:
  assumes "inv s" and "Connection_close c s = Inr s'"
  shows "inv s'"
proof -
  obtain x where x: "nw_conns s c = Some x" using assms(2)
    by (auto simp: Connection_close_def with_conn_def split: option.splits)
  let ?r = "KqueueLoop_remove (so_fd (co_socket x)) s"
  have "inv (put_conn c (x\<lparr>co_socket := k, co_closed := True\<rparr>) ?r)"
    "inv (put_conn c (x\<lparr>co_socket := k, co_closed := True\<rparr>) (sys g ?r))"
    "inv (put_conn c (x\<lparr>co_closed := True\<rparr>) ?r)" for k g
    by (rule inv_put [of _ _ x]; simp add: x inv_sys inv_remove assms(1))+
  then show ?thesis using assms x
    by (auto simp: Connection_close_def with_conn_def Socket_close_def Let_def split: if_splits)
qed

end

text \<open>
  An owner whose error callback, run for a connection it is installed in, returns, keeps the
  invariant and does not destroy the connection.
\<close>

locale error_handler = conn_invariant inv
  for inv :: "('u, 'a) net_scheme \<Rightarrow> bool" +
  fixes onErr :: "'u \<Rightarrow> Error \<Rightarrow> ('u, 'a) net_scheme \<Rightarrow> fault + ('u, 'a) net_scheme"
  assumes err_total: "inv s \<Longrightarrow> nw_conns s c = Some x \<Longrightarrow> co_onError x = Some cb \<Longrightarrow>
    \<exists>s'. onErr cb e s = Inr s' \<and> inv s' \<and> nw_conns s' c \<noteq> None"
    and err_streams: "onErr cb e s = Inr s' \<Longrightarrow> streams c f B s \<Longrightarrow> streams c f B s'"
begin

lemma error_then_close:
  assumes "inv s" and "nw_conns s c = Some x" and st: "streams c f B s"
  shows "\<exists>s'. rbind (run_opt (\<lambda>cb. onErr cb e) (co_onError x) s) (Connection_close c) = Inr s' \<and>
     inv s' \<and> streams c f B s' \<and> watched c s' \<and> others_stream c f s s'"
proof -
  have "\<exists>s1. run_opt (\<lambda>cb. onErr cb e) (co_onError x) s = Inr s1 \<and> inv s1 \<and> nw_conns s1 c \<noteq> None"
    using err_total [OF assms(1,2)] assms(1,2) by (cases "co_onError x") auto
  then obtain s1 y where s1: "run_opt (\<lambda>cb. onErr cb e) (co_onError x) s = Inr s1" "inv s1" "nw_conns s1 c = Some y"
    by blast
  obtain s2 z where s2: "Connection_close c s1 = Inr s2" "nw_conns s2 c = Some z" "co_closed z"
    using Connection_close_ok [OF s1(3)] by blast
  have "streams c' g D s2" if "streams c' g D s" for c' g D
  proof -
    have "streams c' g D s1" using that s1(1) err_streams by (cases "co_onError x") auto
    then show ?thesis by (rule Connection_close_streams [OF s2(1)])
  qed
  then have "streams c f B s2" "others_stream c f s s2" using st by (simp_all add: others_stream_def)
  then show ?thesis using s1(1) s2 close_inv [OF s1(2) s2(1)] by (simp add: watched_def)
qed

lemma handleWrite_ok:
  assumes "inv s" and "streams c f B s" and "send_ok os"
  shows "\<exists>s'. Connection_handleWrite os onErr c s = Inr s' \<and> inv s' \<and> streams c f B s' \<and>
     (watched c s \<longrightarrow> watched c s') \<and> others_stream c f s s'"
proof -
  obtain x where x: "nw_conns s c = Some x" using assms(2) by (auto simp: streams_def)
  show ?thesis
  proof (cases "co_closed x")
    case True
    then show ?thesis using x assms by (simp add: Connection_handleWrite_def with_conn_def)
  next
    case False
    then have st: "so_fd (co_socket x) = f" "write_queue (co_writeBuf x)"
        "sent_on f (pf_calls s) @ Buffer_linearize (co_writeBuf x) = B"
      using assms(2) x by (auto simp: streams_def)
    obtain r buf ds where fl: "Connection_flush os (co_socket x) (co_writeBuf x) s
          = Inr (r, buf, s\<lparr>pf_calls := pf_calls s @ map (CSend f) ds\<rparr>)"
        "write_queue buf" "Buffer_linearize (co_writeBuf x) = concat ds @ Buffer_linearize buf"
      using Connection_flush_ok [OF st(2) assms(3), of "co_socket x" s] st(1) by auto
    let ?x = "x\<lparr>co_writeBuf := buf\<rparr>"
    let ?s1 = "put_conn c ?x (s\<lparr>pf_calls := pf_calls s @ map (CSend f) ds\<rparr>)"
    have str: "streams c f B ?s1" by (rule streams_openI [where x = ?x]) (use fl st in simp_all)
    have inv1: "inv ?s1" by (rule inv_put [of _ _ x]) (simp_all add: x inv_calls assms(1))
    have "nw_conns ?s1 c = Some ?x" by simp
    note err = error_then_close [OF inv1 this str]
    have hw: "Connection_handleWrite os onErr c s = (case r of
         Some e \<Rightarrow> rbind (run_opt (\<lambda>cb. onErr cb e) (co_onError x) ?s1) (Connection_close c)
       | None \<Rightarrow> Connection_updateEvents c ?s1)"
      using x False fl(1) by (simp add: Connection_handleWrite_def with_conn_def Let_def)
    have oth: "others_stream c f s ?s1" by simp
    show ?thesis
    proof (cases r)
      case None
      obtain s2 where "Connection_updateEvents c ?s1 = Inr s2" "streams c f B s2" "watched c s2" "inv s2"
        using updateEvents_ok [OF str] updateEvents_inv [OF inv1] by blast
      then show ?thesis using None hw others_trans [OF oth updateEvents_others] by simp
    next
      case (Some e)
      obtain s2 where "rbind (run_opt (\<lambda>cb. onErr cb e) (co_onError x) ?s1) (Connection_close c) = Inr s2"
          "inv s2" "streams c f B s2" "watched c s2" "others_stream c f ?s1 s2"
        using err [of e] by auto
      then show ?thesis using Some hw others_trans [OF oth] by auto
    qed
  qed
qed

lemma write_flush_ok:
  assumes "inv s" and "streams c f B s" and "send_ok os"
  shows "\<exists>s'. write_flush os onErr c s = Inr s' \<and> inv s' \<and> streams c f B s' \<and> watched c s' \<and> others_stream c f s s'"
proof -
  obtain s1 where s1: "Connection_updateEvents c s = Inr s1" "streams c f B s1" "watched c s1" "inv s1"
    using updateEvents_ok [OF assms(2)] updateEvents_inv [OF assms(1)] by blast
  have o1: "others_stream c f s s1" by (rule updateEvents_others [OF s1(1)])
  obtain x where "nw_conns s1 c = Some x" using s1(2) by (auto simp: streams_def)
  then show ?thesis using handleWrite_ok [OF s1(4,2) assms(3)] s1 o1 others_trans [OF o1]
    by (auto simp: write_flush_def with_conn_def)
qed

lemma closed_call:
  assumes "nw_conns s c = Some x" and "co_closed x"
  shows "conn_call os onErr c op s = Inr s"
  using assms by (cases op) (simp_all add: with_conn_def Connection_write_string_def Connection_write_def
      Connection_handleWrite_def Connection_startRead_def Connection_stopRead_def)

lemma conn_call_ok:
  assumes "inv s" and "streams c f B s" and "send_ok os" and "conn_op_ok op"
  shows "\<exists>s'. conn_call os onErr c op s = Inr s' \<and> inv s' \<and> streams c f (B @ op_bytes op) s' \<and>
     (watched c s \<longrightarrow> watched c s') \<and> others_stream c f s s'"
proof -
  obtain x where x: "nw_conns s c = Some x" using assms(2) by (auto simp: streams_def)
  show ?thesis
  proof (cases "co_closed x")
    case True
    then show ?thesis using x assms(1,2) closed_call [OF x True] by (auto simp: streams_def intro: prefix_prefix)
  next
    case still: False
    have wb: "write_queue (co_writeBuf x)" using assms(2) x still by (auto simp: streams_def)
    have inv_wb: "inv (put_conn c (x\<lparr>co_writeBuf := b\<rparr>) s)" and inv_rd: "inv (put_conn c (x\<lparr>co_reading := r\<rparr>) s)" for b r
      by (rule inv_put [of _ _ x]; simp add: x assms(1))+
    note flush = write_flush_ok [OF inv_wb _ assms(3)] and put = streams_put [OF x still assms(2)]
    have rd: "\<exists>s'. Connection_updateEvents c (put_conn c (x\<lparr>co_reading := r\<rparr>) s) = Inr s' \<and> inv s' \<and>
        streams c f B s' \<and> watched c s' \<and> others_stream c f s s'" for r
    proof -
      obtain s' where s': "Connection_updateEvents c (put_conn c (x\<lparr>co_reading := r\<rparr>) s) = Inr s'"
          "streams c f B s'" "watched c s'"
        using updateEvents_ok [OF streams_reading [OF x assms(2)]] by blast
      then show ?thesis using updateEvents_inv [OF inv_rd s'(1)] updateEvents_others [OF s'(1), of f] by simp
    qed
    show ?thesis
    proof (cases op)
      case (WriteString d)
      obtain b' where "Buffer_add_string d (co_writeBuf x) = Inr b'" "write_queue b'"
          "Buffer_linearize b' = Buffer_linearize (co_writeBuf x) @ bytes_of_string d"
        using wq.add_ok [OF wb, of "bytes_of_string d"] by (auto simp: Buffer_add_string_def)
      with flush [OF put, of b' "bytes_of_string d"] show ?thesis using x still
        by (auto simp: WriteString Connection_write_string_def with_conn_def)
    next
      case (WriteBuffer b)
      obtain b' where b': "Buffer_move (co_writeBuf x) b = (b', Buffer_new)" "write_queue b'"
          "Buffer_linearize b' = Buffer_linearize (co_writeBuf x) @ Buffer_linearize b"
        using move_write_queue [OF wb] assms(4) WriteBuffer by auto
      from flush [OF put [OF b'(2,3)]] b'(1) show ?thesis using x still
        by (auto simp: WriteBuffer Connection_write_def with_conn_def)
    next
      case WritableEvent
      then show ?thesis using handleWrite_ok [OF assms(1-3)] by auto
    next
      case StartRead
      show ?thesis using rd [of True] x still by (auto simp: StartRead Connection_startRead_def with_conn_def)
    next
      case StopRead
      show ?thesis using rd [of False] x still by (auto simp: StopRead Connection_stopRead_def with_conn_def)
    qed
  qed
qed

lemma conn_calls_ok:
  assumes "send_ok os"
  shows "inv s \<Longrightarrow> streams c f B s \<Longrightarrow> watched c s \<Longrightarrow> list_all conn_op_ok ops \<Longrightarrow>
    \<exists>s'. conn_calls os onErr c ops s = Inr s' \<and> inv s' \<and> streams c f (B @ concat (map op_bytes ops)) s' \<and> watched c s'"
proof (induction ops arbitrary: s B)
  case (Cons op ops)
  obtain s1 where s1: "conn_call os onErr c op s = Inr s1" "inv s1" "streams c f (B @ op_bytes op) s1" "watched c s1"
    using conn_call_ok [OF Cons.prems(1,2) assms] Cons.prems(3,4) by auto
  show ?case using Cons.IH [OF s1(2-4)] Cons.prems(4) s1(1) by simp
qed auto

end

subsection \<open>A kernel that keeps taking bytes\<close>

text \<open>The socket never blocks and never fails; how many of the bytes it takes at a time is left open.\<close>

definition send_progress :: "os \<Rightarrow> bool" where
  "send_progress os \<longleftrightarrow> (\<forall>h f d. d \<noteq> [] \<longrightarrow> (\<exists>n. os_send os h f d = Inr n \<and> 0 < n \<and> n \<le> length d))"

lemma Connection_flush_progress:
  assumes "write_queue buf" and "send_progress os"
  shows "\<exists>buf' s'. Connection_flush os k buf s = Inr (None, buf', s') \<and> Buffer_empty buf'"
  using assms
proof (induction os k buf s rule: Connection_flush.induct)
  case (1 os k buf s)
  note simps = Connection_flush.simps [of os k buf s]
  have wf: "buffer_wf buf" using "1.prems" by (simp add: write_queue_def)
  show ?case
  proof (cases "Buffer_empty buf")
    case False
    then have front: "front_data buf \<noteq> []" using wq.front_nonempty "1.prems"(1) wf by (simp add: Buffer_empty_iff)
    then have slices: "Buffer_slices buf \<noteq> []" by (auto simp: front_data_def)
    obtain n where n: "os_send os (pf_calls s) (so_fd k) (front_data buf) = Inr n" "0 < n" "n \<le> length (front_data buf)"
      using "1.prems"(2) front unfolding send_progress_def by blast
    then obtain s1 where w: "Socket_write os k (front_data buf) s = (Inr n, s1)" by (simp add: Socket_write_def)
    obtain b1 where b1: "Buffer_drain n buf = Inr b1" "write_queue b1"
      using wq.drain_front [OF "1.prems"(1) n(3)] by blast
    show ?thesis
      using "1.IH" [OF _ front w [symmetric] refl _ b1(1,2) "1.prems"(2)] False front slices w n(2) b1(1) by (auto simp: simps)
  qed (simp add: simps)
qed

lemma updateEvents_total:
  "nw_conns s c = Some x \<Longrightarrow> \<exists>s'. Connection_updateEvents c s = Inr s' \<and> nw_conns s' = nw_conns s"
  by (cases "co_closed x"; cases "wanted_events x = 0") (simp_all add: Connection_updateEvents_def with_conn_def)

context conn_invariant
begin

lemma handleWrite_progress:
  assumes "inv s" and x: "nw_conns s c = Some x" "\<not> co_closed x" and "write_queue (co_writeBuf x)"
    and "send_ok os" and "send_progress os"
  shows "\<exists>s' x'. Connection_handleWrite os onErr c s = Inr s' \<and> inv s' \<and>
    nw_conns s' c = Some x' \<and> \<not> co_closed x' \<and> Buffer_empty (co_writeBuf x')"
proof -
  obtain r buf ds where fl: "Connection_flush os (co_socket x) (co_writeBuf x) s
      = Inr (r, buf, s\<lparr>pf_calls := pf_calls s @ map (CSend (so_fd (co_socket x))) ds\<rparr>)"
    using Connection_flush_ok [OF assms(4,5)] by blast
  have r: "r = None" "Buffer_empty buf" using Connection_flush_progress [OF assms(4,6), of "co_socket x" s] fl by auto
  let ?x = "x\<lparr>co_writeBuf := buf\<rparr>"
  let ?s1 = "put_conn c ?x (s\<lparr>pf_calls := pf_calls s @ map (CSend (so_fd (co_socket x))) ds\<rparr>)"
  have "inv ?s1" by (rule inv_put [of _ _ x]) (simp_all add: x inv_calls assms(1))
  moreover obtain s2 where s2: "Connection_updateEvents c ?s1 = Inr s2" "nw_conns s2 = nw_conns ?s1"
    using updateEvents_total [of ?s1 c ?x] by auto
  ultimately show ?thesis using x fl r updateEvents_inv [OF _ s2(1)]
    by (intro exI [of _ s2] exI [of _ ?x]) (simp add: Connection_handleWrite_def with_conn_def Let_def)
qed

lemma write_progress:
  assumes "inv s" and x: "nw_conns s c = Some x" "\<not> co_closed x" and "write_queue (co_writeBuf x)" and "write_queue b"
    and "send_ok os" and "send_progress os"
  shows "\<exists>s' x'. conn_call os onErr c (WriteBuffer b) s = Inr s' \<and> inv s' \<and>
    nw_conns s' c = Some x' \<and> \<not> co_closed x' \<and> Buffer_empty (co_writeBuf x')"
proof -
  obtain b' where b': "Buffer_move (co_writeBuf x) b = (b', Buffer_new)" "write_queue b'"
    using move_write_queue [OF assms(4,5)] by blast
  let ?x = "x\<lparr>co_writeBuf := b'\<rparr>" and ?s0 = "put_conn c (x\<lparr>co_writeBuf := b'\<rparr>) s"
  have i0: "inv ?s0" by (rule inv_put [of _ _ x]) (simp_all add: x assms(1))
  obtain s1 where s1: "Connection_updateEvents c ?s0 = Inr s1" "nw_conns s1 = nw_conns ?s0"
    using updateEvents_total [of ?s0 c ?x] by auto
  have i1: "inv s1" by (rule updateEvents_inv [OF i0 s1(1)])
  have x1: "nw_conns s1 c = Some ?x" using s1(2) by simp
  show ?thesis
    using handleWrite_progress [OF i1 x1 _ _ assms(6,7), of onErr] x b' s1 x1 i1
    by (cases "Buffer_empty b'") (auto simp: Connection_write_def write_flush_def with_conn_def)
qed

end


definition net_start :: "nat net" where
  "net_start = \<lparr>pf_calls = [], el_kqFd = 3, el_running = False, el_wakeReadFd = 4, el_wakeWriteFd = 5,
     el_fdEntries = Map.empty, el_timerHeap = [], el_timers = Map.empty, el_nextTimerId = 1, el_posted = [],
     nw_conns = Map.empty, nw_nextConn = 0,
     nw_listener = \<lparr>li_bindAddr = Address_new, li_socket = Socket_new, li_hasAccept = False, li_resumeTimer = None\<rparr>\<rparr>"

section \<open>Reading and closing\<close>

text \<open>\<^verbatim>\<open>recv(2)\<close> returns at most as many bytes as the buffer it is given holds.\<close>

definition recv_ok :: "os \<Rightarrow> bool" where
  "recv_ok os \<longleftrightarrow> (\<forall>h f n bs. os_recv os h f n = Inr bs \<longrightarrow> length bs \<le> n)"

lemma reserve_new:
  "Buffer_reserve kDefaultCapacity Buffer_new =
     ((0, kDefaultCapacity), Buffer_new\<lparr>bf_slices := [Slice_new kDefaultCapacity]\<rparr>)"
  by (simp add: Buffer_reserve_def grow_slices_def Buffer_new_def Slice_reservation_def Slice_new_def)

lemma fill_new:
  assumes "length bs \<le> kDefaultCapacity" and "bs \<noteq> []"
  shows "\<exists>buf. rbind (Buffer_fill bs (Buffer_new\<lparr>bf_slices := [Slice_new kDefaultCapacity]\<rparr>))
       (Buffer_commit (length bs)) = Inr buf \<and> write_queue buf \<and> Buffer_linearize buf = bs"
proof -
  let ?k = "Slice_new kDefaultCapacity"
  obtain s1 s2 where s: "Slice_store bs ?k = Inr s1" "Slice_commit (length bs) s1 = Inr s2" "slice_wf s2"
      "Slice_data s2 = bs"
    by (rule Slice_store_commit [of ?k bs]) (use assms(1) in auto)
  let ?b = "Buffer_new\<lparr>bf_slices := [s2], bf_totalLength := length bs\<rparr>"
  have lin: "Buffer_linearize ?b = bs" using s by (simp add: Buffer_linearize_def Buffer_new_def)
  have "buffer_wf ?b" by (rule buffer_wfI) (use s lin in \<open>simp_all add: Buffer_new_def\<close>)
  moreover have "buffer_dense ?b"
    using Slice_data_Nil_iff [OF s(3)] s(4) assms(2)
    by (simp add: buffer_dense_def Buffer_slices_def Buffer_new_def)
  moreover have "rbind (Buffer_fill bs (Buffer_new\<lparr>bf_slices := [?k]\<rparr>)) (Buffer_commit (length bs)) = Inr ?b"
    using s by (simp add: Buffer_fill_def Buffer_commit_def Buffer_new_def)
  ultimately show ?thesis using lin by (auto simp: write_queue_def)
qed

lemma Connection_close_open:
  assumes "nw_conns s c = Some x" and "\<not> co_closed x" and "Socket_valid (co_socket x)"
  shows "Connection_close c s = Inr (put_conn c (x\<lparr>co_socket := Socket_new, co_closed := True\<rparr>)
     (sys (CClose (so_fd (co_socket x))) (KqueueLoop_remove (so_fd (co_socket x)) s)))"
proof -
  have "(co_socket x)\<lparr>so_fd := kInvalidFd\<rparr> = Socket_new" by (simp add: Socket_new_def)
  then show ?thesis using assms
    by (simp add: Connection_close_def with_conn_def Socket_close_def Let_def)
qed

lemma Connection_close_closed [simp]: "nw_conns s c = Some x \<Longrightarrow> co_closed x \<Longrightarrow> Connection_close c s = Inr s"
  by (simp add: Connection_close_def with_conn_def)

lemma Connection_destroy_closed:
  "nw_conns s c = Some x \<Longrightarrow> co_closed x \<Longrightarrow> \<not> Socket_valid (co_socket x) \<Longrightarrow>
   Connection_destroy c s = Inr (s\<lparr>nw_conns := (nw_conns s)(c := None)\<rparr>)"
  by (simp add: Connection_destroy_def with_conn_def Socket_destroy_def Socket_close_def)

text \<open>
  A readable event on an open connection. Received bytes reach the data callback in one buffer
  that holds exactly them; the end of the stream unregisters and closes the descriptor and then runs
  the close callback; "would block" changes nothing; any other error runs the error callback and
  then closes.
\<close>

theorem connection_read:
  assumes "nw_conns s c = Some x" and "\<not> co_closed x" and "Socket_valid (co_socket x)" and "recv_ok os"
  shows "let f = so_fd (co_socket x);
             r = os_recv os (pf_calls s) f 16384;
             s1 = sys (CRecv f r) s;
             res = Connection_handleRead os onData onClose onErr c s
         in case r of
              Inl e \<Rightarrow>
                if e = EAGAIN \<or> e = EWOULDBLOCK then res = Inr s1
                else res = rbind (run_opt (\<lambda>cb. onErr cb (mkError ReadError (''recv() failed: '' @ os_strerror os e)))
                                    (co_onError x) s1) (Connection_close c)
            | Inr [] \<Rightarrow>
                res = run_opt onClose (co_onClose x)
                  (put_conn c (x\<lparr>co_socket := Socket_new, co_closed := True\<rparr>)
                    (sys (CClose f) (KqueueLoop_remove f s1)))
            | Inr bs \<Rightarrow>
                (\<exists>buf. write_queue buf \<and> Buffer_linearize buf = bs \<and>
                   res = run_opt (\<lambda>cb. onData cb buf) (co_onData x) s1)"
proof -
  define f where "f = so_fd (co_socket x)"
  define r where "r = os_recv os (pf_calls s) f 16384"
  have rd: "Socket_read os (co_socket x) kDefaultCapacity s =
      (case r of Inl e \<Rightarrow> if isWouldBlock e then (Inr None, sys (CRecv f r) s)
                    else (Inl (mkError ReadError (''recv() failed: '' @ os_strerror os e)), sys (CRecv f r) s)
               | Inr bs \<Rightarrow> (Inr (Some bs), sys (CRecv f r) s))"
    unfolding r_def f_def Socket_read_def kDefaultCapacity_def Let_def by (rule refl)
  show ?thesis
  proof (cases r)
    case (Inl e)
    then show ?thesis using assms rd
      by (simp add: Connection_handleRead_def with_conn_def reserve_new isWouldBlock_def
          r_def [symmetric] f_def [symmetric] Let_def)
  next
    case (Inr bs)
    show ?thesis
    proof (cases bs)
      case Nil
      have "nw_conns (sys (CRecv f r) s) c = Some x" using assms(1) by simp
      from Connection_close_open [OF this assms(2,3)] show ?thesis using assms rd Inr Nil
        by (simp add: Connection_handleRead_def with_conn_def reserve_new r_def [symmetric] f_def [symmetric] Let_def)
    next
      case (Cons b bs')
      have "length bs \<le> kDefaultCapacity"
        using assms(4) Inr by (auto simp: recv_ok_def r_def kDefaultCapacity_def)
      then obtain buf1 buf where "Buffer_fill bs (Buffer_new\<lparr>bf_slices := [Slice_new kDefaultCapacity]\<rparr>) = Inr buf1"
          "Buffer_commit (length bs) buf1 = Inr buf" "write_queue buf" "Buffer_linearize buf = bs"
        using fill_new [of bs] Cons by (auto simp: res_iff)
      then show ?thesis using assms rd Inr Cons
        by (auto simp: Connection_handleRead_def with_conn_def reserve_new r_def [symmetric] f_def [symmetric] Let_def)
    qed
  qed
qed

theorem connection_read_witness:
  "\<exists>buf. Buffer_linearize buf = [1, 2] \<and>
     Connection_handleRead (quiet_os\<lparr>os_recv := (\<lambda>_ _ n. Inr (take n [1, 2]))\<rparr>) (\<lambda>cb b s. Inr (s\<lparr>nw_nextConn := 42\<rparr>))
       (\<lambda>cb s. Inr s) (\<lambda>cb e s. Inr s) 0
       (put_conn 0 \<lparr>co_socket = Socket_of_fd 7, co_closed = False, co_reading = True, co_writeBuf = Buffer_new,
                    co_onData = Some 5, co_onClose = None, co_onError = None\<rparr> net_start)
     = (\<lambda>s. Inr (s\<lparr>nw_nextConn := 42\<rparr>)) (sys (CRecv 7 (Inr [1, 2]))
       (put_conn 0 \<lparr>co_socket = Socket_of_fd 7, co_closed = False, co_reading = True, co_writeBuf = Buffer_new,
                    co_onData = Some 5, co_onClose = None, co_onError = None\<rparr> net_start))"
proof -
  let ?x = "\<lparr>co_socket = Socket_of_fd 7, co_closed = False, co_reading = True, co_writeBuf = Buffer_new,
             co_onData = Some 5, co_onClose = None, co_onError = None\<rparr> :: nat Connection"
  let ?s = "put_conn 0 ?x net_start"
  let ?os = "quiet_os\<lparr>os_recv := (\<lambda>_ _ n. Inr (take n [1, 2]))\<rparr>"
  have "nw_conns ?s 0 = Some ?x" "\<not> co_closed ?x" "Socket_valid (co_socket ?x)" "recv_ok ?os"
    by (simp_all add: Socket_valid_def Socket_of_fd_def recv_ok_def)
  from connection_read [OF this, of "\<lambda>cb b s. Inr (s\<lparr>nw_nextConn := 42\<rparr>)" "\<lambda>cb s. Inr s" "\<lambda>cb e s. Inr s"]
  show ?thesis by (auto simp: Let_def Socket_of_fd_def)
qed

text \<open>
  C35: the descriptor of a connection has one owner. Closing unregisters it and closes it once, however
  often the connection is closed and when it is destroyed; \<^verbatim>\<open>releaseSocket\<close> hands the descriptor over
  unregistered, and destroying the connection afterwards does not close it.
\<close>

theorem connection_fd_owner:
  assumes "nw_conns s c = Some x" and "\<not> co_closed x" and "Socket_valid (co_socket x)"
  shows "(\<exists>s' s''. Connection_close c s = Inr s' \<and> Connection_close c s' = Inr s' \<and>
            Connection_destroy c s' = Inr s'' \<and> el_fdEntries s' (so_fd (co_socket x)) = None \<and>
            closed_fds (pf_calls s'') = closed_fds (pf_calls s) + {#so_fd (co_socket x)#}) \<and>
    (\<exists>k s' s''. Connection_releaseSocket c s = Inr (k, s') \<and> so_fd k = so_fd (co_socket x) \<and>
            el_fdEntries s' (so_fd k) = None \<and>
            Connection_destroy c s' = Inr s'' \<and> closed_fds (pf_calls s'') = closed_fds (pf_calls s))"
proof
  have rm: "closed_fds (pf_calls (KqueueLoop_remove f s)) = closed_fds (pf_calls s)" for f
    by (simp add: KqueueLoop_remove_def split: option.splits)
  let ?s' = "put_conn c (x\<lparr>co_socket := Socket_new, co_closed := True\<rparr>)
     (sys (CClose (so_fd (co_socket x))) (KqueueLoop_remove (so_fd (co_socket x)) s))"
  have "el_fdEntries (sys (CClose g) t) = el_fdEntries t" for g and t :: "('a, 'b) net_scheme"
    by (simp add: sys_def)
  then show "\<exists>s' s''. Connection_close c s = Inr s' \<and> Connection_close c s' = Inr s' \<and>
            Connection_destroy c s' = Inr s'' \<and> el_fdEntries s' (so_fd (co_socket x)) = None \<and>
            closed_fds (pf_calls s'') = closed_fds (pf_calls s) + {#so_fd (co_socket x)#}"
    using Connection_close_open [OF assms] rm
    by (simp add: Connection_destroy_closed Socket_valid_def Socket_new_def)
  show "\<exists>k s' s''. Connection_releaseSocket c s = Inr (k, s') \<and> so_fd k = so_fd (co_socket x) \<and>
            el_fdEntries s' (so_fd k) = None \<and>
            Connection_destroy c s' = Inr s'' \<and> closed_fds (pf_calls s'') = closed_fds (pf_calls s)"
    using assms rm
    by (simp add: Connection_releaseSocket_def with_conn_def Connection_destroy_closed
        Socket_valid_def Socket_move_def Let_def)
qed

theorem connection_fd_owner_witness:
  "\<exists>s' s''. Connection_close 0 (snd (Connection_new (Socket_of_fd 7) net_start)) = Inr s' \<and>
     Connection_destroy 0 s' = Inr s'' \<and> closed_fds (pf_calls s'') = {#7#}"
proof -
  let ?s = "snd (Connection_new (Socket_of_fd 7) net_start)"
  obtain x where "nw_conns ?s 0 = Some x" "\<not> co_closed x" "Socket_valid (co_socket x)" "so_fd (co_socket x) = 7"
    by (simp add: Connection_new_def net_start_def Socket_of_fd_def Socket_valid_def Let_def)
  moreover have "closed_fds (pf_calls ?s) = {#}"
    by (simp add: Connection_new_def net_start_def Let_def closed_fds_def)
  ultimately show ?thesis using connection_fd_owner [of ?s 0 x] by auto
qed

section \<open>What the operations keep of an invariant of the owner\<close>

lemma Connection_flush_calls:
  "Connection_flush os k buf s = Inr (r, buf', s') \<Longrightarrow> \<exists>cs. s' = s\<lparr>pf_calls := pf_calls s @ cs\<rparr>"
proof (induction os k buf s rule: Connection_flush.induct)
  case (1 os k buf s)
  note simps = Connection_flush.simps [of os k buf s]
  have w: "\<exists>d. snd (Socket_write os k (front_data buf) s) = sys (CSend (so_fd k) d) s"
    by (auto simp: Socket_write_def split: sum.splits)
  show ?case
  proof (cases "Buffer_empty buf \<or> Buffer_slices buf = [] \<or> front_data buf = []")
    case True
    then show ?thesis using "1.prems" by (auto simp: simps res_iff split: if_splits intro: exI [of _ "[]"])
  next
    case False
    obtain res s1 where r: "Socket_write os k (front_data buf) s = (res, s1)" by fastforce
    with w obtain d where d: "s1 = sys (CSend (so_fd k) d) s" by auto
    show ?thesis
    proof (cases "\<exists>n. res = Inr n \<and> n \<noteq> 0")
      case stop: False
      then show ?thesis using "1.prems" False r d by (auto simp: simps sys_def split: sum.splits if_splits)
    next
      case True
      then obtain n where n: "res = Inr n" "n \<noteq> 0" by blast
      then obtain b1 where b1: "Buffer_drain n buf = Inr b1" "Connection_flush os k b1 s1 = Inr (r, buf', s')"
        using "1.prems" False r by (auto simp: simps res_iff)
      from "1.IH" [OF _ _ r [symmetric] n b1] False obtain cs where "s' = s1\<lparr>pf_calls := pf_calls s1 @ cs\<rparr>" by auto
      then show ?thesis using d by (auto simp: sys_def)
    qed
  qed
qed

text \<open>
  An owner whose error callback keeps its invariant whenever it returns: then so does every operation
  of a connection.
\<close>

locale conn_keeper = conn_invariant inv
  for inv :: "('u, 'a) net_scheme \<Rightarrow> bool" +
  fixes onErr :: "'u \<Rightarrow> Error \<Rightarrow> ('u, 'a) net_scheme \<Rightarrow> fault + ('u, 'a) net_scheme"
  assumes err_keeps: "inv s \<Longrightarrow> onErr cb e s = Inr s' \<Longrightarrow> inv s'"
begin

lemma run_error_keeps: "inv s \<Longrightarrow> run_opt (\<lambda>cb. onErr cb e) cb s = Inr s' \<Longrightarrow> inv s'"
  by (cases cb) (auto dest: err_keeps)

lemma handleWrite_keeps:
  assumes "inv s" and "Connection_handleWrite os onErr c s = Inr s'"
  shows "inv s'"
proof -
  obtain x where x: "nw_conns s c = Some x" using assms(2)
    by (auto simp: Connection_handleWrite_def with_conn_def split: option.splits)
  show ?thesis
  proof (cases "co_closed x")
    case True
    then show ?thesis using x assms by (simp add: Connection_handleWrite_def with_conn_def)
  next
    case False
    then obtain r buf s1 where fl: "Connection_flush os (co_socket x) (co_writeBuf x) s = Inr (r, buf, s1)"
      using assms(2) x by (auto simp: Connection_handleWrite_def with_conn_def res_iff)
    obtain cs where cs: "s1 = s\<lparr>pf_calls := pf_calls s @ cs\<rparr>" using Connection_flush_calls [OF fl] by blast
    let ?s2 = "put_conn c (x\<lparr>co_writeBuf := buf\<rparr>) s1"
    have "inv ?s2" by (rule inv_put [of _ _ x]) (simp_all add: cs x inv_calls assms(1))
    then show ?thesis using assms(2) x False fl
      by (auto simp: Connection_handleWrite_def with_conn_def res_iff Let_def split: option.splits
          dest: run_error_keeps updateEvents_inv close_inv)
  qed
qed

lemma write_flush_keeps: "inv s \<Longrightarrow> write_flush os onErr c s = Inr s' \<Longrightarrow> inv s'"
  by (auto simp: write_flush_def with_conn_def res_iff split: option.splits if_splits
      dest: updateEvents_inv handleWrite_keeps)

lemma write_keeps:
  assumes "inv s" and "Connection_write os onErr d c s = Inr (d', s')"
  shows "inv s'"
proof -
  obtain x where x: "nw_conns s c = Some x" using assms(2)
    by (auto simp: Connection_write_def with_conn_def split: option.splits)
  have "inv (put_conn c (x\<lparr>co_writeBuf := b\<rparr>) s)" for b by (rule inv_put [of _ _ x]) (simp_all add: x assms(1))
  then show ?thesis using assms x
    by (auto simp: Connection_write_def with_conn_def res_iff split: if_splits prod.splits dest: write_flush_keeps)
qed

lemma write_string_keeps:
  assumes "inv s" and "Connection_write_string os onErr d c s = Inr s'"
  shows "inv s'"
proof -
  obtain x where x: "nw_conns s c = Some x" using assms(2)
    by (auto simp: Connection_write_string_def with_conn_def split: option.splits)
  have "inv (put_conn c (x\<lparr>co_writeBuf := b\<rparr>) s)" for b by (rule inv_put [of _ _ x]) (simp_all add: x assms(1))
  then show ?thesis using assms x
    by (auto simp: Connection_write_string_def with_conn_def res_iff split: if_splits dest: write_flush_keeps)
qed

lemma reading_keeps:
  assumes "inv s" and "Connection_startRead c s = Inr s' \<or> Connection_stopRead c s = Inr s'"
  shows "inv s'"
proof -
  obtain x where x: "nw_conns s c = Some x" using assms(2)
    by (auto simp: Connection_startRead_def Connection_stopRead_def with_conn_def split: option.splits)
  have "inv (put_conn c (x\<lparr>co_reading := b\<rparr>) s)" for b by (rule inv_put [of _ _ x]) (simp_all add: x assms(1))
  then show ?thesis using assms x
    by (auto simp: Connection_startRead_def Connection_stopRead_def with_conn_def split: if_splits dest: updateEvents_inv)
qed

lemma io_keeps:
  assumes "inv s" and "Connection_io os onData onClose onErr c fired s = Inr s'"
    and onData: "\<And>cb b s s'. inv s \<Longrightarrow> onData cb b s = Inr s' \<Longrightarrow> inv s'"
    and onClose: "\<And>cb s s'. inv s \<Longrightarrow> onClose cb s = Inr s' \<Longrightarrow> inv s'"
  shows "inv s'"
proof -
  have opt: "run_opt (\<lambda>cb. onData cb b) q t = Inr t' \<Longrightarrow> inv t \<Longrightarrow> inv t'"
    "run_opt onClose q t = Inr t' \<Longrightarrow> inv t \<Longrightarrow> inv t'" for b q t t'
    by (cases q; auto dest: onData onClose)+
  have "inv s1" if hr: "Connection_handleRead os onData onClose onErr c s = Inr s1" for s1
  proof -
    obtain x where x: "nw_conns s c = Some x" using hr
      by (auto simp: Connection_handleRead_def with_conn_def split: option.splits)
    obtain res s2 where r: "Socket_read os (co_socket x) (snd (fst (Buffer_reserve kDefaultCapacity Buffer_new))) s = (res, s2)"
      by fastforce
    then have "inv s2" using inv_sys [OF assms(1)]
      by (auto simp: Socket_read_def Let_def split: sum.splits if_splits)
    then show ?thesis using hr x r assms(1) opt
      by (auto simp: Connection_handleRead_def with_conn_def res_iff split: if_splits prod.splits sum.splits option.splits
          dest: run_error_keeps close_inv)
  qed
  then show ?thesis using assms(1,2)
    by (auto simp: Connection_io_def res_iff split: if_splits dest: handleWrite_keeps)
qed

end

end
