(* ===== verification/Tls_Connection.thy ===== *)
theory Tls_Connection
  imports Net_Connection
begin

text \<open>
  \<^verbatim>\<open>Tls/TlsConnection.hpp\<close> and \<^verbatim>\<open>Tls/TlsConnection.cpp\<close>: a TLS connection on the event loop, around
  OpenSSL as a parameter. TLS connections live in their own heap (\<open>tn_conns\<close>), which extends the
  state of the plain connections; the closure they hand to \<^verbatim>\<open>watch\<close> is \<open>IoTls t\<close>. The read loop ends
  only when \<^verbatim>\<open>SSL_read\<close> has no more data, so its model takes fuel, one unit per \<^verbatim>\<open>SSL_read\<close>. Log output
  is not modelled.
\<close>

section \<open>State\<close>

record 'u TlsConnection =
  tc_socket :: Socket
  tc_ssl :: ssl
  tc_isServer :: bool
  tc_closed :: bool
  tc_handshakeDone :: bool
  tc_reading :: bool
  tc_writeBuf :: buffer
  tc_onData :: "'u option"
  tc_onClose :: "'u option"
  tc_onError :: "'u option"
  tc_onHandshakeComplete :: "'u option"
  tc_onHandshakeError :: "'u option"

record 'u tnet = "'u net" +
  tn_conns :: "nat \<rightharpoonup> 'u TlsConnection"
  tn_nextTls :: nat

definition with_tls :: "nat \<Rightarrow> ('u, 'a) tnet_scheme \<Rightarrow> ('u TlsConnection \<Rightarrow> fault + 'b) \<Rightarrow> fault + 'b" where
  "with_tls t s f = (case tn_conns s t of None \<Rightarrow> Inl UndefinedBehaviour | Some x \<Rightarrow> f x)"

definition put_tls :: "nat \<Rightarrow> 'u TlsConnection \<Rightarrow> ('u, 'a) tnet_scheme \<Rightarrow> ('u, 'a) tnet_scheme" where
  "put_tls t x s = s\<lparr>tn_conns := (tn_conns s)(t \<mapsto> x)\<rparr>"

lemma with_tls_Inr [res_iff]: "with_tls t s f = Inr r \<longleftrightarrow> (\<exists>x. tn_conns s t = Some x \<and> f x = Inr r)"
  by (simp add: with_tls_def split: option.splits)

section \<open>Operations\<close>

definition TlsConnection_new ::
  "openssl \<Rightarrow> Socket \<Rightarrow> ssl_ctx \<Rightarrow> bool \<Rightarrow> ('u, 'a) tnet_scheme \<Rightarrow> nat \<times> ('u, 'a) tnet_scheme" where
  "TlsConnection_new lib k ctx isServer s =
     (let t = tn_nextTls s; ssl = tls_new lib (pf_calls s) ctx
      in (t, put_tls t \<lparr>tc_socket = k, tc_ssl = ssl, tc_isServer = isServer, tc_closed = False,
                        tc_handshakeDone = False, tc_reading = False, tc_writeBuf = Buffer_new,
                        tc_onData = None, tc_onClose = None, tc_onError = None,
                        tc_onHandshakeComplete = None, tc_onHandshakeError = None\<rparr>
               ((sys (CSslNew ssl ctx (so_fd k)) s)\<lparr>tn_nextTls := Suc t\<rparr>)))"

definition TlsConnection_onData :: "'u \<Rightarrow> nat \<Rightarrow> ('u, 'a) tnet_scheme \<Rightarrow> fault + ('u, 'a) tnet_scheme" where
  "TlsConnection_onData cb t s = with_tls t s (\<lambda>x. Inr (put_tls t (x\<lparr>tc_onData := Some cb\<rparr>) s))"

definition TlsConnection_onClose :: "'u \<Rightarrow> nat \<Rightarrow> ('u, 'a) tnet_scheme \<Rightarrow> fault + ('u, 'a) tnet_scheme" where
  "TlsConnection_onClose cb t s = with_tls t s (\<lambda>x. Inr (put_tls t (x\<lparr>tc_onClose := Some cb\<rparr>) s))"

definition TlsConnection_onError :: "'u \<Rightarrow> nat \<Rightarrow> ('u, 'a) tnet_scheme \<Rightarrow> fault + ('u, 'a) tnet_scheme" where
  "TlsConnection_onError cb t s = with_tls t s (\<lambda>x. Inr (put_tls t (x\<lparr>tc_onError := Some cb\<rparr>) s))"

definition TlsConnection_connected :: "nat \<Rightarrow> ('u, 'a) tnet_scheme \<Rightarrow> fault + bool" where
  "TlsConnection_connected t s = with_tls t s (\<lambda>x. Inr (\<not> tc_closed x \<and> tc_handshakeDone x))"

definition TlsConnection_negotiatedProtocol ::
  "openssl \<Rightarrow> nat \<Rightarrow> ('u, 'a) tnet_scheme \<Rightarrow> fault + string" where
  "TlsConnection_negotiatedProtocol lib t s =
     with_tls t s (\<lambda>x. Inr (string_of_bytes (tls_alpnSelected lib (pf_calls s) (tc_ssl x))))"

definition TlsConnection_setSni :: "string \<Rightarrow> nat \<Rightarrow> ('u, 'a) tnet_scheme \<Rightarrow> fault + ('u, 'a) tnet_scheme" where
  "TlsConnection_setSni hostname t s = with_tls t s (\<lambda>x. Inr (sys (CSslSni (tc_ssl x) hostname) s))"

text \<open>The server side installs a selection callback that prefers \<open>protos\<close>; the client side advertises them.\<close>

definition TlsConnection_setAlpn :: "byte list \<Rightarrow> nat \<Rightarrow> ('u, 'a) tnet_scheme \<Rightarrow> fault + ('u, 'a) tnet_scheme" where
  "TlsConnection_setAlpn protos t s =
     with_tls t s (\<lambda>x. Inr (sys (if tc_isServer x then CCtxAlpnSelect (tc_ssl x) protos
                                 else CSslAlpn (tc_ssl x) protos) s))"

definition TlsConnection_close :: "nat \<Rightarrow> ('u, 'a) tnet_scheme \<Rightarrow> fault + ('u, 'a) tnet_scheme" where
  "TlsConnection_close t s =
     with_tls t s (\<lambda>x.
       if tc_closed x then Inr s
       else
         (let s1 = KqueueLoop_remove (so_fd (tc_socket x)) s;
              s2 = (if tc_handshakeDone x then sys (CSslShutdown (tc_ssl x)) s1 else s1);
              (k, s3) = Socket_close (tc_socket x) s2
          in Inr (put_tls t (x\<lparr>tc_closed := True, tc_socket := k\<rparr>) s3)))"

definition TlsConnection_destroy :: "nat \<Rightarrow> ('u, 'a) tnet_scheme \<Rightarrow> fault + ('u, 'a) tnet_scheme" where
  "TlsConnection_destroy t s =
     rbind (TlsConnection_close t s)
       (\<lambda>s. with_tls t s (\<lambda>x.
          Inr ((Socket_destroy (tc_socket x) (sys (CSslFree (tc_ssl x)) s))\<lparr>tn_conns := (tn_conns s)(t := None)\<rparr>)))"

definition TlsConnection_watchForSsl :: "ssl_error \<Rightarrow> nat \<Rightarrow> ('u, 'a) tnet_scheme \<Rightarrow> fault + ('u, 'a) tnet_scheme" where
  "TlsConnection_watchForSsl err t s =
     with_tls t s (\<lambda>x.
       let events = (if err = SSL_ERROR_WANT_WRITE then Writable
                     else if err = SSL_ERROR_WANT_READ then Readable else 0)
                    OR (if tc_reading x then Readable else 0)
       in Inr (KqueueLoop_watch (so_fd (tc_socket x)) events (IoTls t) s))"

definition TlsConnection_continueHandshake ::
  "openssl \<Rightarrow> ('u \<Rightarrow> ('u, 'a) tnet_scheme \<Rightarrow> fault + ('u, 'a) tnet_scheme)
     \<Rightarrow> ('u \<Rightarrow> Error \<Rightarrow> ('u, 'a) tnet_scheme \<Rightarrow> fault + ('u, 'a) tnet_scheme)
     \<Rightarrow> nat \<Rightarrow> ('u, 'a) tnet_scheme \<Rightarrow> fault + ('u, 'a) tnet_scheme" where
  "TlsConnection_continueHandshake lib onDone onErr t s =
     with_tls t s (\<lambda>x.
       if tc_closed x then Inr s
       else
         (let r = tls_doHandshake lib (pf_calls s) (tc_ssl x);
              s1 = sys (CSslHandshake (tc_ssl x)) s
          in case r of
               None \<Rightarrow> run_opt onDone (tc_onHandshakeComplete x) (put_tls t (x\<lparr>tc_handshakeDone := True\<rparr>) s1)
             | Some err \<Rightarrow>
                 if err = SSL_ERROR_WANT_READ \<or> err = SSL_ERROR_WANT_WRITE
                 then TlsConnection_watchForSsl err t s1
                 else
                   (let buf = tls_errorString lib (pf_calls s1)
                    in rbind (TlsConnection_close t s1)
                         (\<lambda>s2. with_tls t s2 (\<lambda>x2.
                            run_opt (\<lambda>cb. onErr cb (mkError TlsHandshakeFailed buf)) (tc_onHandshakeError x2)
                              (put_tls t (x2\<lparr>tc_onHandshakeError := None\<rparr>) s2))))))"

definition TlsConnection_startHandshake ::
  "openssl \<Rightarrow> ('u \<Rightarrow> ('u, 'a) tnet_scheme \<Rightarrow> fault + ('u, 'a) tnet_scheme)
     \<Rightarrow> ('u \<Rightarrow> Error \<Rightarrow> ('u, 'a) tnet_scheme \<Rightarrow> fault + ('u, 'a) tnet_scheme)
     \<Rightarrow> 'u \<Rightarrow> 'u \<Rightarrow> nat \<Rightarrow> ('u, 'a) tnet_scheme \<Rightarrow> fault + ('u, 'a) tnet_scheme" where
  "TlsConnection_startHandshake lib onDone onErr doneCb errCb t s =
     with_tls t s (\<lambda>x.
       TlsConnection_continueHandshake lib onDone onErr t
         (put_tls t (x\<lparr>tc_onHandshakeComplete := Some doneCb, tc_onHandshakeError := Some errCb\<rparr>) s))"

definition watch_tls_read :: "nat \<Rightarrow> 'u TlsConnection \<Rightarrow> ('u, 'a) tnet_scheme \<Rightarrow> ('u, 'a) tnet_scheme" where
  "watch_tls_read t x s = KqueueLoop_watch (so_fd (tc_socket x)) Readable (IoTls t) s"

definition TlsConnection_startRead :: "nat \<Rightarrow> ('u, 'a) tnet_scheme \<Rightarrow> fault + ('u, 'a) tnet_scheme" where
  "TlsConnection_startRead t s =
     with_tls t s (\<lambda>x.
       if tc_closed x \<or> \<not> tc_handshakeDone x then Inr s
       else Inr (watch_tls_read t x (put_tls t (x\<lparr>tc_reading := True\<rparr>) s)))"

datatype tls_flush = TfDone | TfWant ssl_error | TfFailed

text \<open>The loop of \<^verbatim>\<open>doWrite\<close>, up to the point where it is left.\<close>

function TlsConnection_flush ::
  "openssl \<Rightarrow> ssl \<Rightarrow> buffer \<Rightarrow> 's platform_scheme \<Rightarrow> fault + tls_flush \<times> buffer \<times> 's platform_scheme" where
  "TlsConnection_flush lib ssl buf s =
     (if Buffer_empty buf \<or> Buffer_slices buf = [] \<or> front_data buf = [] then Inr (TfDone, buf, s)
      else
        (let r = tls_write lib (pf_calls s) ssl (front_data buf);
             s1 = sys (CSslWrite ssl (case r of Inl _ \<Rightarrow> [] | Inr n \<Rightarrow> take n (front_data buf))) s
         in case r of
              Inr n \<Rightarrow>
                if n = 0 then Inr (TfFailed, buf, s1)
                else rbind (Buffer_drain n buf) (\<lambda>buf1. TlsConnection_flush lib ssl buf1 s1)
            | Inl err \<Rightarrow>
                if err = SSL_ERROR_WANT_WRITE \<or> err = SSL_ERROR_WANT_READ then Inr (TfWant err, buf, s1)
                else Inr (TfFailed, buf, s1)))"
  by pat_completeness auto
termination
  by (relation "measure (\<lambda>(lib, ssl, buf, s). readable_bytes buf)") (auto intro: Buffer_drain_progress)

declare TlsConnection_flush.simps [simp del]

definition TlsConnection_doWrite ::
  "openssl \<Rightarrow> ('u \<Rightarrow> Error \<Rightarrow> ('u, 'a) tnet_scheme \<Rightarrow> fault + ('u, 'a) tnet_scheme)
     \<Rightarrow> nat \<Rightarrow> ('u, 'a) tnet_scheme \<Rightarrow> fault + ('u, 'a) tnet_scheme" where
  "TlsConnection_doWrite lib onErr t s =
     with_tls t s (\<lambda>x.
       if tc_closed x then Inr s
       else
         rbind (TlsConnection_flush lib (tc_ssl x) (tc_writeBuf x) s)
           (\<lambda>(r, buf, s).
              let x1 = x\<lparr>tc_writeBuf := buf\<rparr>; s1 = put_tls t x1 s
              in case r of
                   TfWant err \<Rightarrow> TlsConnection_watchForSsl err t s1
                 | TfFailed \<Rightarrow>
                     rbind (TlsConnection_close t s1)
                       (run_opt (\<lambda>cb. onErr cb (mkError WriteError ''SSL_write error'')) (tc_onError x))
                 | TfDone \<Rightarrow> Inr (if tc_reading x then watch_tls_read t x1 s1 else s1)))"

definition TlsConnection_write ::
  "openssl \<Rightarrow> ('u \<Rightarrow> Error \<Rightarrow> ('u, 'a) tnet_scheme \<Rightarrow> fault + ('u, 'a) tnet_scheme)
     \<Rightarrow> buffer \<Rightarrow> nat \<Rightarrow> ('u, 'a) tnet_scheme \<Rightarrow> fault + buffer \<times> ('u, 'a) tnet_scheme" where
  "TlsConnection_write lib onErr data t s =
     with_tls t s (\<lambda>x.
       if tc_closed x then Inr (data, s)
       else
         (let (wb, data') = Buffer_move (tc_writeBuf x) data
          in rbind (TlsConnection_doWrite lib onErr t (put_tls t (x\<lparr>tc_writeBuf := wb\<rparr>) s)) (\<lambda>s. Inr (data', s))))"

definition TlsConnection_write_string ::
  "openssl \<Rightarrow> ('u \<Rightarrow> Error \<Rightarrow> ('u, 'a) tnet_scheme \<Rightarrow> fault + ('u, 'a) tnet_scheme)
     \<Rightarrow> string \<Rightarrow> nat \<Rightarrow> ('u, 'a) tnet_scheme \<Rightarrow> fault + ('u, 'a) tnet_scheme" where
  "TlsConnection_write_string lib onErr data t s =
     with_tls t s (\<lambda>x.
       if tc_closed x then Inr s
       else rbind (Buffer_add_string data (tc_writeBuf x))
              (\<lambda>wb. TlsConnection_doWrite lib onErr t (put_tls t (x\<lparr>tc_writeBuf := wb\<rparr>) s)))"

fun TlsConnection_readLoop ::
  "openssl \<Rightarrow> ('u \<Rightarrow> buffer \<Rightarrow> ('u, 'a) tnet_scheme \<Rightarrow> fault + ('u, 'a) tnet_scheme)
     \<Rightarrow> ('u \<Rightarrow> ('u, 'a) tnet_scheme \<Rightarrow> fault + ('u, 'a) tnet_scheme)
     \<Rightarrow> ('u \<Rightarrow> Error \<Rightarrow> ('u, 'a) tnet_scheme \<Rightarrow> fault + ('u, 'a) tnet_scheme)
     \<Rightarrow> nat \<Rightarrow> nat \<Rightarrow> ('u, 'a) tnet_scheme \<Rightarrow> fault + ('u, 'a) tnet_scheme" where
  "TlsConnection_readLoop lib onData onClose onErr 0 t s = Inl NotReturned"
| "TlsConnection_readLoop lib onData onClose onErr (Suc fuel) t s =
     with_tls t s (\<lambda>x.
       let r = tls_read lib (pf_calls s) (tc_ssl x) 16384;
           s1 = sys (CSslRead (tc_ssl x) (case r of Inl _ \<Rightarrow> [] | Inr bs \<Rightarrow> bs)) s
       in case (case r of Inr [] \<Rightarrow> Inl SSL_ERROR_SYSCALL | _ \<Rightarrow> r) of
            Inr bs \<Rightarrow>
              rbind (Buffer_add bs Buffer_new)
                (\<lambda>buf. rbind (run_opt (\<lambda>cb. onData cb buf) (tc_onData x) s1)
                   (TlsConnection_readLoop lib onData onClose onErr fuel t))
          | Inl err \<Rightarrow>
              if err = SSL_ERROR_WANT_READ then Inr s1
              else if err = SSL_ERROR_ZERO_RETURN \<or> err = SSL_ERROR_SYSCALL
              then rbind (TlsConnection_close t s1) (run_opt onClose (tc_onClose x))
              else rbind (TlsConnection_close t s1)
                     (run_opt (\<lambda>cb. onErr cb (mkError ReadError ''SSL_read error'')) (tc_onError x)))"

definition TlsConnection_doRead ::
  "openssl \<Rightarrow> ('u \<Rightarrow> buffer \<Rightarrow> ('u, 'a) tnet_scheme \<Rightarrow> fault + ('u, 'a) tnet_scheme)
     \<Rightarrow> ('u \<Rightarrow> ('u, 'a) tnet_scheme \<Rightarrow> fault + ('u, 'a) tnet_scheme)
     \<Rightarrow> ('u \<Rightarrow> Error \<Rightarrow> ('u, 'a) tnet_scheme \<Rightarrow> fault + ('u, 'a) tnet_scheme)
     \<Rightarrow> nat \<Rightarrow> nat \<Rightarrow> ('u, 'a) tnet_scheme \<Rightarrow> fault + ('u, 'a) tnet_scheme" where
  "TlsConnection_doRead lib onData onClose onErr fuel t s =
     with_tls t s (\<lambda>x. if tc_closed x then Inr s
                       else TlsConnection_readLoop lib onData onClose onErr fuel t s)"

text \<open>The closure registered with the event loop; the reported events are not looked at.\<close>

definition TlsConnection_handleIo ::
  "openssl \<Rightarrow> ('u \<Rightarrow> buffer \<Rightarrow> ('u, 'a) tnet_scheme \<Rightarrow> fault + ('u, 'a) tnet_scheme)
     \<Rightarrow> ('u \<Rightarrow> ('u, 'a) tnet_scheme \<Rightarrow> fault + ('u, 'a) tnet_scheme)
     \<Rightarrow> ('u \<Rightarrow> Error \<Rightarrow> ('u, 'a) tnet_scheme \<Rightarrow> fault + ('u, 'a) tnet_scheme)
     \<Rightarrow> nat \<Rightarrow> nat \<Rightarrow> ('u, 'a) tnet_scheme \<Rightarrow> fault + ('u, 'a) tnet_scheme" where
  "TlsConnection_handleIo lib onData onCall onErr fuel t s =
     with_tls t s (\<lambda>x.
       if tc_closed x then Inr s
       else if \<not> tc_handshakeDone x then TlsConnection_continueHandshake lib onCall onErr t s
       else
         rbind (if tc_reading x then TlsConnection_doRead lib onData onCall onErr fuel t s else Inr s)
           (\<lambda>s. with_tls t s (\<lambda>x.
              if Buffer_empty (tc_writeBuf x) then Inr s else TlsConnection_doWrite lib onErr t s)))"

section \<open>TLS connections as byte streams\<close>

text \<open>\<^verbatim>\<open>SSL_write\<close> never reports more bytes than it was given.\<close>

definition tls_write_ok :: "openssl \<Rightarrow> bool" where
  "tls_write_ok lib \<longleftrightarrow> (\<forall>h ssl d n. tls_write lib h ssl d = Inr n \<longrightarrow> n \<le> length d)"

lemma TlsConnection_flush_ok:
  assumes "write_queue buf" and "tls_write_ok lib"
  shows "\<exists>r buf' ds. TlsConnection_flush lib ssl buf s
       = Inr (r, buf', s\<lparr>pf_calls := pf_calls s @ map (CSslWrite ssl) ds\<rparr>) \<and>
     write_queue buf' \<and> Buffer_linearize buf = concat ds @ Buffer_linearize buf' \<and>
     (case r of TfDone \<Rightarrow> Buffer_linearize buf' = []
              | TfWant e \<Rightarrow> e = SSL_ERROR_WANT_WRITE \<or> e = SSL_ERROR_WANT_READ | TfFailed \<Rightarrow> True)"
  using assms
proof (induction lib ssl buf s rule: TlsConnection_flush.induct)
  case (1 lib ssl buf s)
  note simps = TlsConnection_flush.simps [of lib ssl buf s]
  have wf: "buffer_wf buf" using "1.prems" by (simp add: write_queue_def)
  show ?case
  proof (cases "Buffer_empty buf \<or> Buffer_slices buf = [] \<or> front_data buf = []")
    case True
    have "Buffer_linearize buf = []"
    proof (rule ccontr)
      assume ne: "Buffer_linearize buf \<noteq> []"
      then have "front_data buf \<noteq> []" using wq.front_nonempty "1.prems"(1) by blast
      then show False using True ne wf by (auto simp: Buffer_empty_iff front_data_def)
    qed
    then show ?thesis using True "1.prems" by (auto simp: simps intro!: exI [of _ "[]"])
  next
    case False
    let ?r = "tls_write lib (pf_calls s) ssl (front_data buf)"
    let ?s1 = "sys (CSslWrite ssl (case ?r of Inl _ \<Rightarrow> [] | Inr n \<Rightarrow> take n (front_data buf))) s"
    show ?thesis
    proof (cases "\<exists>n. ?r = Inr n \<and> n \<noteq> 0")
      case stop: False
      have "\<exists>r. TlsConnection_flush lib ssl buf s = Inr (r, buf, sys (CSslWrite ssl []) s) \<and>
          (r = TfFailed \<or> (\<exists>e. r = TfWant e \<and> (e = SSL_ERROR_WANT_WRITE \<or> e = SSL_ERROR_WANT_READ)))"
        using False stop by (auto simp: simps Let_def split: sum.splits)
      then show ?thesis using "1.prems" by (fastforce simp: sys_def intro!: exI [of _ "[[]]"])
    next
      case True
      then obtain n where n: "?r = Inr n" "n \<noteq> 0" by blast
      have le: "n \<le> length (front_data buf)" using n "1.prems"(2) by (auto simp: tls_write_ok_def)
      obtain b1 where b1: "Buffer_drain n buf = Inr b1" "write_queue b1"
          "Buffer_linearize buf = take n (front_data buf) @ Buffer_linearize b1"
        using wq.drain_front [OF "1.prems"(1) le] by blast
      obtain r b2 ds where IH: "TlsConnection_flush lib ssl b1 ?s1
            = Inr (r, b2, ?s1\<lparr>pf_calls := pf_calls ?s1 @ map (CSslWrite ssl) ds\<rparr>)"
          "write_queue b2" "Buffer_linearize b1 = concat ds @ Buffer_linearize b2"
          "case r of TfDone \<Rightarrow> Buffer_linearize b2 = []
              | TfWant e \<Rightarrow> e = SSL_ERROR_WANT_WRITE \<or> e = SSL_ERROR_WANT_READ | TfFailed \<Rightarrow> True"
        using "1.IH" [OF False refl refl n b1(1) b1(2) "1.prems"(2)] by blast
      have "TlsConnection_flush lib ssl buf s = TlsConnection_flush lib ssl b1 ?s1"
        using False n b1(1) by (simp add: simps)
      then show ?thesis using IH b1 n
        by (intro exI [of _ r] exI [of _ b2] exI [of _ "take n (front_data buf) # ds"]) (simp add: sys_def)
    qed
  qed
qed

definition encrypted :: "ssl \<Rightarrow> syscall list \<Rightarrow> byte list" where
  "encrypted ssl cs = concat (map (\<lambda>c. case c of CSslWrite k d \<Rightarrow> if k = ssl then d else [] | _ \<Rightarrow> []) cs)"

lemma encrypted_append [simp]: "encrypted k (cs @ ds) = encrypted k cs @ encrypted k ds"
  by (simp add: encrypted_def)

lemma encrypted_writes [simp]: "encrypted k (map (CSslWrite k) ds) = concat ds"
  by (induction ds) (simp_all add: encrypted_def)

lemma encrypted_other [simp]:
  "encrypted k [] = []" "encrypted k (CSslShutdown q # cs) = encrypted k cs"
  "encrypted k (CClose g # cs) = encrypted k cs" "encrypted k (CCtxFree q # cs) = encrypted k cs"
  by (simp_all add: encrypted_def)

lemma encrypted_loop [simp]:
  "encrypted k (pf_calls (KqueueLoop_watch g ev cb s)) = encrypted k (pf_calls s)"
  "encrypted k (pf_calls (KqueueLoop_remove g s)) = encrypted k (pf_calls s)"
  by (auto simp: KqueueLoop_watch_def KqueueLoop_remove_def Let_def encrypted_def split: option.splits)

lemma loop_keeps_tls [simp]:
  "tn_conns (KqueueLoop_remove g s) = tn_conns s" "tn_conns (KqueueLoop_watch g ev cb s) = tn_conns s"
  "tn_conns (sys k s) = tn_conns s"
  by (auto simp: KqueueLoop_remove_def KqueueLoop_watch_def sys_def Let_def split: option.splits)

lemma put_tls_fields [simp]:
  "tn_conns (put_tls t x s) = (tn_conns s)(t \<mapsto> x)"
  "pf_calls (put_tls t x s) = pf_calls s" "el_fdEntries (put_tls t x s) = el_fdEntries s"
  by (simp_all add: put_tls_def)

definition tls_closed :: "nat \<Rightarrow> ('u, 'a) tnet_scheme \<Rightarrow> bool" where
  "tls_closed t s \<longleftrightarrow> (\<exists>x. tn_conns s t = Some x \<and> tc_closed x)"

text \<open>
  TLS connection \<open>t\<close> is open on session \<open>k\<close>, and the bytes OpenSSL has taken followed by the bytes still
  buffered are \<open>B\<close>.
\<close>

definition tls_streams :: "nat \<Rightarrow> ssl \<Rightarrow> byte list \<Rightarrow> ('u, 'a) tnet_scheme \<Rightarrow> bool" where
  "tls_streams t k B s \<longleftrightarrow> (\<exists>x. tn_conns s t = Some x \<and> \<not> tc_closed x \<and> tc_ssl x = k \<and>
     write_queue (tc_writeBuf x) \<and> encrypted k (pf_calls s) @ Buffer_linearize (tc_writeBuf x) = B)"

text \<open>TLS connection \<open>t\<close> is closed, and what OpenSSL took on session \<open>k\<close> is a prefix of \<open>B\<close>.\<close>

definition tls_ended :: "nat \<Rightarrow> ssl \<Rightarrow> byte list \<Rightarrow> ('u, 'a) tnet_scheme \<Rightarrow> bool" where
  "tls_ended t k B s \<longleftrightarrow> tls_closed t s \<and> prefix (encrypted k (pf_calls s)) B"

text \<open>Bytes that wait are waited for: the loop watches the descriptor for this connection.\<close>

definition tls_waits :: "nat \<Rightarrow> ('u, 'a) tnet_scheme \<Rightarrow> bool" where
  "tls_waits t s \<longleftrightarrow> (\<forall>x. tn_conns s t = Some x \<and> \<not> tc_closed x \<and> Buffer_linearize (tc_writeBuf x) \<noteq> [] \<longrightarrow>
     (\<exists>ev. ev \<noteq> 0 \<and> el_fdEntries s (so_fd (tc_socket x)) = Some \<lparr>fe_events = ev, fe_callback = IoTls t\<rparr>))"

definition same_tls_callbacks :: "'u TlsConnection \<Rightarrow> 'u TlsConnection \<Rightarrow> bool" where
  "same_tls_callbacks x y \<longleftrightarrow> tc_onData x = tc_onData y \<and> tc_onClose x = tc_onClose y \<and> tc_onError x = tc_onError y \<and>
     tc_onHandshakeComplete x = tc_onHandshakeComplete y \<and>
     (tc_onHandshakeError x = tc_onHandshakeError y \<or> tc_onHandshakeError x = None)"

lemma same_tls_callbacks_simps [simp]:
  "same_tls_callbacks x x" "same_tls_callbacks (x\<lparr>tc_writeBuf := b\<rparr>) y = same_tls_callbacks x y"
  "same_tls_callbacks (x\<lparr>tc_reading := r\<rparr>) y = same_tls_callbacks x y"
  "same_tls_callbacks (x\<lparr>tc_closed := r\<rparr>) y = same_tls_callbacks x y"
  "same_tls_callbacks (x\<lparr>tc_socket := k\<rparr>) y = same_tls_callbacks x y"
  "same_tls_callbacks (x\<lparr>tc_handshakeDone := r\<rparr>) y = same_tls_callbacks x y"
  "same_tls_callbacks (x\<lparr>tc_onHandshakeError := None\<rparr>) x"
  by (simp_all add: same_tls_callbacks_def)

lemma TlsConnection_close_ok:
  "tn_conns s t = Some x \<Longrightarrow> \<exists>s' x'. TlsConnection_close t s = Inr s' \<and> tn_conns s' t = Some x' \<and> tc_closed x' \<and>
     tc_onError x' = tc_onError x \<and> encrypted k (pf_calls s') = encrypted k (pf_calls s)"
  by (auto simp: TlsConnection_close_def with_tls_def tls_closed_def Socket_close_def Let_def)

lemma watchForSsl_ok:
  assumes "tn_conns s t = Some x" and "e = SSL_ERROR_WANT_WRITE \<or> e = SSL_ERROR_WANT_READ"
  shows "\<exists>ev. ev \<noteq> 0 \<and> TlsConnection_watchForSsl e t s = Inr (KqueueLoop_watch (so_fd (tc_socket x)) ev (IoTls t) s)"
proof -
  let ?ev = "(if e = SSL_ERROR_WANT_WRITE then Writable else if e = SSL_ERROR_WANT_READ then Readable else 0)
     OR (if tc_reading x then Readable else 0)"
  have "?ev \<noteq> 0" using assms(2) by auto
  moreover have "TlsConnection_watchForSsl e t s = Inr (KqueueLoop_watch (so_fd (tc_socket x)) ?ev (IoTls t) s)"
    using assms(1) by (simp add: TlsConnection_watchForSsl_def with_tls_def Let_def)
  ultimately show ?thesis by blast
qed

datatype tls_op = TlsWriteString string | TlsWriteBuffer buffer | TlsWritable

fun tls_call ::
  "openssl \<Rightarrow> ('u \<Rightarrow> Error \<Rightarrow> ('u, 'a) tnet_scheme \<Rightarrow> fault + ('u, 'a) tnet_scheme)
     \<Rightarrow> nat \<Rightarrow> tls_op \<Rightarrow> ('u, 'a) tnet_scheme \<Rightarrow> fault + ('u, 'a) tnet_scheme" where
  "tls_call lib onErr t (TlsWriteString d) s = TlsConnection_write_string lib onErr d t s"
| "tls_call lib onErr t (TlsWriteBuffer b) s = rbind (TlsConnection_write lib onErr b t s) (\<lambda>(b, s). Inr s)"
| "tls_call lib onErr t TlsWritable s = TlsConnection_doWrite lib onErr t s"

fun tls_calls ::
  "openssl \<Rightarrow> ('u \<Rightarrow> Error \<Rightarrow> ('u, 'a) tnet_scheme \<Rightarrow> fault + ('u, 'a) tnet_scheme)
     \<Rightarrow> nat \<Rightarrow> tls_op list \<Rightarrow> ('u, 'a) tnet_scheme \<Rightarrow> fault + ('u, 'a) tnet_scheme" where
  "tls_calls lib onErr t [] s = Inr s"
| "tls_calls lib onErr t (c # cs) s = rbind (tls_call lib onErr t c s) (tls_calls lib onErr t cs)"

fun tls_op_bytes :: "tls_op \<Rightarrow> byte list" where
  "tls_op_bytes (TlsWriteString d) = bytes_of_string d"
| "tls_op_bytes (TlsWriteBuffer b) = Buffer_linearize b"
| "tls_op_bytes TlsWritable = []"

fun tls_op_ok :: "tls_op \<Rightarrow> bool" where
  "tls_op_ok (TlsWriteBuffer b) = write_queue b"
| "tls_op_ok _ = True"

lemma tls_streams_put:
  assumes "tn_conns s t = Some x" and "tls_streams t k B s" and "write_queue wb"
    and "Buffer_linearize wb = Buffer_linearize (tc_writeBuf x) @ d"
  shows "tls_streams t k (B @ d) (put_tls t (x\<lparr>tc_writeBuf := wb\<rparr>) s)"
  using assms by (auto simp: tls_streams_def)

text \<open>What TLS connections ask of their owner, beyond what plain connections ask.\<close>

locale tls_invariant = conn_invariant inv
  for inv :: "('u, 'a) tnet_scheme \<Rightarrow> bool" +
  assumes inv_put_tls: "inv s \<Longrightarrow> tn_conns s t = Some y \<Longrightarrow> same_tls_callbacks x y \<Longrightarrow> inv (put_tls t x s)"
begin

lemma tls_close_inv:
  assumes "inv s" and "TlsConnection_close t s = Inr s'"
  shows "inv s'"
proof -
  obtain x where x: "tn_conns s t = Some x" using assms(2)
    by (auto simp: TlsConnection_close_def with_tls_def split: option.splits)
  have put: "inv s1 \<Longrightarrow> tn_conns s1 t = Some x \<Longrightarrow> inv (put_tls t (x\<lparr>tc_closed := True, tc_socket := k\<rparr>) s1)" for s1 k
    by (rule inv_put_tls [of _ _ x]) simp_all
  have "\<exists>s1 k. s' = s \<or> s' = put_tls t (x\<lparr>tc_closed := True, tc_socket := k\<rparr>) s1 \<and> inv s1 \<and> tn_conns s1 t = Some x"
    using assms x inv_remove [OF assms(1), of "so_fd (tc_socket x)"] inv_sys
    by (auto simp: TlsConnection_close_def with_tls_def Socket_close_def Let_def split: if_splits
        intro!: exI [of _ "tc_socket x"]) (metis loop_keeps_tls(1,3))+
  then show ?thesis using put assms(1) by blast
qed

lemma watchForSsl_inv: "inv s \<Longrightarrow> TlsConnection_watchForSsl e t s = Inr s' \<Longrightarrow> inv s'"
  by (auto simp: TlsConnection_watchForSsl_def with_tls_def Let_def inv_watch split: option.splits)

end

locale tls_error_handler = tls_invariant inv
  for inv :: "('u, 'a) tnet_scheme \<Rightarrow> bool" +
  fixes onErr :: "'u \<Rightarrow> Error \<Rightarrow> ('u, 'a) tnet_scheme \<Rightarrow> fault + ('u, 'a) tnet_scheme"
  assumes tls_err_total: "inv s \<Longrightarrow> tn_conns s t = Some x \<Longrightarrow> tc_closed x \<Longrightarrow> tc_onError x = Some cb \<Longrightarrow>
    \<exists>s'. onErr cb e s = Inr s' \<and> inv s' \<and> tls_closed t s'"
    and tls_err_silent: "onErr cb e s = Inr s' \<Longrightarrow> encrypted k (pf_calls s') = encrypted k (pf_calls s)"
begin

lemma tls_close_then_error:
  assumes "inv s" and "tn_conns s t = Some x"
  shows "\<exists>s'. rbind (TlsConnection_close t s) (run_opt (\<lambda>cb. onErr cb e) (tc_onError x)) = Inr s' \<and> inv s' \<and>
     tls_closed t s' \<and> encrypted k (pf_calls s') = encrypted k (pf_calls s)"
proof -
  obtain s1 x1 where s1: "TlsConnection_close t s = Inr s1" "tn_conns s1 t = Some x1" "tc_closed x1"
      "tc_onError x1 = tc_onError x" "encrypted k (pf_calls s1) = encrypted k (pf_calls s)"
    using TlsConnection_close_ok [OF assms(2)] by blast
  have inv1: "inv s1" by (rule tls_close_inv [OF assms(1) s1(1)])
  then show ?thesis using s1 tls_err_total [OF inv1 s1(2,3)] tls_err_silent
    by (cases "tc_onError x") (fastforce simp: tls_closed_def)+
qed

lemma doWrite_ok:
  assumes "inv s" and st: "tls_streams t k B s" and "tls_write_ok lib"
  shows "\<exists>s'. TlsConnection_doWrite lib onErr t s = Inr s' \<and> inv s' \<and>
     (tls_ended t k B s' \<or> tls_streams t k B s' \<and> tls_waits t s')"
proof -
  obtain x where x: "tn_conns s t = Some x" "\<not> tc_closed x" "tc_ssl x = k" "write_queue (tc_writeBuf x)"
      "encrypted k (pf_calls s) @ Buffer_linearize (tc_writeBuf x) = B"
    using st by (auto simp: tls_streams_def)
  obtain r buf ds where fl: "TlsConnection_flush lib k (tc_writeBuf x) s
        = Inr (r, buf, s\<lparr>pf_calls := pf_calls s @ map (CSslWrite k) ds\<rparr>)"
      "write_queue buf" "Buffer_linearize (tc_writeBuf x) = concat ds @ Buffer_linearize buf"
      "case r of TfDone \<Rightarrow> Buffer_linearize buf = []
         | TfWant e \<Rightarrow> e = SSL_ERROR_WANT_WRITE \<or> e = SSL_ERROR_WANT_READ | TfFailed \<Rightarrow> True"
    using TlsConnection_flush_ok [OF x(4) assms(3)] by blast
  let ?x = "x\<lparr>tc_writeBuf := buf\<rparr>"
  let ?s1 = "put_tls t ?x (s\<lparr>pf_calls := pf_calls s @ map (CSslWrite k) ds\<rparr>)"
  have s1: "tn_conns ?s1 t = Some ?x" by simp
  have inv1: "inv ?s1" by (rule inv_put_tls [of _ _ x]) (simp_all add: x inv_calls assms(1))
  have dw: "TlsConnection_doWrite lib onErr t s = (case r of
       TfWant err \<Rightarrow> TlsConnection_watchForSsl err t ?s1
     | TfFailed \<Rightarrow> rbind (TlsConnection_close t ?s1)
         (run_opt (\<lambda>cb. onErr cb (mkError WriteError ''SSL_write error'')) (tc_onError x))
     | TfDone \<Rightarrow> Inr (if tc_reading x then watch_tls_read t ?x ?s1 else ?s1))"
    using x fl(1) by (simp add: TlsConnection_doWrite_def with_tls_def Let_def)
  show ?thesis
  proof (cases r)
    case TfDone
    then show ?thesis using dw fl x
      by (auto simp: watch_tls_read_def tls_streams_def tls_waits_def inv1 inv_watch)
  next
    case (TfWant e)
    obtain ev where "ev \<noteq> 0" "TlsConnection_watchForSsl e t ?s1
        = Inr (KqueueLoop_watch (so_fd (tc_socket ?x)) ev (IoTls t) ?s1)"
      using watchForSsl_ok [OF s1] fl(4) TfWant by auto
    then show ?thesis using dw fl x TfWant 
      by (auto simp: tls_streams_def tls_waits_def inv1 inv_watch)
  next
    case TfFailed
    then show ?thesis using dw tls_close_then_error [OF inv1 s1, of "mkError WriteError ''SSL_write error''" k] fl x
      by (fastforce simp: tls_ended_def)
  qed
qed

lemma tls_call_ok:
  assumes "inv s" and "tls_streams t k B s" and "tls_write_ok lib" and "tls_op_ok op"
  shows "\<exists>s'. tls_call lib onErr t op s = Inr s' \<and> inv s' \<and>
     (tls_ended t k (B @ tls_op_bytes op) s' \<or> tls_streams t k (B @ tls_op_bytes op) s' \<and> tls_waits t s')"
proof -
  obtain x where x: "tn_conns s t = Some x" "\<not> tc_closed x" "write_queue (tc_writeBuf x)"
    using assms(2) by (auto simp: tls_streams_def)
  note put = tls_streams_put [OF x(1) assms(2)]
  have inv_wb: "inv (put_tls t (x\<lparr>tc_writeBuf := b\<rparr>) s)" for b
    by (rule inv_put_tls [of _ _ x]) (simp_all add: x assms(1))
  show ?thesis
  proof (cases op)
    case (TlsWriteString d)
    obtain b' where "Buffer_add_string d (tc_writeBuf x) = Inr b'" "write_queue b'"
        "Buffer_linearize b' = Buffer_linearize (tc_writeBuf x) @ bytes_of_string d"
      using wq.add_ok [OF x(3), of "bytes_of_string d"] by (auto simp: Buffer_add_string_def)
    with doWrite_ok [OF inv_wb put assms(3)] show ?thesis using x
      by (simp add: TlsWriteString TlsConnection_write_string_def with_tls_def)
  next
    case (TlsWriteBuffer b)
    obtain b' where b': "Buffer_move (tc_writeBuf x) b = (b', Buffer_new)" "write_queue b'"
        "Buffer_linearize b' = Buffer_linearize (tc_writeBuf x) @ Buffer_linearize b"
      using move_write_queue [OF x(3)] assms(4) TlsWriteBuffer by auto
    from doWrite_ok [OF inv_wb put [OF b'(2,3)] assms(3)] b'(1) show ?thesis using x
      by (auto simp: TlsWriteBuffer TlsConnection_write_def with_tls_def)
  next
    case TlsWritable
    then show ?thesis using doWrite_ok [OF assms(1-3)] by simp
  qed
qed

lemma tls_closed_call:
  "tls_closed t s \<Longrightarrow> tls_call lib onErr t op s = Inr s"
  by (cases op) (auto simp: tls_closed_def with_tls_def TlsConnection_write_string_def TlsConnection_write_def
      TlsConnection_doWrite_def)

lemma tls_closed_calls: "tls_closed t s \<Longrightarrow> tls_calls lib onErr t ops s = Inr s"
  by (induction ops) (simp_all add: tls_closed_call)

lemma tls_calls_ok:
  assumes "tls_write_ok lib"
  shows "inv s \<Longrightarrow> tls_streams t k B s \<Longrightarrow> tls_waits t s \<Longrightarrow> list_all tls_op_ok ops \<Longrightarrow>
    \<exists>s'. tls_calls lib onErr t ops s = Inr s' \<and> inv s' \<and>
     (tls_ended t k (B @ concat (map tls_op_bytes ops)) s' \<or>
      tls_streams t k (B @ concat (map tls_op_bytes ops)) s' \<and> tls_waits t s')"
proof (induction ops arbitrary: s B)
  case (Cons op ops)
  obtain s1 where s1: "tls_call lib onErr t op s = Inr s1" "inv s1"
      "tls_ended t k (B @ tls_op_bytes op) s1 \<or> tls_streams t k (B @ tls_op_bytes op) s1 \<and> tls_waits t s1"
    using tls_call_ok [OF Cons.prems(1,2) assms] Cons.prems(4) by auto
  have "tls_ended t k (B @ tls_op_bytes op) s1 \<Longrightarrow> tls_ended t k (B @ concat (map tls_op_bytes (op # ops))) s1"
    using prefix_prefix [of "encrypted k (pf_calls s1)" "B @ tls_op_bytes op"] by (auto simp: tls_ended_def)
  then show ?case using Cons.IH [of s1 "B @ tls_op_bytes op"] Cons.prems(4) s1 tls_closed_calls [of t s1 lib ops]
    by (auto simp: tls_ended_def)
qed simp

end

text \<open>
  C19: a TLS connection is a byte stream. After any sequence of writes and events, the bytes
  OpenSSL took are a prefix of the bytes that were written. Either the connection was closed on an
  error, or what OpenSSL took followed by the bytes still buffered are exactly the bytes written, in
  order, and when bytes are buffered the event loop watches the descriptor for this connection.
\<close>

theorem tls_stream:
  assumes "tn_conns s t = Some x" and "\<not> tc_closed x" and "tc_writeBuf x = Buffer_new"
    and "tls_write_ok lib" and "tls_error_handler Inv onErr" and "Inv s" and "list_all tls_op_ok ops"
  shows "\<exists>s' x'. tls_calls lib onErr t ops s = Inr s' \<and> tn_conns s' t = Some x' \<and>
     prefix (encrypted (tc_ssl x) (pf_calls s')) (encrypted (tc_ssl x) (pf_calls s) @ concat (map tls_op_bytes ops)) \<and>
     (tc_closed x' \<or>
      encrypted (tc_ssl x) (pf_calls s') @ Buffer_linearize (tc_writeBuf x')
        = encrypted (tc_ssl x) (pf_calls s) @ concat (map tls_op_bytes ops) \<and>
      (Buffer_linearize (tc_writeBuf x') = [] \<or>
       (\<exists>ev. ev \<noteq> 0 \<and> el_fdEntries s' (so_fd (tc_socket x')) = Some \<lparr>fe_events = ev, fe_callback = IoTls t\<rparr>)))"
proof -
  have st: "tls_streams t (tc_ssl x) (encrypted (tc_ssl x) (pf_calls s)) s" and wa: "tls_waits t s"
    using assms by (simp_all add: tls_streams_def tls_waits_def)
  obtain s' where "tls_calls lib onErr t ops s = Inr s'"
      "tls_ended t (tc_ssl x) (encrypted (tc_ssl x) (pf_calls s) @ concat (map tls_op_bytes ops)) s'
       \<or> tls_streams t (tc_ssl x) (encrypted (tc_ssl x) (pf_calls s) @ concat (map tls_op_bytes ops)) s'
         \<and> tls_waits t s'"
    using tls_error_handler.tls_calls_ok [OF assms(5,4,6) st wa assms(7)] by blast
  then show ?thesis by (auto simp: tls_ended_def tls_closed_def tls_streams_def tls_waits_def intro: prefixI [OF sym])
qed

definition tnet_start :: "nat tnet" where
  "tnet_start = \<lparr>pf_calls = [], el_kqFd = 3, el_running = False, el_wakeReadFd = 4, el_wakeWriteFd = 5,
     el_fdEntries = Map.empty, el_timerHeap = [], el_timers = Map.empty, el_nextTimerId = 1, el_posted = [],
     nw_conns = Map.empty, nw_nextConn = 0,
     nw_listener = \<lparr>li_bindAddr = Address_new, li_socket = Socket_new, li_hasAccept = False, li_resumeTimer = None\<rparr>,
     tn_conns = Map.empty, tn_nextTls = 0\<rparr>"

definition quiet_ssl :: openssl where
  "quiet_ssl = \<lparr>tls_ctxNew = (\<lambda>_. 100), tls_new = (\<lambda>_ _. 200), tls_doHandshake = (\<lambda>_ _. None),
     tls_read = (\<lambda>_ _ _. Inl SSL_ERROR_WANT_READ), tls_write = (\<lambda>_ _ d. Inr (length d)),
     tls_errorString = (\<lambda>_. ''error''), tls_alpnSelected = (\<lambda>_ _. [])\<rparr>"

theorem tls_stream_witness:
  "\<exists>s' x'. tls_calls (quiet_ssl\<lparr>tls_write := (\<lambda>h k d. Inr (min 1 (length d)))\<rparr>) (\<lambda>cb e s. Inr s) 0
      [TlsWriteString ''abc'', TlsWritable] (snd (TlsConnection_new quiet_ssl (Socket_of_fd 7) 100 True tnet_start))
      = Inr s' \<and> tn_conns s' 0 = Some x' \<and>
     prefix (encrypted 200 (pf_calls s')) (bytes_of_string ''abc'') \<and>
     (tc_closed x' \<or> encrypted 200 (pf_calls s') @ Buffer_linearize (tc_writeBuf x') = bytes_of_string ''abc'')"
proof -
  let ?s = "snd (TlsConnection_new quiet_ssl (Socket_of_fd 7) 100 True tnet_start)"
  let ?lib = "quiet_ssl\<lparr>tls_write := (\<lambda>h k d. Inr (min 1 (length d)))\<rparr>"
  obtain x where x: "tn_conns ?s 0 = Some x" "\<not> tc_closed x" "tc_writeBuf x = Buffer_new" "tc_ssl x = 200"
    by (simp add: TlsConnection_new_def tnet_start_def quiet_ssl_def Let_def)
  have "tls_write_ok ?lib" "list_all tls_op_ok [TlsWriteString ''abc'', TlsWritable]"
      "encrypted 200 (pf_calls ?s) = []"
    by (simp_all add: tls_write_ok_def TlsConnection_new_def tnet_start_def Let_def encrypted_def)
  moreover have "tls_error_handler (\<lambda>s :: nat tnet. True) (\<lambda>cb e s. Inr s)" by unfold_locales (auto simp: tls_closed_def)
  ultimately show ?thesis
    using tls_stream [OF x(1-3), of ?lib "\<lambda>s. True" "\<lambda>cb e s. Inr s" "[TlsWriteString ''abc'', TlsWritable]"] x(4)
    by fastforce
qed

section \<open>The handshake\<close>

text \<open>
  One step of a handshake on an open connection. When it completes, the completion callback runs
  with the connection marked as done; when OpenSSL wants to read or write, the descriptor is watched
  for exactly that and nothing else happens; when it fails, the connection is unregistered and closed
  first, then the error callback runs, once: after that a further step does nothing.
\<close>

theorem tls_handshake_step:
  assumes "tn_conns s t = Some x" and "\<not> tc_closed x" and "\<not> tc_handshakeDone x" and "\<not> tc_reading x"
    and "Socket_valid (tc_socket x)"
  shows "let s1 = sys (CSslHandshake (tc_ssl x)) s;
             f = so_fd (tc_socket x);
             res = TlsConnection_continueHandshake lib onDone onErr t s;
             failed = put_tls t (x\<lparr>tc_closed := True, tc_socket := Socket_new, tc_onHandshakeError := None\<rparr>)
                        (sys (CClose f) (KqueueLoop_remove f s1))
         in case tls_doHandshake lib (pf_calls s) (tc_ssl x) of
              None \<Rightarrow> res = run_opt onDone (tc_onHandshakeComplete x) (put_tls t (x\<lparr>tc_handshakeDone := True\<rparr>) s1)
            | Some SSL_ERROR_WANT_READ \<Rightarrow> res = Inr (KqueueLoop_watch f Readable (IoTls t) s1)
            | Some SSL_ERROR_WANT_WRITE \<Rightarrow> res = Inr (KqueueLoop_watch f Writable (IoTls t) s1)
            | Some _ \<Rightarrow>
                res = run_opt (\<lambda>cb. onErr cb (mkError TlsHandshakeFailed (tls_errorString lib (pf_calls s1))))
                        (tc_onHandshakeError x) failed \<and>
                TlsConnection_continueHandshake lib onDone onErr t failed = Inr failed \<and>
                el_fdEntries failed f = None"
proof -
  have inv: "(tc_socket x)\<lparr>so_fd := kInvalidFd\<rparr> = Socket_new" by (simp add: Socket_new_def)
  show ?thesis
    using assms inv
    by (cases "tls_doHandshake lib (pf_calls s) (tc_ssl x)"; cases "the (tls_doHandshake lib (pf_calls s) (tc_ssl x))")
       (simp_all add: TlsConnection_continueHandshake_def with_tls_def TlsConnection_watchForSsl_def
          TlsConnection_close_def Socket_close_def Let_def put_tls_def sys_def)
qed
definition tls_sample :: "nat tnet" where
  "tls_sample = snd (TlsConnection_new quiet_ssl (Socket_of_fd 7) 100 True tnet_start)"

lemma tls_sample_conn:
  obtains x where "tn_conns tls_sample 0 = Some x" "\<not> tc_closed x" "\<not> tc_handshakeDone x" "\<not> tc_reading x"
    "Socket_valid (tc_socket x)" "so_fd (tc_socket x) = 7" "tc_ssl x = 200" "tc_onHandshakeError x = None"
    "tc_onData x = None"
  by (simp add: tls_sample_def TlsConnection_new_def tnet_start_def quiet_ssl_def Socket_of_fd_def
      Socket_valid_def Let_def)

theorem tls_handshake_step_witness:
  "\<exists>s'. TlsConnection_continueHandshake (quiet_ssl\<lparr>tls_doHandshake := (\<lambda>_ _. Some SSL_ERROR_SSL)\<rparr>)
      (\<lambda>cb s. Inr s) (\<lambda>cb e s. Inr s) 0 tls_sample = Inr s' \<and> el_fdEntries s' 7 = None"
proof -
  let ?lib = "quiet_ssl\<lparr>tls_doHandshake := (\<lambda>_ _. Some SSL_ERROR_SSL)\<rparr>"
  obtain x where x: "tn_conns tls_sample 0 = Some x" "\<not> tc_closed x" "\<not> tc_handshakeDone x" "\<not> tc_reading x"
    "Socket_valid (tc_socket x)" "so_fd (tc_socket x) = 7" "tc_onHandshakeError x = None"
    using tls_sample_conn by blast
  from tls_handshake_step [OF x(1-5), of ?lib "\<lambda>cb s. Inr s" "\<lambda>cb e s. Inr s"] x(6,7) show ?thesis
    by (simp add: Let_def)
qed

section \<open>Reading\<close>

definition tls_reads :: "syscall list \<Rightarrow> nat" where
  "tls_reads cs = length (filter (\<lambda>c. case c of CSslRead k d \<Rightarrow> True | _ \<Rightarrow> False) cs)"

lemma tls_reads_append [simp]: "tls_reads (cs @ ds) = tls_reads cs + tls_reads ds"
  by (simp add: tls_reads_def)

lemma tls_reads_single [simp]: "tls_reads [CSslRead k d] = 1"
  by (simp add: tls_reads_def)

text \<open>
  The \<open>n\<close>-th \<^verbatim>\<open>SSL_read\<close> answers \<open>answer n\<close>. A data callback that returns, does not read and keeps the
  session and the data callback of the connection.
\<close>

definition read_answers :: "openssl \<Rightarrow> (nat \<Rightarrow> ssl_error + byte list) \<Rightarrow> bool" where
  "read_answers lib answer \<longleftrightarrow> (\<forall>h k n. tls_read lib h k n = answer (tls_reads h))"

definition data_cb_ok ::
  "nat \<Rightarrow> ('u \<Rightarrow> buffer \<Rightarrow> ('u, 'a) tnet_scheme \<Rightarrow> fault + ('u, 'a) tnet_scheme) \<Rightarrow> bool" where
  "data_cb_ok t onData \<longleftrightarrow> (\<forall>cb b s x. tn_conns s t = Some x \<longrightarrow> (\<exists>s' x'. onData cb b s = Inr s' \<and>
     tls_reads (pf_calls s') = tls_reads (pf_calls s) \<and> tn_conns s' t = Some x' \<and>
     tc_ssl x' = tc_ssl x \<and> tc_onData x' = tc_onData x))"

text \<open>The data callbacks of a run of chunks, in order, each on a buffer that holds its chunk.\<close>

fun deliver_data ::
  "('u \<Rightarrow> buffer \<Rightarrow> ('u, 'a) tnet_scheme \<Rightarrow> fault + ('u, 'a) tnet_scheme)
     \<Rightarrow> ssl \<Rightarrow> 'u \<Rightarrow> byte list list \<Rightarrow> ('u, 'a) tnet_scheme \<Rightarrow> fault + ('u, 'a) tnet_scheme" where
  "deliver_data onData k cb [] s = Inr s"
| "deliver_data onData k cb (bs # bss) s =
     rbind (Buffer_add bs Buffer_new)
       (\<lambda>buf. rbind (onData cb buf (sys (CSslRead k bs) s)) (deliver_data onData k cb bss))"

lemma readLoop_delivers:
  assumes "read_answers lib answer" and "data_cb_ok t onData"
  shows "tn_conns s t = Some x \<Longrightarrow> tc_ssl x = k \<Longrightarrow> tc_onData x = Some cb \<Longrightarrow> [] \<notin> set bss \<Longrightarrow>
    (\<forall>i < length bss. answer (tls_reads (pf_calls s) + i) = Inr (bss ! i)) \<Longrightarrow>
    answer (tls_reads (pf_calls s) + length bss) = Inl SSL_ERROR_WANT_READ \<Longrightarrow> length bss < fuel \<Longrightarrow>
    \<exists>s'. deliver_data onData k cb bss s = Inr s' \<and>
      TlsConnection_readLoop lib onData onClose onErr fuel t s = Inr (sys (CSslRead k []) s')"
proof (induction bss arbitrary: s x fuel)
  case Nil
  obtain n where "fuel = Suc n" using Nil.prems by (cases fuel) auto
  then show ?case using Nil.prems assms(1) by (simp add: with_tls_def read_answers_def Let_def)
next
  case (Cons bs bss)
  obtain n where n: "fuel = Suc n" "length bss < n" using Cons.prems by (cases fuel) auto
  have ans: "tls_read lib (pf_calls s) k 16384 = Inr bs" using Cons.prems(5) assms(1) by (force simp: read_answers_def)
  obtain b bs' where bs: "bs = b # bs'" using Cons.prems(4) by (cases bs) auto
  obtain buf where buf: "Buffer_add bs Buffer_new = Inr buf" using wq.add_ok [OF Buffer_new_write_queue] by blast
  let ?s = "sys (CSslRead k bs) s"
  have "tn_conns ?s t = Some x" using Cons.prems(1) by simp
  with assms(2) obtain s1 x1 where s1: "onData cb buf ?s = Inr s1"
      "tls_reads (pf_calls s1) = Suc (tls_reads (pf_calls s))" "tn_conns s1 t = Some x1"
      "tc_ssl x1 = tc_ssl x" "tc_onData x1 = tc_onData x"
    unfolding data_cb_ok_def by fastforce
  have "\<forall>i < length bss. answer (tls_reads (pf_calls s1) + i) = Inr (bss ! i)"
    using Cons.prems(5) s1(2) by (auto dest: spec [of _ "Suc _"])
  with Cons.IH [OF s1(3), of n] obtain s' where "deliver_data onData k cb bss s1 = Inr s'"
      "TlsConnection_readLoop lib onData onClose onErr n t s1 = Inr (sys (CSslRead k []) s')"
    using Cons.prems s1 n(2) by auto
  then show ?case using Cons.prems s1(1) ans n(1) bs buf by (simp add: with_tls_def Let_def)
qed

text \<open>
  C36: a readable event drains OpenSSL: the read loop returns with enough fuel, and it has handed every
  decrypted chunk to the data callback once, in order, before the \<^verbatim>\<open>SSL_read\<close> that had no more data.
\<close>

theorem tls_read_drains:
  assumes "read_answers lib answer" and "data_cb_ok t onData"
    and "tn_conns s t = Some x" and "\<not> tc_closed x" and "tc_onData x = Some cb" and "[] \<notin> set bss"
    and "\<And>i. i < length bss \<Longrightarrow> answer (tls_reads (pf_calls s) + i) = Inr (bss ! i)"
    and "answer (tls_reads (pf_calls s) + length bss) = Inl SSL_ERROR_WANT_READ" and "length bss < fuel"
  shows "\<exists>s'. deliver_data onData (tc_ssl x) cb bss s = Inr s' \<and>
     TlsConnection_doRead lib onData onClose onErr fuel t s = Inr (sys (CSslRead (tc_ssl x) []) s')"
  using readLoop_delivers [OF assms(1,2,3) refl assms(5,6) _ assms(8,9), of onClose onErr] assms(3,4,7)
  by (auto simp: TlsConnection_doRead_def with_tls_def)

definition tls_reading_sample :: "nat tnet" where
  "tls_reading_sample = put_tls 0 \<lparr>tc_socket = Socket_of_fd 7, tc_ssl = 200, tc_isServer = True, tc_closed = False,
     tc_handshakeDone = True, tc_reading = True, tc_writeBuf = Buffer_new, tc_onData = Some 5,
     tc_onClose = None, tc_onError = None, tc_onHandshakeComplete = None, tc_onHandshakeError = None\<rparr> tnet_start"

theorem tls_read_drains_witness:
  "\<exists>s'. TlsConnection_doRead (quiet_ssl\<lparr>tls_read := (\<lambda>h k n. if tls_reads h = 0 then Inr [1, 2] else Inl SSL_ERROR_WANT_READ)\<rparr>)
     (\<lambda>cb b s. Inr s) (\<lambda>cb s. Inr s) (\<lambda>cb e s. Inr s) 2 0 tls_reading_sample = Inr s' \<and>
     pf_calls s' = [CSslRead 200 [1, 2], CSslRead 200 []]"
proof -
  let ?ans = "\<lambda>n. if n = 0 then Inr [1, 2] else (Inl SSL_ERROR_WANT_READ :: ssl_error + byte list)"
  let ?lib = "quiet_ssl\<lparr>tls_read := (\<lambda>h k n. ?ans (tls_reads h))\<rparr>"
  let ?s = tls_reading_sample
  obtain x where x: "tn_conns ?s 0 = Some x" "\<not> tc_closed x" "tc_onData x = Some 5" "tc_ssl x = 200"
    by (simp add: tls_reading_sample_def)
  have calls: "pf_calls ?s = []" by (simp add: tls_reading_sample_def tnet_start_def)
  have zero: "tls_reads (pf_calls ?s) = 0" by (simp add: calls tls_reads_def)
  have ok: "read_answers ?lib ?ans" "data_cb_ok 0 (\<lambda>cb b s :: nat tnet. Inr s)"
    by (auto simp: read_answers_def data_cb_ok_def)
  obtain s' where s': "deliver_data (\<lambda>cb b s :: nat tnet. Inr s) 200 5 [[1, 2]] ?s = Inr s'"
      "TlsConnection_doRead ?lib (\<lambda>cb b s. Inr s) (\<lambda>cb s. Inr s) (\<lambda>cb e s. Inr s) 2 0 ?s = Inr (sys (CSslRead 200 []) s')"
    using tls_read_drains [OF ok x(1-3), of "[[1, 2]]" 2 "\<lambda>cb s. Inr s" "\<lambda>cb e s. Inr s"] x(4) by (auto simp: zero)
  obtain buf where "Buffer_add [1, 2] Buffer_new = Inr buf" using wq.add_ok [OF Buffer_new_write_queue] by blast
  then show ?thesis using s' calls by auto
qed

lemma close_is_data_cb: "data_cb_ok t (\<lambda>cb b. TlsConnection_close t)"
  unfolding data_cb_ok_def
proof (intro allI impI)
  fix s :: "('a, 'b) tnet_scheme" and x
  assume x: "tn_conns s t = Some x"
  have "tls_reads (pf_calls (KqueueLoop_remove f s)) = tls_reads (pf_calls s)" for f
    by (simp add: KqueueLoop_remove_def tls_reads_def split: option.splits)
  then show "\<exists>s' x'. TlsConnection_close t s = Inr s' \<and> tls_reads (pf_calls s') = tls_reads (pf_calls s) \<and>
      tn_conns s' t = Some x' \<and> tc_ssl x' = tc_ssl x \<and> tc_onData x' = tc_onData x"
    using x by (cases "tc_closed x"; cases "tc_handshakeDone x"; cases "Socket_valid (tc_socket x)")
      (simp_all add: TlsConnection_close_def with_tls_def Socket_close_def Let_def tls_reads_def [of "_ # _"])
qed

text \<open>
  The read loop does not look at the closed flag again after a data callback: when the callback
  closes the connection, \<^verbatim>\<open>SSL_read\<close> is called once more, on the closed connection.
\<close>

theorem tls_reads_after_close:
  assumes "read_answers lib answer" and "tn_conns s t = Some x" and "\<not> tc_closed x" and "tc_onData x = Some cb"
    and "bs \<noteq> []" and "answer (tls_reads (pf_calls s)) = Inr bs"
    and "answer (Suc (tls_reads (pf_calls s))) = Inl SSL_ERROR_WANT_READ"
  shows "\<exists>s1. TlsConnection_close t (sys (CSslRead (tc_ssl x) bs) s) = Inr s1 \<and> tls_closed t s1 \<and>
     TlsConnection_doRead lib (\<lambda>cb b. TlsConnection_close t) onClose onErr (Suc (Suc fuel)) t s
       = Inr (sys (CSslRead (tc_ssl x) []) s1)"
proof -
  obtain s1 where "deliver_data (\<lambda>cb b. TlsConnection_close t) (tc_ssl x) cb [bs] s = Inr s1"
      "TlsConnection_doRead lib (\<lambda>cb b. TlsConnection_close t) onClose onErr (Suc (Suc fuel)) t s
       = Inr (sys (CSslRead (tc_ssl x) []) s1)"
    using readLoop_delivers [OF assms(1) close_is_data_cb assms(2) refl assms(4), of "[bs]" "Suc (Suc fuel)" onClose onErr]
      assms by (auto simp: TlsConnection_doRead_def with_tls_def simp del: TlsConnection_readLoop.simps)
  moreover have "tn_conns (sys (CSslRead (tc_ssl x) bs) s) t = Some x" using assms(2) by simp
  ultimately show ?thesis using TlsConnection_close_ok [of "sys (CSslRead (tc_ssl x) bs) s" t x]
    by (auto simp: res_iff tls_closed_def)
qed

theorem tls_reads_after_close_witness:
  "\<exists>s1. TlsConnection_close 0 (sys (CSslRead 200 [1]) tls_reading_sample) = Inr s1 \<and> tls_closed 0 s1 \<and>
     TlsConnection_doRead (quiet_ssl\<lparr>tls_read := (\<lambda>h k n. if tls_reads h = 0 then Inr [1] else Inl SSL_ERROR_WANT_READ)\<rparr>)
       (\<lambda>cb b. TlsConnection_close 0) (\<lambda>cb s. Inr s) (\<lambda>cb e s. Inr s) 2 0 tls_reading_sample
       = Inr (sys (CSslRead 200 []) s1)"
proof -
  let ?ans = "\<lambda>n. if n = 0 then Inr [1] else (Inl SSL_ERROR_WANT_READ :: ssl_error + byte list)"
  let ?lib = "quiet_ssl\<lparr>tls_read := (\<lambda>h k n. ?ans (tls_reads h))\<rparr>"
  obtain x where x: "tn_conns tls_reading_sample 0 = Some x" "\<not> tc_closed x" "tc_onData x = Some 5" "tc_ssl x = 200"
    by (simp add: tls_reading_sample_def)
  have zero: "tls_reads (pf_calls tls_reading_sample) = 0"
    by (simp add: tls_reading_sample_def tnet_start_def tls_reads_def)
  have ok: "read_answers ?lib ?ans" by (simp add: read_answers_def)
  show ?thesis
    using tls_reads_after_close [OF ok x(1-3), of "[1]" "\<lambda>cb s. Inr s" "\<lambda>cb e s. Inr s" 0] x(4)
    by (simp add: zero numeral_2_eq_2 del: TlsConnection_readLoop.simps)
qed

section \<open>What the operations keep of an invariant of the owner\<close>

lemma TlsConnection_flush_calls:
  "TlsConnection_flush lib ssl buf s = Inr (r, buf', s') \<Longrightarrow> \<exists>cs. s' = s\<lparr>pf_calls := pf_calls s @ cs\<rparr>"
proof (induction lib ssl buf s rule: TlsConnection_flush.induct)
  case (1 lib ssl buf s)
  note simps = TlsConnection_flush.simps [of lib ssl buf s]
  show ?case
  proof (cases "Buffer_empty buf \<or> Buffer_slices buf = [] \<or> front_data buf = []")
    case True
    then show ?thesis using "1.prems" by (auto simp: simps intro: exI [of _ "[]"])
  next
    case False
    let ?r = "tls_write lib (pf_calls s) ssl (front_data buf)"
    show ?thesis
    proof (cases "\<exists>n. ?r = Inr n \<and> n \<noteq> 0")
      case stop: False
      then show ?thesis using "1.prems" False by (auto simp: simps sys_def Let_def split: sum.splits if_splits)
    next
      case True
      then obtain n where n: "?r = Inr n" "n \<noteq> 0" by blast
      then obtain b1 where b1: "Buffer_drain n buf = Inr b1"
          "TlsConnection_flush lib ssl b1 (sys (CSslWrite ssl (take n (front_data buf))) s) = Inr (r, buf', s')"
        using "1.prems" False by (auto simp: simps res_iff Let_def)
      from "1.IH" [OF False refl refl n b1(1)] n b1(2) show ?thesis by (auto simp: sys_def)
    qed
  qed
qed

locale tls_keeper = tls_invariant inv + conn_keeper inv onErr
  for inv :: "('u, 'a) tnet_scheme \<Rightarrow> bool"
    and onErr :: "'u \<Rightarrow> Error \<Rightarrow> ('u, 'a) tnet_scheme \<Rightarrow> fault + ('u, 'a) tnet_scheme"
begin

lemma doWrite_keeps:
  assumes "inv s" and "TlsConnection_doWrite lib onErr t s = Inr s'"
  shows "inv s'"
proof -
  obtain x where x: "tn_conns s t = Some x" using assms(2)
    by (auto simp: TlsConnection_doWrite_def with_tls_def split: option.splits)
  show ?thesis
  proof (cases "tc_closed x")
    case True
    then show ?thesis using x assms by (simp add: TlsConnection_doWrite_def with_tls_def)
  next
    case False
    then obtain r buf s1 where fl: "TlsConnection_flush lib (tc_ssl x) (tc_writeBuf x) s = Inr (r, buf, s1)"
      using assms(2) x by (auto simp: TlsConnection_doWrite_def with_tls_def res_iff)
    obtain cs where cs: "s1 = s\<lparr>pf_calls := pf_calls s @ cs\<rparr>" using TlsConnection_flush_calls [OF fl] by blast
    let ?s2 = "put_tls t (x\<lparr>tc_writeBuf := buf\<rparr>) s1"
    have "inv ?s2" by (rule inv_put_tls [of _ _ x]) (simp_all add: cs x inv_calls assms(1))
    then show ?thesis using assms(2) x False fl
      by (auto simp: TlsConnection_doWrite_def with_tls_def res_iff Let_def watch_tls_read_def inv_watch
          split: tls_flush.splits if_splits dest: run_error_keeps watchForSsl_inv tls_close_inv)
  qed
qed

lemma tls_write_keeps:
  assumes "inv s" and "TlsConnection_write lib onErr d t s = Inr (d', s')"
  shows "inv s'"
proof -
  obtain x where x: "tn_conns s t = Some x" using assms(2)
    by (auto simp: TlsConnection_write_def with_tls_def split: option.splits)
  have "inv (put_tls t (x\<lparr>tc_writeBuf := b\<rparr>) s)" for b by (rule inv_put_tls [of _ _ x]) (simp_all add: x assms(1))
  then show ?thesis using assms x
    by (auto simp: TlsConnection_write_def with_tls_def res_iff split: if_splits prod.splits dest: doWrite_keeps)
qed

lemma tls_write_string_keeps:
  assumes "inv s" and "TlsConnection_write_string lib onErr d t s = Inr s'"
  shows "inv s'"
proof -
  obtain x where x: "tn_conns s t = Some x" using assms(2)
    by (auto simp: TlsConnection_write_string_def with_tls_def split: option.splits)
  have "inv (put_tls t (x\<lparr>tc_writeBuf := b\<rparr>) s)" for b by (rule inv_put_tls [of _ _ x]) (simp_all add: x assms(1))
  then show ?thesis using assms x
    by (auto simp: TlsConnection_write_string_def with_tls_def res_iff split: if_splits dest: doWrite_keeps)
qed

lemma tls_startRead_keeps:
  assumes "inv s" and "TlsConnection_startRead t s = Inr s'"
  shows "inv s'"
proof -
  obtain x where x: "tn_conns s t = Some x" using assms(2)
    by (auto simp: TlsConnection_startRead_def with_tls_def split: option.splits)
  have "inv (put_tls t (x\<lparr>tc_reading := True\<rparr>) s)" by (rule inv_put_tls [of _ _ x]) (simp_all add: x assms(1))
  then show ?thesis using assms x
    by (auto simp: TlsConnection_startRead_def with_tls_def watch_tls_read_def inv_watch split: if_splits)
qed

lemma handshake_keeps:
  assumes "inv s" and hs: "TlsConnection_continueHandshake lib onDone onErr t s = Inr s'"
    and onDone: "\<And>cb s s'. inv s \<Longrightarrow> onDone cb s = Inr s' \<Longrightarrow> inv s'"
  shows "inv s'"
proof -
  have opt: "run_opt onDone q u = Inr u' \<Longrightarrow> inv u \<Longrightarrow> inv u'" for q u u'
    by (cases q) (auto dest: onDone)
  obtain x where x: "tn_conns s t = Some x" using hs
    by (auto simp: TlsConnection_continueHandshake_def with_tls_def split: option.splits)
  let ?s1 = "sys (CSslHandshake (tc_ssl x)) s"
  have inv1: "inv ?s1" using inv_sys [OF assms(1)] .
  have dn: "inv (put_tls t (x\<lparr>tc_handshakeDone := True\<rparr>) ?s1)"
    by (rule inv_put_tls [of _ _ x]) (simp_all add: x inv1)
  have mv: "inv (put_tls t (y\<lparr>tc_onHandshakeError := None\<rparr>) u)" if "inv u" "tn_conns u t = Some y" for u y
    by (rule inv_put_tls [OF that]) simp
  have fl: "inv u'" if "TlsConnection_close t ?s1 = Inr u" "tn_conns u t = Some y"
      "run_opt (\<lambda>cb. onErr cb e) q (put_tls t (y\<lparr>tc_onHandshakeError := None\<rparr>) u) = Inr u'" for u u' y e q
    by (rule run_error_keeps [OF mv [OF tls_close_inv [OF inv1 that(1)] that(2)] that(3)])
  show ?thesis using hs x inv1 dn assms(1) opt fl
    by (auto simp: TlsConnection_continueHandshake_def res_iff Let_def
        split: if_splits option.splits dest: watchForSsl_inv)
qed

lemma readLoop_keeps:
  assumes onData: "\<And>cb b s s'. inv s \<Longrightarrow> onData cb b s = Inr s' \<Longrightarrow> inv s'"
    and onClose: "\<And>cb s s'. inv s \<Longrightarrow> onClose cb s = Inr s' \<Longrightarrow> inv s'"
  shows "inv s \<Longrightarrow> TlsConnection_readLoop lib onData onClose onErr fuel t s = Inr s' \<Longrightarrow> inv s'"
proof (induction fuel arbitrary: s)
  case (Suc fuel)
  have opt: "run_opt (\<lambda>cb. onData cb b) q u = Inr u' \<Longrightarrow> inv u \<Longrightarrow> inv u'"
    "run_opt onClose q u = Inr u' \<Longrightarrow> inv u \<Longrightarrow> inv u'" for b q u u'
    by (cases q; auto dest: onData onClose)+
  obtain x where x: "tn_conns s t = Some x" using Suc.prems(2)
    by (auto simp: with_tls_def split: option.splits)
  note inv1 = inv_sys [OF Suc.prems(1)]
  have cl: "TlsConnection_close t (sys k s) = Inr u \<Longrightarrow> inv u" for k u by (rule tls_close_inv [OF inv1])
  show ?case using Suc.prems(2) x
    by (auto simp: with_tls_def res_iff Let_def split: if_splits sum.splits list.splits
        intro: inv1 dest: opt cl Suc.IH run_error_keeps [rotated])
qed simp

lemma handleIo_keeps:
  assumes "inv s" and io: "TlsConnection_handleIo lib onData onCall onErr fuel t s = Inr s'"
    and onData: "\<And>cb b s s'. inv s \<Longrightarrow> onData cb b s = Inr s' \<Longrightarrow> inv s'"
    and onCall: "\<And>cb s s'. inv s \<Longrightarrow> onCall cb s = Inr s' \<Longrightarrow> inv s'"
  shows "inv s'"
proof -
  have hs: "TlsConnection_continueHandshake lib onCall onErr t s = Inr u \<Longrightarrow> inv u" for u
    by (rule handshake_keeps [OF assms(1) _ onCall])
  have rd: "TlsConnection_readLoop lib onData onCall onErr fuel t s = Inr u \<Longrightarrow> inv u" for u
    by (rule readLoop_keeps [OF onData onCall assms(1)])
  show ?thesis using io assms(1) hs rd
    by (auto simp: TlsConnection_handleIo_def TlsConnection_doRead_def res_iff
        split: if_splits dest: doWrite_keeps)
qed

end

end
