(* ===== verification/Header_Map.thy ===== *)
theory Header_Map
  imports DS_Prelude "HOL-Library.List_Lexorder"
begin

text \<open>
  \<^verbatim>\<open>Http/HeaderMap.hpp\<close>: HTTP headers under case-insensitive names, and \<^verbatim>\<open>Http/Message.hpp\<close>: methods,
  requests and responses. The storage \<^verbatim>\<open>std::map<std::string, std::string, CaseInsensitiveLess>\<close> is the
  list of its entries in iteration order; \<open>map_find\<close>, \<open>map_assign\<close> and \<open>map_erase\<close> are the map's
  \<^verbatim>\<open>find\<close>, \<^verbatim>\<open>operator[]\<close> assignment (which keeps the spelling of a key already present) and \<^verbatim>\<open>erase\<close>.
\<close>

section \<open>Case-insensitive order\<close>

definition ci_val :: "char \<Rightarrow> nat" where
  "ci_val c = of_char (tolower c)"

fun CaseInsensitiveLess :: "string \<Rightarrow> string \<Rightarrow> bool" where
  "CaseInsensitiveLess xs [] = False"
| "CaseInsensitiveLess [] (y # ys) = True"
| "CaseInsensitiveLess (x # xs) (y # ys) =
     (if ci_val x < ci_val y then True
      else if ci_val y < ci_val x then False
      else CaseInsensitiveLess xs ys)"

section \<open>The header map\<close>

type_synonym HeaderMap = "(string \<times> string) list"

fun map_find :: "string \<Rightarrow> HeaderMap \<Rightarrow> (string \<times> string) option" where
  "map_find n [] = None"
| "map_find n ((k, v) # h) =
     (if CaseInsensitiveLess n k then None
      else if CaseInsensitiveLess k n then map_find n h
      else Some (k, v))"

fun map_assign :: "string \<Rightarrow> string \<Rightarrow> HeaderMap \<Rightarrow> HeaderMap" where
  "map_assign n x [] = [(n, x)]"
| "map_assign n x ((k, v) # h) =
     (if CaseInsensitiveLess n k then (n, x) # (k, v) # h
      else if CaseInsensitiveLess k n then (k, v) # map_assign n x h
      else (k, x) # h)"

fun map_erase :: "string \<Rightarrow> HeaderMap \<Rightarrow> HeaderMap" where
  "map_erase n [] = []"
| "map_erase n ((k, v) # h) =
     (if CaseInsensitiveLess n k then (k, v) # h
      else if CaseInsensitiveLess k n then (k, v) # map_erase n h
      else h)"

definition HeaderMap_set :: "string \<Rightarrow> string \<Rightarrow> HeaderMap \<Rightarrow> HeaderMap" where
  "HeaderMap_set n x h = map_assign n x h"

definition HeaderMap_append :: "string \<Rightarrow> string \<Rightarrow> HeaderMap \<Rightarrow> HeaderMap" where
  "HeaderMap_append n x h =
     (case map_find n h of
        Some (k, v) \<Rightarrow> map_assign n (v @ '', '' @ x) h
      | None \<Rightarrow> map_assign n x h)"

definition HeaderMap_remove :: "string \<Rightarrow> HeaderMap \<Rightarrow> HeaderMap" where
  "HeaderMap_remove n h = (case map_find n h of Some _ \<Rightarrow> map_erase n h | None \<Rightarrow> h)"

definition HeaderMap_has :: "string \<Rightarrow> HeaderMap \<Rightarrow> bool" where
  "HeaderMap_has n h = (map_find n h \<noteq> None)"

definition HeaderMap_get :: "string \<Rightarrow> HeaderMap \<Rightarrow> string option" where
  "HeaderMap_get n h = (case map_find n h of Some (k, v) \<Rightarrow> Some v | None \<Rightarrow> None)"

definition HeaderMap_contentType :: "HeaderMap \<Rightarrow> string option" where
  "HeaderMap_contentType h = HeaderMap_get ''Content-Type'' h"

definition HeaderMap_contentDisposition :: "HeaderMap \<Rightarrow> string option" where
  "HeaderMap_contentDisposition h = HeaderMap_get ''Content-Disposition'' h"

definition HeaderMap_transferEncoding :: "HeaderMap \<Rightarrow> string option" where
  "HeaderMap_transferEncoding h = HeaderMap_get ''Transfer-Encoding'' h"

definition HeaderMap_contentLength :: "HeaderMap \<Rightarrow> u64 option" where
  "HeaderMap_contentLength h =
     (case HeaderMap_get ''Content-Length'' h of
        None \<Rightarrow> None
      | Some v \<Rightarrow> (case stoull v of Inl e \<Rightarrow> None | Inr n \<Rightarrow> Some n))"

definition HeaderMap_size :: "HeaderMap \<Rightarrow> nat" where
  "HeaderMap_size h = length h"

text \<open>\<^verbatim>\<open>bool empty() const { return headers_.size(); }\<close>, the size converted to a \<^verbatim>\<open>bool\<close>.\<close>

definition HeaderMap_empty :: "HeaderMap \<Rightarrow> bool" where
  "HeaderMap_empty h \<longleftrightarrow> length h \<noteq> 0"

definition header_map_wf :: "HeaderMap \<Rightarrow> bool" where
  "header_map_wf h \<longleftrightarrow> sorted_wrt (\<lambda>a b. CaseInsensitiveLess (fst a) (fst b)) h"

section \<open>Methods and messages\<close>

datatype HttpMethod =
  GET | POST | PUT | DELETE | PATCH | HEAD | OPTIONS | CONNECT | TRACE | UNKNOWN

fun methodToString :: "HttpMethod \<Rightarrow> string" where
  "methodToString GET = ''GET''"
| "methodToString POST = ''POST''"
| "methodToString PUT = ''PUT''"
| "methodToString DELETE = ''DELETE''"
| "methodToString PATCH = ''PATCH''"
| "methodToString HEAD = ''HEAD''"
| "methodToString OPTIONS = ''OPTIONS''"
| "methodToString CONNECT = ''CONNECT''"
| "methodToString TRACE = ''TRACE''"
| "methodToString UNKNOWN = ''UNKNOWN''"

definition stringToMethod :: "string \<Rightarrow> HttpMethod" where
  "stringToMethod s =
     (if s = ''GET'' then GET
      else if s = ''POST'' then POST
      else if s = ''PUT'' then PUT
      else if s = ''DELETE'' then DELETE
      else if s = ''PATCH'' then PATCH
      else if s = ''HEAD'' then HEAD
      else if s = ''OPTIONS'' then OPTIONS
      else if s = ''CONNECT'' then CONNECT
      else if s = ''TRACE'' then TRACE
      else if s = ''UNKNOWN'' then UNKNOWN
      else UNKNOWN)"

record HttpRequest =
  rq_method :: HttpMethod
  rq_url :: string
  rq_host :: string
  rq_port :: u16
  rq_versionMajor :: u8
  rq_versionMinor :: u8
  rq_headers :: HeaderMap
  rq_hasBody :: bool

definition HttpRequest_new :: HttpRequest where
  "HttpRequest_new = \<lparr>rq_method = UNKNOWN, rq_url = [], rq_host = [], rq_port = 80,
     rq_versionMajor = 1, rq_versionMinor = 1, rq_headers = [], rq_hasBody = False\<rparr>"

record HttpResponse =
  rs_statusCode :: u16
  rs_reason :: string
  rs_versionMajor :: u8
  rs_versionMinor :: u8
  rs_headers :: HeaderMap
  rs_hasBody :: bool

definition HttpResponse_new :: HttpResponse where
  "HttpResponse_new = \<lparr>rs_statusCode = 0, rs_reason = [], rs_versionMajor = 1,
     rs_versionMinor = 1, rs_headers = [], rs_hasBody = False\<rparr>"

section \<open>The order and the entries\<close>

definition ci_key :: "string \<Rightarrow> nat list" where
  "ci_key s = map ci_val s"

lemma ci_less_key: "CaseInsensitiveLess a b \<longleftrightarrow> ci_key a < ci_key b"
  by (induction a b rule: CaseInsensitiveLess.induct) (auto simp: ci_key_def)

lemma header_map_wf_Nil [simp]: "header_map_wf []"
  by (simp add: header_map_wf_def)

lemma header_map_wf_Cons:
  "header_map_wf ((k, v) # h) \<longleftrightarrow> (\<forall>(k', _) \<in> set h. ci_key k < ci_key k') \<and> header_map_wf h"
  by (auto simp: header_map_wf_def ci_less_key)

lemma map_find_Some:
  "map_find n h = Some (k, v) \<Longrightarrow> ci_key k = ci_key n \<and> (k, v) \<in> set h"
  by (induction n h rule: map_find.induct) (auto simp: ci_less_key split: if_splits)

lemma map_find_None:
  "header_map_wf h \<Longrightarrow> map_find n h = None \<longleftrightarrow> (\<forall>(k, v) \<in> set h. ci_key k \<noteq> ci_key n)"
  by (induction n h rule: map_find.induct) (force simp: ci_less_key header_map_wf_Cons)+

lemma map_find_key_cong: "ci_key n = ci_key m \<Longrightarrow> map_find n h = map_find m h"
  by (induction n h rule: map_find.induct) (auto simp: ci_less_key)

lemma map_find_assign:
  "header_map_wf h \<Longrightarrow> map_option snd (map_find m (map_assign n x h)) =
     (if ci_key m = ci_key n then Some x else map_option snd (map_find m h))"
proof (induction n x h rule: map_assign.induct)
  case (2 n x k v h)
  then show ?case
    by (cases "ci_key n" "ci_key k" rule: linorder_cases; cases "ci_key m" "ci_key k" rule: linorder_cases;
        cases "ci_key m" "ci_key n" rule: linorder_cases)
       (auto simp: ci_less_key header_map_wf_Cons)
qed (auto simp: ci_less_key)

lemma map_assign_keys:
  "ci_key ` fst ` set (map_assign n x h) = insert (ci_key n) (ci_key ` fst ` set h)"
  by (induction n x h rule: map_assign.induct) (auto simp: ci_less_key not_less)

lemma map_assign_wf: "header_map_wf h \<Longrightarrow> header_map_wf (map_assign n x h)"
proof (induction n x h rule: map_assign.induct)
  case (2 n x k v h)
  have keys: "ci_key k < ci_key k'" if "ci_key k < ci_key n" "(k', v') \<in> set (map_assign n x h)" for k' v'
  proof -
    have "ci_key k' \<in> ci_key ` fst ` set (map_assign n x h)" using that(2) by force
    then show ?thesis using that(1) "2.prems" by (auto simp: map_assign_keys header_map_wf_Cons)
  qed
  show ?case
    using 2 keys
    by (cases "ci_key n" "ci_key k" rule: linorder_cases) (fastforce simp: ci_less_key header_map_wf_Cons)+
qed (simp add: header_map_wf_def)

lemma map_erase_subset: "set (map_erase n h) \<subseteq> set h"
  by (induction n h rule: map_erase.induct) auto

lemma map_erase_wf: "header_map_wf h \<Longrightarrow> header_map_wf (map_erase n h)"
  by (induction n h rule: map_erase.induct)
     (auto simp: header_map_wf_Cons dest: map_erase_subset [THEN subsetD])

lemma map_find_erase:
  "header_map_wf h \<Longrightarrow> map_find m (map_erase n h) =
     (if ci_key m = ci_key n then None else map_find m h)"
proof (induction n h rule: map_erase.induct)
  case (2 n k v h)
  have "map_find m h = None" if "ci_key m \<le> ci_key k"
    using that 2(2) by (subst map_find_None) (fastforce simp: header_map_wf_Cons)+
  with 2 show ?case
    by (cases "ci_key n" "ci_key k" rule: linorder_cases) (auto simp: ci_less_key header_map_wf_Cons)
qed auto

section \<open>The interface the codec and the proxy use\<close>

locale header_store =
  fixes invar :: "'h \<Rightarrow> bool" and key :: "string \<Rightarrow> 'k" and nothing :: 'h
    and get :: "string \<Rightarrow> 'h \<Rightarrow> string option"
    and set :: "string \<Rightarrow> string \<Rightarrow> 'h \<Rightarrow> 'h" and remove :: "string \<Rightarrow> 'h \<Rightarrow> 'h"
  assumes invar_nothing: "invar nothing" and get_nothing: "get n nothing = None"
    and invar_set: "invar h \<Longrightarrow> invar (set n v h)"
    and invar_remove: "invar h \<Longrightarrow> invar (remove n h)"
    and get_set: "invar h \<Longrightarrow> get m (set n v h) = (if key m = key n then Some v else get m h)"
    and get_remove: "invar h \<Longrightarrow> get m (remove n h) = (if key m = key n then None else get m h)"
begin

lemma remove_all:
  "invar h \<Longrightarrow> invar (fold remove ns h) \<and>
     get m (fold remove ns h) = (if key m \<in> key ` List.set ns then None else get m h)"
  by (induction ns arbitrary: h) (auto simp: invar_remove get_remove)

lemma set_all:
  "invar h \<Longrightarrow> invar (fold (\<lambda>(n, v). set n v) nvs h) \<and>
     get m (fold (\<lambda>(n, v). set n v) nvs h) =
       (case filter (\<lambda>(n, v). key n = key m) (rev nvs) of [] \<Rightarrow> get m h | (n, v) # _ \<Rightarrow> Some v)"
proof (induction nvs arbitrary: h rule: rev_induct)
  case Nil
  then show ?case by simp
next
  case (snoc nv nvs)
  then show ?case by (cases nv) (auto simp: invar_set get_set)
qed

end

lemma HeaderMap_get_find: "HeaderMap_get n h = map_option snd (map_find n h)"
  by (simp add: HeaderMap_get_def split: option.split)

lemma HeaderMap_remove_erase: "header_map_wf h \<Longrightarrow> map_find m (HeaderMap_remove n h) =
     (if ci_key m = ci_key n then None else map_find m h)"
  using map_find_key_cong [of m n h]
  by (auto simp: HeaderMap_remove_def map_find_erase split: option.split)

lemma HeaderMap_remove_wf: "header_map_wf h \<Longrightarrow> header_map_wf (HeaderMap_remove n h)"
  by (simp add: HeaderMap_remove_def map_erase_wf split: option.split)

interpretation hm: header_store header_map_wf ci_key "[]" HeaderMap_get HeaderMap_set HeaderMap_remove
  by unfold_locales
     (simp_all add: HeaderMap_get_find HeaderMap_set_def map_find_assign map_assign_wf
        HeaderMap_remove_erase HeaderMap_remove_wf)

lemma HeaderMap_append_set:
  "HeaderMap_append n v h =
     HeaderMap_set n (case HeaderMap_get n h of None \<Rightarrow> v | Some w \<Rightarrow> w @ '', '' @ v) h"
  by (auto simp: HeaderMap_append_def HeaderMap_set_def HeaderMap_get_def split: option.split)

text \<open>On a well-formed map \<open>remove\<close> keeps the entries of the other names.\<close>

lemma HeaderMap_remove_filter:
  assumes "header_map_wf h"
  shows "HeaderMap_remove n h = filter (\<lambda>(k, v). ci_key k \<noteq> ci_key n) h"
proof -
  have all: "filter (\<lambda>(k, v). ci_key k \<noteq> ci_key n) h = h" if "\<forall>(k, v) \<in> set h. ci_key k \<noteq> ci_key n" for h :: HeaderMap and n
    using that by (induction h) auto
  have "map_erase n h = filter (\<lambda>(k, v). ci_key k \<noteq> ci_key n) h"
    using assms
  proof (induction n h rule: map_erase.induct)
    case (2 n k v h)
    have gt: "\<forall>(k', v') \<in> set h. ci_key k < ci_key k'" and wf: "header_map_wf h" using "2.prems" by (simp_all add: header_map_wf_Cons)
    show ?case
    proof (cases "ci_key k < ci_key n")
      case True
      then show ?thesis using "2.IH" wf by (auto simp: ci_less_key)
    next
      case False
      then have "\<forall>(k', v') \<in> set h. ci_key k' \<noteq> ci_key n" using gt by fastforce
      then have "filter (\<lambda>(k, v). ci_key k \<noteq> ci_key n) h = h" by (rule all)
      then show ?thesis using False by (auto simp: ci_less_key)
    qed
  qed simp
  then show ?thesis using all map_find_None [OF assms, of n] by (auto simp: HeaderMap_remove_def split: option.split)
qed

lemma set_all_wf: "header_map_wf h \<Longrightarrow> header_map_wf (fold (\<lambda>(n, x). HeaderMap_set n x) nvs h)"
  by (induction nvs arbitrary: h) (auto simp: HeaderMap_set_def map_assign_wf)

section \<open>Properties\<close>

text \<open>
  C24: the header map behaves as a map from case-folded names. After \<open>set\<close> the value is found under
  every spelling of the name, after \<open>append\<close> the old value and the new one joined by a comma and a
  space, after \<open>remove\<close> nothing; other names keep their values, and the entries stay sorted and
  free of duplicates.
\<close>

theorem HeaderMap_laws:
  assumes "header_map_wf h"
  shows "HeaderMap_get m (HeaderMap_set n v h) =
           (if ci_key m = ci_key n then Some v else HeaderMap_get m h) \<and>
         HeaderMap_get m (HeaderMap_append n v h) =
           (if ci_key m = ci_key n
            then Some (case HeaderMap_get n h of None \<Rightarrow> v | Some w \<Rightarrow> w @ '', '' @ v)
            else HeaderMap_get m h) \<and>
         HeaderMap_get m (HeaderMap_remove n h) =
           (if ci_key m = ci_key n then None else HeaderMap_get m h) \<and>
         HeaderMap_has m h = (HeaderMap_get m h \<noteq> None) \<and>
         header_map_wf (HeaderMap_set n v h) \<and> header_map_wf (HeaderMap_append n v h) \<and>
         header_map_wf (HeaderMap_remove n h)"
  using hm.get_set [OF assms] hm.get_remove [OF assms] hm.invar_set [OF assms] hm.invar_remove [OF assms]
  by (simp add: HeaderMap_append_set HeaderMap_has_def HeaderMap_get_find)

theorem HeaderMap_laws_witness:
  "HeaderMap_get ''HOST'' (HeaderMap_set ''Host'' ''b'' [(''Accept'', ''x''), (''host'', ''a'')]) = Some ''b''"
proof -
  have "header_map_wf [(''Accept'', ''x''), (''host'', ''a'')]" by code_simp
  moreover have "ci_key ''HOST'' = ci_key ''Host''" by code_simp
  ultimately show ?thesis
    using HeaderMap_laws [of "[(''Accept'', ''x''), (''host'', ''a'')]" "''HOST''" "''Host''" "''b''"]
    by (simp only: simp_thms if_True)
qed

text \<open>
  \<open>empty()\<close> answers the opposite of its name: it is true exactly when the map has an entry.
\<close>

theorem HeaderMap_empty_inverted: "HeaderMap_empty h \<longleftrightarrow> HeaderMap_size h \<noteq> 0"
  by (simp add: HeaderMap_empty_def HeaderMap_size_def)

text \<open>
  \<open>contentLength()\<close> is total: a missing, unparsable or too large value is no length, a plain
  decimal below \<open>2 ^ 64\<close> is that number.
\<close>

theorem HeaderMap_contentLength_value:
  "HeaderMap_contentLength h =
     (case HeaderMap_get ''Content-Length'' h of
        None \<Rightarrow> None
      | Some v \<Rightarrow>
          (case parse_int_prefix v of
             Inl e \<Rightarrow> None
           | Inr (neg, n) \<Rightarrow>
               if 2 ^ 64 \<le> n then None else Some (if neg then - of_nat n else of_nat n)))"
  by (auto simp: HeaderMap_contentLength_def stoull_def split: option.split sum.split)

text \<open>
  Method names and methods correspond: printing and reading back is the identity, and a name
  that is not one of the nine known ones reads as \<open>UNKNOWN\<close>.
\<close>

theorem method_roundtrip:
  "stringToMethod (methodToString m) = m \<and>
   (stringToMethod s \<noteq> UNKNOWN \<longleftrightarrow> (\<exists>k. k \<noteq> UNKNOWN \<and> s = methodToString k))"
proof -
  have rt: "stringToMethod (methodToString k) = k" for k
    by (cases k) (simp_all add: stringToMethod_def)
  have "methodToString (stringToMethod s) = s" if "stringToMethod s \<noteq> UNKNOWN"
    using that by (simp add: stringToMethod_def split: if_splits)
  then show ?thesis using rt by metis
qed

end
