(* ===== verification/Http1_Codec.thy ===== *)
theory Http1_Codec
  imports Buffer Header_Map
begin

text \<open>
  \<^verbatim>\<open>Http/Codec.hpp\<close>, \<^verbatim>\<open>Http/Http1/Codec.hpp\<close> and \<^verbatim>\<open>Codec.cpp\<close>: the HTTP/1.1 codec around the llhttp
  parser. llhttp itself is a parameter (\<open>llhttp\<close>): \<open>ll_execute\<close> consumes bytes and yields the
  callbacks it makes, in order, each with the fields of \<^verbatim>\<open>llhttp_t\<close> that the callback reads
  (\<open>ll_view\<close>), and the error number. Every callback of the codec returns 0, so the parser's course
  does not depend on them; an exception thrown in a callback (\<^verbatim>\<open>std::stoi\<close>) ends the call as a
  fault. The user callbacks of \<^verbatim>\<open>CodecCallbacks\<close> are functions on the state \<open>'s\<close> of the codec's owner.
\<close>

section \<open>The parser parameter\<close>

datatype llhttp_type = HTTP_BOTH | HTTP_REQUEST | HTTP_RESPONSE

record ll_view =
  ll_type :: llhttp_type
  ll_methodName :: string
  ll_http_major :: u8
  ll_http_minor :: u8
  ll_status_code :: u16
  ll_content_length :: u64
  ll_chunked :: bool

datatype ll_callback =
    LlMessageBegin
  | LlUrl string
  | LlStatus string
  | LlHeaderField string
  | LlHeaderValue string
  | LlHeadersComplete
  | LlBody "byte list"
  | LlMessageComplete

datatype llhttp_errno = HPE_OK | HPE_PAUSED | HPE_PAUSED_UPGRADE | HPE_OTHER string string

record 'p llhttp =
  ll_init :: "llhttp_type \<Rightarrow> 'p"
  ll_execute :: "'p \<Rightarrow> byte list \<Rightarrow> 'p \<times> (ll_view \<times> ll_callback) list \<times> llhttp_errno"

section \<open>The codec\<close>

text \<open>
  \<open>cd_self\<close> is the address of the codec object; \<open>cd_data\<close> and \<open>cd_settingsPtr\<close> are the pointers
  \<^verbatim>\<open>parser_.data\<close> and \<^verbatim>\<open>parser_.settings\<close>, as the address of the codec object they point into.
\<close>

record 'p Http1Codec =
  cd_self :: nat
  cd_parser :: 'p
  cd_data :: nat
  cd_settingsPtr :: nat
  cd_currentRequest :: HttpRequest
  cd_currentResponse :: HttpResponse
  cd_headerField :: string
  cd_headerValue :: string
  cd_buildingRequest :: bool
  cd_inHeaderValue :: bool

datatype codec_type = CtRequest | CtResponse | CtBoth

record 's CodecCallbacks =
  cb_onRequest :: "(HttpRequest \<Rightarrow> 's \<Rightarrow> fault + 's) option"
  cb_onResponse :: "(HttpResponse \<Rightarrow> 's \<Rightarrow> fault + 's) option"
  cb_onBody :: "(buffer \<Rightarrow> bool \<Rightarrow> 's \<Rightarrow> fault + 's) option"
  cb_onMessageComplete :: "('s \<Rightarrow> fault + 's) option"

definition parser_type :: "codec_type \<Rightarrow> llhttp_type" where
  "parser_type t = (case t of CtRequest \<Rightarrow> HTTP_REQUEST | CtResponse \<Rightarrow> HTTP_RESPONSE | CtBoth \<Rightarrow> HTTP_BOTH)"

definition Http1Codec_new :: "'p llhttp \<Rightarrow> nat \<Rightarrow> codec_type \<Rightarrow> 'p Http1Codec" where
  "Http1Codec_new ll addr t = \<lparr>cd_self = addr, cd_parser = ll_init ll (parser_type t),
     cd_data = addr, cd_settingsPtr = addr,
     cd_currentRequest = HttpRequest_new, cd_currentResponse = HttpResponse_new,
     cd_headerField = [], cd_headerValue = [], cd_buildingRequest = True, cd_inHeaderValue = False\<rparr>"

text \<open>
  The move constructor builds the object at \<open>addr\<close> from \<open>other\<close>; the trivially copied members are
  copied and the two parser pointers redirected. \<^verbatim>\<open>swap\<close> exchanges everything but the addresses.
\<close>

definition Http1Codec_move :: "nat \<Rightarrow> 'p Http1Codec \<Rightarrow> 'p Http1Codec" where
  "Http1Codec_move addr other = other\<lparr>cd_self := addr, cd_data := addr, cd_settingsPtr := addr\<rparr>"

definition Http1Codec_swap :: "'p Http1Codec \<Rightarrow> 'p Http1Codec \<Rightarrow> 'p Http1Codec \<times> 'p Http1Codec" where
  "Http1Codec_swap this other =
     (other\<lparr>cd_self := cd_self this, cd_data := cd_self this, cd_settingsPtr := cd_self this\<rparr>,
      this\<lparr>cd_self := cd_self other, cd_data := cd_self other, cd_settingsPtr := cd_self other\<rparr>)"

text \<open>Move assignment: a temporary at \<open>tmp\<close> takes the source, then swaps with \<^verbatim>\<open>*this\<close>.\<close>

definition Http1Codec_assign :: "nat \<Rightarrow> 'p Http1Codec \<Rightarrow> 'p Http1Codec \<Rightarrow> 'p Http1Codec" where
  "Http1Codec_assign tmp this other = snd (Http1Codec_swap (Http1Codec_move tmp other) this)"

definition finishHeader :: "ll_view \<Rightarrow> 'p Http1Codec \<Rightarrow> 'p Http1Codec" where
  "finishHeader v c =
     (if cd_headerField c = [] then c
      else
        (let c1 = (if ll_type v = HTTP_REQUEST \<or> (ll_type v = HTTP_BOTH \<and> cd_buildingRequest c)
                   then c\<lparr>cd_currentRequest := (cd_currentRequest c)
                           \<lparr>rq_headers := HeaderMap_set (cd_headerField c) (cd_headerValue c)
                                            (rq_headers (cd_currentRequest c))\<rparr>\<rparr>
                   else c\<lparr>cd_currentResponse := (cd_currentResponse c)
                           \<lparr>rs_headers := HeaderMap_set (cd_headerField c) (cd_headerValue c)
                                            (rs_headers (cd_currentResponse c))\<rparr>\<rparr>)
         in c1\<lparr>cd_headerField := [], cd_headerValue := []\<rparr>))"

text \<open>The authority part \<open>host\<close> or \<open>host:port\<close>, split at the first colon.\<close>

definition split_host_port :: "string \<Rightarrow> HttpRequest \<Rightarrow> fault + HttpRequest" where
  "split_host_port h req =
     (case str_find_from CHR '':'' 0 h of
        Some colon \<Rightarrow>
          rbind (throws (stoi (drop (colon + 1) h)))
            (\<lambda>n. Inr (req\<lparr>rq_host := str_sub 0 colon h, rq_port := word_of_int n\<rparr>))
      | None \<Rightarrow> Inr (req\<lparr>rq_host := h\<rparr>))"

definition parseHostFromUrl :: "string \<Rightarrow> HttpRequest \<Rightarrow> fault + HttpRequest" where
  "parseHostFromUrl url req =
     (case str_find_sub ''://'' url of
        None \<Rightarrow> Inr req
      | Some schemeEnd \<Rightarrow>
          (let hostStart = schemeEnd + 3;
               hostPart = (case str_find_from CHR ''/'' hostStart url of
                             Some pathStart \<Rightarrow> str_sub hostStart (pathStart - hostStart) url
                           | None \<Rightarrow> drop hostStart url)
           in split_host_port hostPart req))"

definition Codec_onMessageBegin :: "'p Http1Codec \<Rightarrow> 'p Http1Codec" where
  "Codec_onMessageBegin c = c\<lparr>cd_currentRequest := HttpRequest_new,
     cd_currentResponse := HttpResponse_new, cd_headerField := [], cd_headerValue := [],
     cd_inHeaderValue := False\<rparr>"

definition Codec_onUrl :: "string \<Rightarrow> 'p Http1Codec \<Rightarrow> 'p Http1Codec" where
  "Codec_onUrl s c = c\<lparr>cd_currentRequest := (cd_currentRequest c)
     \<lparr>rq_url := rq_url (cd_currentRequest c) @ s\<rparr>\<rparr>"

definition Codec_onStatus :: "string \<Rightarrow> 'p Http1Codec \<Rightarrow> 'p Http1Codec" where
  "Codec_onStatus s c = c\<lparr>cd_currentResponse := (cd_currentResponse c)
     \<lparr>rs_reason := rs_reason (cd_currentResponse c) @ s\<rparr>\<rparr>"

definition Codec_onHeaderField :: "ll_view \<Rightarrow> string \<Rightarrow> 'p Http1Codec \<Rightarrow> 'p Http1Codec" where
  "Codec_onHeaderField v s c =
     (let c1 = (if cd_inHeaderValue c then finishHeader v c else c)
      in c1\<lparr>cd_headerField := cd_headerField c1 @ s, cd_inHeaderValue := False\<rparr>)"

definition Codec_onHeaderValue :: "string \<Rightarrow> 'p Http1Codec \<Rightarrow> 'p Http1Codec" where
  "Codec_onHeaderValue s c =
     c\<lparr>cd_headerValue := cd_headerValue c @ s, cd_inHeaderValue := True\<rparr>"

definition complete_request :: "ll_view \<Rightarrow> HttpRequest \<Rightarrow> fault + HttpRequest" where
  "complete_request v r =
     (let req = r\<lparr>rq_method := stringToMethod (ll_methodName v),
                  rq_versionMajor := ll_http_major v, rq_versionMinor := ll_http_minor v,
                  rq_hasBody := (0 < ll_content_length v \<or> ll_chunked v)\<rparr>
      in rbind (case HeaderMap_get ''Host'' (rq_headers req) of
                  Some h \<Rightarrow> split_host_port h req
                | None \<Rightarrow> Inr req)
           (\<lambda>req. if rq_host req = [] then parseHostFromUrl (rq_url req) req else Inr req))"

definition complete_response :: "ll_view \<Rightarrow> HttpResponse \<Rightarrow> HttpResponse" where
  "complete_response v r = r\<lparr>rs_statusCode := ll_status_code v,
     rs_versionMajor := ll_http_major v, rs_versionMinor := ll_http_minor v, rs_hasBody := True\<rparr>"

definition Codec_onHeadersComplete ::
  "'s CodecCallbacks \<Rightarrow> ll_view \<Rightarrow> 'p Http1Codec \<times> 's \<Rightarrow> fault + 'p Http1Codec \<times> 's" where
  "Codec_onHeadersComplete cbs v cs =
     (let c = finishHeader v (fst cs); s = snd cs
      in if ll_type v = HTTP_REQUEST then
           rbind (complete_request v (cd_currentRequest c))
             (\<lambda>req. let c1 = c\<lparr>cd_buildingRequest := True, cd_currentRequest := req\<rparr>
                    in case cb_onRequest cbs of
                         None \<Rightarrow> Inr (c1, s)
                       | Some f \<Rightarrow> rbind (f req s) (\<lambda>s. Inr (c1, s)))
         else
           let resp = complete_response v (cd_currentResponse c);
               c1 = c\<lparr>cd_buildingRequest := False, cd_currentResponse := resp\<rparr>
           in case cb_onResponse cbs of
                None \<Rightarrow> Inr (c1, s)
              | Some f \<Rightarrow> rbind (f resp s) (\<lambda>s. Inr (c1, s)))"

definition Codec_onBody ::
  "'s CodecCallbacks \<Rightarrow> byte list \<Rightarrow> 'p Http1Codec \<times> 's \<Rightarrow> fault + 'p Http1Codec \<times> 's" where
  "Codec_onBody cbs bs cs =
     (case cb_onBody cbs of
        None \<Rightarrow> Inr cs
      | Some f \<Rightarrow>
          rbind (Buffer_add bs Buffer_new)
            (\<lambda>buf. rbind (f buf False (snd cs)) (\<lambda>s. Inr (fst cs, s))))"

definition Codec_onMessageComplete ::
  "'s CodecCallbacks \<Rightarrow> 'p Http1Codec \<times> 's \<Rightarrow> fault + 'p Http1Codec \<times> 's" where
  "Codec_onMessageComplete cbs cs =
     rbind (case cb_onBody cbs of None \<Rightarrow> Inr (snd cs) | Some f \<Rightarrow> f Buffer_new True (snd cs))
       (\<lambda>s. rbind (case cb_onMessageComplete cbs of None \<Rightarrow> Inr s | Some f \<Rightarrow> f s)
              (\<lambda>s. Inr (fst cs, s)))"

text \<open>The callback table that the constructor installs in \<^verbatim>\<open>settings_\<close>.\<close>

fun codec_settings ::
  "'s CodecCallbacks \<Rightarrow> ll_view \<times> ll_callback \<Rightarrow> 'p Http1Codec \<times> 's \<Rightarrow> fault + 'p Http1Codec \<times> 's" where
  "codec_settings cbs (v, LlMessageBegin) (c, s) = Inr (Codec_onMessageBegin c, s)"
| "codec_settings cbs (v, LlUrl u) (c, s) = Inr (Codec_onUrl u c, s)"
| "codec_settings cbs (v, LlStatus t) (c, s) = Inr (Codec_onStatus t c, s)"
| "codec_settings cbs (v, LlHeaderField t) (c, s) = Inr (Codec_onHeaderField v t c, s)"
| "codec_settings cbs (v, LlHeaderValue t) (c, s) = Inr (Codec_onHeaderValue t c, s)"
| "codec_settings cbs (v, LlHeadersComplete) (c, s) = Codec_onHeadersComplete cbs v (c, s)"
| "codec_settings cbs (v, LlBody bs) (c, s) = Codec_onBody cbs bs (c, s)"
| "codec_settings cbs (v, LlMessageComplete) (c, s) = Codec_onMessageComplete cbs (c, s)"

fun run_callbacks ::
  "'s CodecCallbacks \<Rightarrow> (ll_view \<times> ll_callback) list \<Rightarrow> 'p Http1Codec \<times> 's \<Rightarrow> fault + 'p Http1Codec \<times> 's" where
  "run_callbacks cbs [] cs = Inr cs"
| "run_callbacks cbs (e # es) cs = rbind (codec_settings cbs e cs) (run_callbacks cbs es)"

definition Http1Codec_decode ::
  "'p llhttp \<Rightarrow> 's CodecCallbacks \<Rightarrow> byte list \<Rightarrow> 'p Http1Codec \<times> 's
     \<Rightarrow> fault + (Error + unit) \<times> 'p Http1Codec \<times> 's" where
  "Http1Codec_decode ll cbs data cs =
     (case ll_execute ll (cd_parser (fst cs)) data of
        (p, evs, err) \<Rightarrow>
          rbind (run_callbacks cbs evs ((fst cs)\<lparr>cd_parser := p\<rparr>, snd cs))
            (\<lambda>cs. Inr (case err of
                HPE_OTHER nm reason \<Rightarrow>
                  Inl (mkError ParseError (''HTTP parse error: '' @ nm @ '' ('' @ reason @ '')''))
              | _ \<Rightarrow> Inr (), cs)))"

text \<open>\<^verbatim>\<open>HttpCodec::decode(Buffer&)\<close>: linearize, decode, drain; the drained buffer is the last component.\<close>

definition HttpCodec_decode_buffer ::
  "'p llhttp \<Rightarrow> 's CodecCallbacks \<Rightarrow> buffer \<Rightarrow> 'p Http1Codec \<times> 's
     \<Rightarrow> fault + ((Error + unit) \<times> 'p Http1Codec \<times> 's) \<times> buffer" where
  "HttpCodec_decode_buffer ll cbs buf cs =
     rbind (Http1Codec_decode ll cbs (Buffer_linearize buf) cs)
       (\<lambda>r. rbind (Buffer_drain (Buffer_length buf) buf) (\<lambda>buf. Inr (r, buf)))"

section \<open>Encoding\<close>

abbreviation CRLF :: string where
  "CRLF \<equiv> [CHR 0x0D, CHR 0x0A]"

definition header_line :: "string \<times> string \<Rightarrow> string" where
  "header_line nv = fst nv @ '': '' @ snd nv @ CRLF"

definition request_line :: "HttpRequest \<Rightarrow> string" where
  "request_line req = methodToString (rq_method req) @ '' '' @ rq_url req @ '' HTTP/''
     @ dec (unat (rq_versionMajor req)) @ ''.'' @ dec (unat (rq_versionMinor req)) @ CRLF"

definition status_line :: "HttpResponse \<Rightarrow> string" where
  "status_line resp = ''HTTP/'' @ dec (unat (rs_versionMajor resp)) @ ''.''
     @ dec (unat (rs_versionMinor resp)) @ '' '' @ dec (unat (rs_statusCode resp)) @ '' ''
     @ rs_reason resp @ CRLF"

definition encodeRequest :: "HttpRequest \<Rightarrow> buffer \<Rightarrow> fault + buffer" where
  "encodeRequest req out =
     rbind (Buffer_add_string (request_line req) out)
       (\<lambda>out. rbind (add_all Buffer_add (map (bytes_of_string \<circ> header_line) (rq_headers req)) out)
          (Buffer_add_string CRLF))"

definition encodeResponse :: "HttpResponse \<Rightarrow> buffer \<Rightarrow> fault + buffer" where
  "encodeResponse resp out =
     rbind (Buffer_add_string (status_line resp) out)
       (\<lambda>out. rbind (add_all Buffer_add (map (bytes_of_string \<circ> header_line) (rs_headers resp)) out)
          (Buffer_add_string CRLF))"

definition encodeBody :: "byte list \<Rightarrow> buffer \<Rightarrow> fault + buffer" where
  "encodeBody data out = Buffer_add data out"

section \<open>Header accumulation\<close>

named_theorems codec_defs \<open>the llhttp callbacks of the codec\<close>

declare Codec_onMessageBegin_def [codec_defs] Codec_onUrl_def [codec_defs] Codec_onStatus_def [codec_defs]
  Codec_onHeaderField_def [codec_defs] Codec_onHeaderValue_def [codec_defs] finishHeader_def [codec_defs]

lemma run_callbacks_append:
  "run_callbacks cbs (es @ fs) cs = rbind (run_callbacks cbs es cs) (run_callbacks cbs fs)"
proof (induction es arbitrary: cs)
  case (Cons e es)
  then show ?case by (cases "codec_settings cbs e cs") simp_all
qed simp

text \<open>A header as the parser delivers it: the pieces of its name, then the pieces of its value.\<close>

type_synonym header_pieces = "string list \<times> string list"

definition header_events :: "ll_view \<Rightarrow> header_pieces \<Rightarrow> (ll_view \<times> ll_callback) list" where
  "header_events v h = map (\<lambda>f. (v, LlHeaderField f)) (fst h) @ map (\<lambda>x. (v, LlHeaderValue x)) (snd h)"

definition header_ok :: "header_pieces \<Rightarrow> bool" where
  "header_ok h \<longleftrightarrow> concat (fst h) \<noteq> [] \<and> snd h \<noteq> []"

definition whole_header :: "header_pieces \<Rightarrow> string \<times> string" where
  "whole_header h = (concat (fst h), concat (snd h))"

lemma run_values:
  "run_callbacks cbs (map (\<lambda>x. (v, LlHeaderValue x)) vs) (c, s) =
     Inr (c\<lparr>cd_headerValue := cd_headerValue c @ concat vs,
            cd_inHeaderValue := (cd_inHeaderValue c \<or> vs \<noteq> [])\<rparr>, s)"
  by (induction vs arbitrary: c) (simp_all add: Codec_onHeaderValue_def)

lemma run_fields:
  "\<not> cd_inHeaderValue c \<Longrightarrow>
   run_callbacks cbs (map (\<lambda>f. (v, LlHeaderField f)) fs) (c, s) =
     Inr (c\<lparr>cd_headerField := cd_headerField c @ concat fs, cd_inHeaderValue := False\<rparr>, s)"
  by (induction fs arbitrary: c) (simp_all add: Codec_onHeaderField_def)

text \<open>The codec before the first header, or with a finished value still held.\<close>

definition idle_header :: "'p Http1Codec \<Rightarrow> bool" where
  "idle_header c \<longleftrightarrow> (if cd_inHeaderValue c then cd_headerField c \<noteq> []
                     else cd_headerField c = [] \<and> cd_headerValue c = [])"

definition flushed :: "ll_view \<Rightarrow> 'p Http1Codec \<Rightarrow> 'p Http1Codec" where
  "flushed v c = (finishHeader v c)\<lparr>cd_inHeaderValue := False\<rparr>"

lemma flushed_idle: "idle_header c \<Longrightarrow> cd_headerField (flushed v c) = [] \<and> cd_headerValue (flushed v c) = []"
  by (auto simp: idle_header_def flushed_def finishHeader_def Let_def split: if_splits)

lemma run_one_header:
  assumes "idle_header c" and "header_ok h"
  shows "run_callbacks cbs (header_events v h) (c, s) =
    Inr ((flushed v c)\<lparr>cd_headerField := concat (fst h), cd_headerValue := concat (snd h),
           cd_inHeaderValue := True\<rparr>, s)"
proof -
  obtain f fs where fs: "fst h = f # fs" using assms(2) by (cases "fst h") (auto simp: header_ok_def)
  have start: "Codec_onHeaderField v f c = (flushed v c)\<lparr>cd_headerField := f\<rparr>"
    using assms(1)
    by (auto simp: Codec_onHeaderField_def flushed_def idle_header_def finishHeader_def Let_def)
  have "\<not> cd_inHeaderValue ((flushed v c)\<lparr>cd_headerField := f\<rparr>)" by (simp add: flushed_def)
  from run_fields [OF this, of cbs v fs s] show ?thesis
    using assms(2) fs flushed_idle [OF assms(1), of v]
    by (simp add: header_events_def run_callbacks_append start run_values header_ok_def)
qed

text \<open>What a list of headers leaves in the message under construction.\<close>

definition is_request :: "ll_view \<Rightarrow> bool" where
  "is_request v \<longleftrightarrow> ll_type v = HTTP_REQUEST"

definition set_headers :: "ll_view \<Rightarrow> (string \<times> string) list \<Rightarrow> 'p Http1Codec \<Rightarrow> 'p Http1Codec" where
  "set_headers v nvs c =
     (if ll_type v = HTTP_REQUEST
      then c\<lparr>cd_currentRequest := (cd_currentRequest c)
              \<lparr>rq_headers := fold (\<lambda>(n, x). HeaderMap_set n x) nvs (rq_headers (cd_currentRequest c))\<rparr>\<rparr>
      else c\<lparr>cd_currentResponse := (cd_currentResponse c)
              \<lparr>rs_headers := fold (\<lambda>(n, x). HeaderMap_set n x) nvs (rs_headers (cd_currentResponse c))\<rparr>\<rparr>)"

lemma flushed_one:
  assumes "cd_headerField d = []" "cd_headerValue d = []" "\<not> cd_inHeaderValue d"
    and "n \<noteq> []" and "ll_type v \<noteq> HTTP_BOTH"
  shows "flushed v (d\<lparr>cd_headerField := n, cd_headerValue := x, cd_inHeaderValue := True\<rparr>)
     = set_headers v [(n, x)] d"
proof (cases "ll_type v = HTTP_REQUEST")
  case True
  then show ?thesis using assms
    by (simp add: flushed_def finishHeader_def set_headers_def Let_def)
next
  case False
  then show ?thesis using assms
    by (simp add: flushed_def finishHeader_def set_headers_def Let_def)
qed

lemma run_headers:
  assumes "idle_header c" and "list_all header_ok hs" and "ll_type v \<noteq> HTTP_BOTH"
  shows "\<exists>c'. run_callbacks cbs (concat (map (header_events v) hs)) (c, s) = Inr (c', s) \<and>
     idle_header c' \<and> flushed v c' = set_headers v (map whole_header hs) (flushed v c)"
  using assms(1,2)
proof (induction hs arbitrary: c)
  case Nil
  then show ?case by (simp add: set_headers_def)
next
  case (Cons h hs)
  let ?c1 = "(flushed v c)\<lparr>cd_headerField := concat (fst h), cd_headerValue := concat (snd h),
               cd_inHeaderValue := True\<rparr>"
  have one: "run_callbacks cbs (header_events v h) (c, s) = Inr (?c1, s)"
    by (rule run_one_header) (use Cons.prems in auto)
  have idle: "idle_header ?c1" using Cons.prems by (simp add: idle_header_def header_ok_def)
  have "concat (fst h) \<noteq> []" using Cons.prems by (simp add: header_ok_def)
  then have step: "flushed v ?c1 = set_headers v [whole_header h] (flushed v c)"
    unfolding whole_header_def using flushed_idle [OF Cons.prems(1), of v] assms(3)
    by (intro flushed_one) (simp_all add: flushed_def)
  obtain c' where "run_callbacks cbs (concat (map (header_events v) hs)) (?c1, s) = Inr (c', s)"
      "idle_header c'" "flushed v c' = set_headers v (map whole_header hs) (flushed v ?c1)"
    using Cons.IH [OF idle] Cons.prems by auto
  then show ?case using one step by (simp add: run_callbacks_append set_headers_def)
qed

section \<open>Whole messages\<close>

text \<open>The callbacks of one message, in the order the parser makes them.\<close>

definition body_events :: "ll_view \<Rightarrow> byte list list \<Rightarrow> (ll_view \<times> ll_callback) list" where
  "body_events v chunks = map (\<lambda>b. (v, LlBody b)) chunks @ [(v, LlMessageComplete)]"

definition request_events ::
  "ll_view \<Rightarrow> string list \<Rightarrow> header_pieces list \<Rightarrow> byte list list \<Rightarrow> (ll_view \<times> ll_callback) list" where
  "request_events v urls hs chunks = (v, LlMessageBegin) # map (\<lambda>u. (v, LlUrl u)) urls
     @ concat (map (header_events v) hs) @ (v, LlHeadersComplete) # body_events v chunks"

definition response_events ::
  "ll_view \<Rightarrow> string list \<Rightarrow> header_pieces list \<Rightarrow> byte list list \<Rightarrow> (ll_view \<times> ll_callback) list" where
  "response_events v reasons hs chunks = (v, LlMessageBegin) # map (\<lambda>u. (v, LlStatus u)) reasons
     @ concat (map (header_events v) hs) @ (v, LlHeadersComplete) # body_events v chunks"

text \<open>What the owner of the codec sees of a message: the head, the body pieces, the end.\<close>

fun deliver_chunks :: "'s CodecCallbacks \<Rightarrow> byte list list \<Rightarrow> 's \<Rightarrow> fault + 's" where
  "deliver_chunks cbs [] s = Inr s"
| "deliver_chunks cbs (b # bs) s =
     rbind (case cb_onBody cbs of None \<Rightarrow> Inr s
            | Some f \<Rightarrow> rbind (Buffer_add b Buffer_new) (\<lambda>buf. f buf False s))
       (deliver_chunks cbs bs)"

definition deliver_end :: "'s CodecCallbacks \<Rightarrow> 's \<Rightarrow> fault + 's" where
  "deliver_end cbs s =
     rbind (case cb_onBody cbs of None \<Rightarrow> Inr s | Some f \<Rightarrow> f Buffer_new True s)
       (\<lambda>s. case cb_onMessageComplete cbs of None \<Rightarrow> Inr s | Some f \<Rightarrow> f s)"

definition deliver_request ::
  "'s CodecCallbacks \<Rightarrow> HttpRequest \<Rightarrow> byte list list \<Rightarrow> 's \<Rightarrow> fault + 's" where
  "deliver_request cbs req chunks s =
     rbind (case cb_onRequest cbs of None \<Rightarrow> Inr s | Some f \<Rightarrow> f req s)
       (\<lambda>s. rbind (deliver_chunks cbs chunks s) (deliver_end cbs))"

definition deliver_response ::
  "'s CodecCallbacks \<Rightarrow> HttpResponse \<Rightarrow> byte list list \<Rightarrow> 's \<Rightarrow> fault + 's" where
  "deliver_response cbs resp chunks s =
     rbind (case cb_onResponse cbs of None \<Rightarrow> Inr s | Some f \<Rightarrow> f resp s)
       (\<lambda>s. rbind (deliver_chunks cbs chunks s) (deliver_end cbs))"

definition owner_state :: "fault + 'p Http1Codec \<times> 's \<Rightarrow> fault + 's" where
  "owner_state r = rbind r (\<lambda>cs. Inr (snd cs))"

definition request_head :: "string list \<Rightarrow> header_pieces list \<Rightarrow> HttpRequest" where
  "request_head urls hs = HttpRequest_new\<lparr>rq_url := concat urls,
     rq_headers := fold (\<lambda>(n, x). HeaderMap_set n x) (map whole_header hs) []\<rparr>"

definition response_head :: "string list \<Rightarrow> header_pieces list \<Rightarrow> HttpResponse" where
  "response_head reasons hs = HttpResponse_new\<lparr>rs_reason := concat reasons,
     rs_headers := fold (\<lambda>(n, x). HeaderMap_set n x) (map whole_header hs) []\<rparr>"

lemma owner_state_rbind: "owner_state (rbind m f) = rbind m (\<lambda>x. owner_state (f x))"
  by (simp add: owner_state_def rbind_assoc)

lemma owner_state_simps [simp]: "owner_state (Inr (c, s)) = Inr s" "owner_state (Inl e) = Inl e"
  by (simp_all add: owner_state_def)

lemma run_body:
  "owner_state (run_callbacks cbs (body_events v chunks) (c, s)) =
     rbind (deliver_chunks cbs chunks s) (deliver_end cbs)"
proof (induction chunks arbitrary: s)
  case Nil
  show ?case
    by (cases "cb_onBody cbs"; cases "cb_onMessageComplete cbs")
       (simp_all add: body_events_def owner_state_def deliver_end_def Codec_onMessageComplete_def rbind_assoc)
next
  case (Cons b bs)
  obtain buf where buf: "Buffer_add b Buffer_new = Inr buf" by (rule Buffer_add_ok [OF Buffer_new_wf])
  show ?case
  proof (cases "cb_onBody cbs")
    case None
    then show ?thesis using Cons.IH by (simp add: body_events_def Codec_onBody_def)
  next
    case (Some f)
    then show ?thesis using Cons.IH buf
      by (cases "f buf False s") (simp_all add: body_events_def Codec_onBody_def owner_state_def)
  qed
qed

lemma run_urls:
  "run_callbacks cbs (map (\<lambda>u. (v, LlUrl u)) urls) (c, s) =
     Inr (c\<lparr>cd_currentRequest := (cd_currentRequest c)
             \<lparr>rq_url := rq_url (cd_currentRequest c) @ concat urls\<rparr>\<rparr>, s)"
  by (induction urls arbitrary: c) (simp_all add: Codec_onUrl_def)

lemma run_reasons:
  "run_callbacks cbs (map (\<lambda>u. (v, LlStatus u)) us) (c, s) =
     Inr (c\<lparr>cd_currentResponse := (cd_currentResponse c)
             \<lparr>rs_reason := rs_reason (cd_currentResponse c) @ concat us\<rparr>\<rparr>, s)"
  by (induction us arbitrary: c) (simp_all add: Codec_onStatus_def)

lemma finishHeader_flushed:
  "cd_currentRequest (finishHeader v c) = cd_currentRequest (flushed v c)"
  "cd_currentResponse (finishHeader v c) = cd_currentResponse (flushed v c)"
  by (simp_all add: flushed_def)

text \<open>
  C16: however the parser cuts the request target, the header names and the header values into
  pieces, and whatever the codec held before, a request message reaches the owner of the codec as
  exactly one \<open>onRequest\<close> with the whole target and all headers (the last value of a repeated name),
  then its body pieces in order, then the end of the stream and \<open>onMessageComplete\<close>; an exception
  while the target host is extracted leaves the decoder before any callback is made.
\<close>

theorem request_delivered:
  assumes "ll_type v = HTTP_REQUEST" and "list_all header_ok hs"
  shows "owner_state (run_callbacks cbs (request_events v urls hs chunks) (c, s)) =
     rbind (complete_request v (request_head urls hs)) (\<lambda>req. deliver_request cbs req chunks s)"
proof -
  let ?c0 = "Codec_onMessageBegin c"
  let ?c1 = "?c0\<lparr>cd_currentRequest := (cd_currentRequest ?c0)
             \<lparr>rq_url := rq_url (cd_currentRequest ?c0) @ concat urls\<rparr>\<rparr>"
  have idle: "idle_header ?c1" by (simp add: idle_header_def Codec_onMessageBegin_def)
  obtain c' where c': "run_callbacks cbs (concat (map (header_events v) hs)) (?c1, s) = Inr (c', s)"
      "flushed v c' = set_headers v (map whole_header hs) (flushed v ?c1)"
    using run_headers [OF idle assms(2), of v cbs s] assms(1) by auto
  have req: "cd_currentRequest (finishHeader v c') = request_head urls hs"
    unfolding finishHeader_flushed c'(2)
    by (simp add: set_headers_def assms(1) flushed_def finishHeader_def Codec_onMessageBegin_def
        request_head_def HttpRequest_new_def)
  have head: "run_callbacks cbs (request_events v urls hs chunks) (c, s) =
      rbind (Codec_onHeadersComplete cbs v (c', s)) (run_callbacks cbs (body_events v chunks))"
    by (simp add: request_events_def run_callbacks_append run_urls c'(1))
  show ?thesis
    unfolding head
    by (cases "complete_request v (request_head urls hs)"; cases "cb_onRequest cbs")
       (simp_all add: Codec_onHeadersComplete_def req assms(1) deliver_request_def run_body
          owner_state_rbind rbind_assoc Let_def)
qed

definition sample_view :: ll_view where
  "sample_view = \<lparr>ll_type = HTTP_REQUEST, ll_methodName = ''GET'', ll_http_major = 1, ll_http_minor = 1,
     ll_status_code = 0, ll_content_length = 0, ll_chunked = False\<rparr>"

definition sample_callbacks :: "(string list) CodecCallbacks" where
  "sample_callbacks = \<lparr>cb_onRequest = Some (\<lambda>r s. Inr (s @ [rq_url r, rq_host r])), cb_onResponse = None,
     cb_onBody = None, cb_onMessageComplete = Some (\<lambda>s. Inr (s @ [''end'']))\<rparr>"

theorem request_delivered_witness:
  "owner_state (run_callbacks sample_callbacks
      (request_events sample_view [''/a'', ''b''] [([''Ho'', ''st''], [''x'', ''.y''])] [])
      (Http1Codec_new \<lparr>ll_init = (\<lambda>_. ()), ll_execute = (\<lambda>p d. (p, [], HPE_OK))\<rparr> 0 CtRequest, []))
     = Inr [''/ab'', ''x.y'', ''end'']"
proof -
  have v: "ll_type sample_view = HTTP_REQUEST" by (simp add: sample_view_def)
  have h: "list_all header_ok [([''Ho'', ''st''], [''x'', ''.y''])]" by (simp add: header_ok_def)
  have "rbind (complete_request sample_view (request_head [''/a'', ''b''] [([''Ho'', ''st''], [''x'', ''.y''])]))
          (\<lambda>req. deliver_request sample_callbacks req [] []) = Inr [''/ab'', ''x.y'', ''end'']"
    by code_simp
  then show ?thesis by (simp only: request_delivered [OF v h])
qed

text \<open>
  The same for a response message: one \<open>onResponse\<close> with status, reason phrase and headers, the
  body pieces in order, the end; no exception is possible on this side.
\<close>

theorem response_delivered:
  assumes "ll_type v = HTTP_RESPONSE" and "list_all header_ok hs"
  shows "owner_state (run_callbacks cbs (response_events v reasons hs chunks) (c, s)) =
     deliver_response cbs (complete_response v (response_head reasons hs)) chunks s"
proof -
  let ?c0 = "Codec_onMessageBegin c"
  let ?c1 = "?c0\<lparr>cd_currentResponse := (cd_currentResponse ?c0)
             \<lparr>rs_reason := rs_reason (cd_currentResponse ?c0) @ concat reasons\<rparr>\<rparr>"
  have idle: "idle_header ?c1" by (simp add: idle_header_def Codec_onMessageBegin_def)
  obtain c' where c': "run_callbacks cbs (concat (map (header_events v) hs)) (?c1, s) = Inr (c', s)"
      "flushed v c' = set_headers v (map whole_header hs) (flushed v ?c1)"
    using run_headers [OF idle assms(2), of v cbs s] assms(1) by auto
  have resp: "cd_currentResponse (finishHeader v c') = response_head reasons hs"
    unfolding finishHeader_flushed c'(2)
    by (simp add: set_headers_def assms(1) flushed_def finishHeader_def Codec_onMessageBegin_def
        response_head_def HttpResponse_new_def)
  have head: "run_callbacks cbs (response_events v reasons hs chunks) (c, s) =
      rbind (Codec_onHeadersComplete cbs v (c', s)) (run_callbacks cbs (body_events v chunks))"
    by (simp add: response_events_def run_callbacks_append run_reasons c'(1))
  show ?thesis
    unfolding head
    by (cases "cb_onResponse cbs")
       (simp_all add: Codec_onHeadersComplete_def resp assms(1) deliver_response_def run_body
          owner_state_rbind rbind_assoc Let_def)
qed

theorem response_delivered_witness:
  "owner_state (run_callbacks (sample_callbacks\<lparr>cb_onResponse := Some (\<lambda>r s. Inr (s @ [rs_reason r]))\<rparr>)
      (response_events (sample_view\<lparr>ll_type := HTTP_RESPONSE, ll_status_code := 200\<rparr>) [''O'', ''K''] [] [])
      (Http1Codec_new \<lparr>ll_init = (\<lambda>_. ()), ll_execute = (\<lambda>p d. (p, [], HPE_OK))\<rparr> 0 CtResponse, []))
     = Inr [''OK'', ''end'']"
proof -
  have v: "ll_type (sample_view\<lparr>ll_type := HTTP_RESPONSE, ll_status_code := 200\<rparr>) = HTTP_RESPONSE" by simp
  have h: "list_all header_ok []" by simp
  show ?thesis
    unfolding response_delivered [OF v h]
    by (simp add: deliver_response_def deliver_end_def sample_callbacks_def complete_response_def
        response_head_def HttpResponse_new_def)
qed

section \<open>Target host\<close>

lemma split_host_port_colon:
  "CHR '':'' \<notin> set host \<Longrightarrow> split_host_port (host @ CHR '':'' # rest) req =
     rbind (throws (stoi rest)) (\<lambda>n. Inr (req\<lparr>rq_host := host, rq_port := word_of_int n\<rparr>))"
  by (simp add: split_host_port_def str_find_from_def str_simps str_sub_def)

lemma split_host_port_plain:
  "CHR '':'' \<notin> set host \<Longrightarrow> split_host_port host req = Inr (req\<lparr>rq_host := host\<rparr>)"
  by (simp add: split_host_port_def str_find_from_def str_index_None [THEN iffD2])

text \<open>
  The target of a request with a non-empty \<open>Host\<close> header. A host name alone is the target, on
  port 80; \<open>host:port\<close> with a decimal port gives that host and the port modulo \<open>2 ^ 16\<close>, so a port
  below 65536 is taken exactly.
\<close>

theorem host_header_target:
  assumes "HeaderMap_get ''Host'' (rq_headers r) = Some h" and "rq_port r = 80"
    and "CHR '':'' \<notin> set host" and "host \<noteq> []"
    and "h = host \<or> h = host @ CHR '':'' # dec n" and "n < 2 ^ 31"
  shows "\<exists>req. complete_request v r = Inr req \<and> rq_host req = host \<and>
     rq_port req = (if h = host then 80 else of_nat n) \<and>
     rq_method req = stringToMethod (ll_methodName v) \<and> rq_url req = rq_url r \<and>
     rq_headers req = rq_headers r"
  using assms(5)
proof
  assume "h = host"
  with assms show ?thesis by (simp add: complete_request_def split_host_port_plain)
next
  assume h: "h = host @ CHR '':'' # dec n"
  then have "h \<noteq> host" by auto
  with h assms show ?thesis by (simp add: complete_request_def split_host_port_colon stoi_dec)
qed

theorem host_header_target_witness:
  "\<exists>req. complete_request sample_view (HttpRequest_new\<lparr>rq_headers := [(''host'', ''h:8080'')]\<rparr>) = Inr req
     \<and> rq_host req = ''h'' \<and> rq_port req = 8080"
proof -
  have get: "HeaderMap_get ''Host'' (rq_headers (HttpRequest_new\<lparr>rq_headers := [(''host'', ''h:8080'')]\<rparr>))
      = Some ''h:8080''" by code_simp
  have h: "''h:8080'' = ''h'' \<or> ''h:8080'' = ''h'' @ CHR '':'' # dec 8080"
    by (simp add: dec.simps digit_char_def char_of_def bit_0)
  have port: "rq_port (HttpRequest_new\<lparr>rq_headers := [(''host'', ''h:8080'')]\<rparr>) = 80"
    by (simp add: HttpRequest_new_def)
  show ?thesis using host_header_target [OF get port _ _ h, of sample_view] by auto
qed

text \<open>
  A \<open>Host\<close> header whose text after the first colon does not start like a number makes
  \<open>std::stoi\<close> throw out of the parser callback. An IPv6 literal such as \<open>[::1]:8080\<close> is such a
  header: its first colon is inside the brackets.
\<close>

theorem host_header_throws:
  assumes "HeaderMap_get ''Host'' (rq_headers r) = Some (host @ CHR '':'' # rest)"
    and "CHR '':'' \<notin> set host"
    and "rest = [] \<or> (\<not> is_digit (hd rest) \<and> \<not> is_space (hd rest) \<and>
           hd rest \<noteq> CHR ''-'' \<and> hd rest \<noteq> CHR ''+'')"
  shows "complete_request v r = Inl (Thrown InvalidArgument)"
  using assms by (simp add: complete_request_def split_host_port_colon stoi_def parse_int_bad)

theorem host_header_throws_witness:
  "complete_request sample_view (HttpRequest_new\<lparr>rq_headers := [(''Host'', ''[::1]:8080'')]\<rparr>)
     = Inl (Thrown InvalidArgument)"
proof -
  have get: "HeaderMap_get ''Host'' (rq_headers (HttpRequest_new\<lparr>rq_headers := [(''Host'', ''[::1]:8080'')]\<rparr>))
      = Some (''['' @ CHR '':'' # '':1]:8080'')" by code_simp
  show ?thesis by (rule host_header_throws [OF get]) (simp_all add: is_digit_def is_space_def)
qed

section \<open>Decoding\<close>

text \<open>
  \<open>decode\<close> reports an error exactly for the parser's error numbers other than success and the two
  pauses, with code \<open>ParseError\<close>; the pause after a CONNECT head is a success. In every case all
  callbacks the parser made have been carried out, and decoding a buffer empties it.
\<close>

theorem decode_buffer_result:
  assumes "buffer_wf buf" and "ll_execute ll (cd_parser c) (Buffer_linearize buf) = (p, evs, err)"
    and "run_callbacks cbs evs (c\<lparr>cd_parser := p\<rparr>, s) = Inr cs"
  shows "\<exists>res buf'. HttpCodec_decode_buffer ll cbs buf (c, s) = Inr ((res, cs), buf') \<and>
     Buffer_linearize buf' = [] \<and> Buffer_empty buf' \<and>
     (case err of HPE_OTHER nm reason \<Rightarrow> \<exists>e. res = Inl e \<and> err_code e = ParseError | _ \<Rightarrow> res = Inr ())"
proof -
  obtain buf' where "Buffer_drain (Buffer_length buf) buf = Inr buf'" "buffer_wf buf'"
      "Buffer_linearize buf' = drop (Buffer_length buf) (Buffer_linearize buf)"
    using bq.drain_ok [OF assms(1)] by blast
  then show ?thesis
    using assms buffer_wf_total [OF assms(1)]
    by (auto simp: HttpCodec_decode_buffer_def Http1Codec_decode_def Buffer_length_def Buffer_empty_iff
        mkError_def split: llhttp_errno.split)
qed

theorem decode_buffer_result_witness:
  "\<exists>res buf' c. HttpCodec_decode_buffer \<lparr>ll_init = (\<lambda>_. ()), ll_execute = (\<lambda>p d. (p, [], HPE_PAUSED_UPGRADE))\<rparr>
      sample_callbacks Buffer_new
      (Http1Codec_new \<lparr>ll_init = (\<lambda>_. ()), ll_execute = (\<lambda>p d. (p, [], HPE_PAUSED_UPGRADE))\<rparr> 0 CtRequest, [])
    = Inr ((res, c), buf') \<and> res = Inr ()"
proof -
  let ?ll = "\<lparr>ll_init = (\<lambda>_. ()), ll_execute = (\<lambda>p d. (p, [], HPE_PAUSED_UPGRADE))\<rparr>"
  let ?c = "Http1Codec_new ?ll 0 CtRequest"
  have ex: "ll_execute ?ll (cd_parser ?c) (Buffer_linearize Buffer_new) = ((), [], HPE_PAUSED_UPGRADE)"
    by simp
  have run: "run_callbacks sample_callbacks [] (?c\<lparr>cd_parser := ()\<rparr>, []) = Inr (?c\<lparr>cd_parser := ()\<rparr>, [])"
    by simp
  from decode_buffer_result [OF Buffer_new_wf ex run] show ?thesis by auto
qed

section \<open>Moving codecs\<close>

definition self_pointing :: "'p Http1Codec \<Rightarrow> bool" where
  "self_pointing c \<longleftrightarrow> cd_data c = cd_self c \<and> cd_settingsPtr c = cd_self c"

text \<open>
  Construction, move construction, \<open>swap\<close> and move assignment leave the parser's context and
  settings pointers of every codec pointing into that codec itself, never into the other object;
  an assigned codec keeps its address and takes over the parser and the partial message.
\<close>

theorem codec_pointers:
  "self_pointing (Http1Codec_new ll a t) \<and> self_pointing (Http1Codec_move a c) \<and>
   self_pointing (fst (Http1Codec_swap c d)) \<and> self_pointing (snd (Http1Codec_swap c d)) \<and>
   self_pointing (Http1Codec_assign a c d) \<and>
   cd_self (Http1Codec_assign a c d) = cd_self c \<and>
   cd_parser (Http1Codec_assign a c d) = cd_parser d \<and>
   cd_currentRequest (Http1Codec_assign a c d) = cd_currentRequest d"
  by (simp add: self_pointing_def Http1Codec_new_def Http1Codec_move_def Http1Codec_swap_def
      Http1Codec_assign_def)

section \<open>Encoding\<close>

definition request_head_string :: "HttpRequest \<Rightarrow> string" where
  "request_head_string req = request_line req @ concat (map header_line (rq_headers req)) @ CRLF"

definition response_head_string :: "HttpResponse \<Rightarrow> string" where
  "response_head_string resp = status_line resp @ concat (map header_line (rs_headers resp)) @ CRLF"

lemma concat_map_bytes: "concat (map (bytes_of_string \<circ> f) xs) = bytes_of_string (concat (map f xs))"
  by (induction xs) auto

lemma encode_lines_ok:
  assumes "write_queue out"
  shows "\<exists>out'. rbind (Buffer_add_string l out)
       (\<lambda>out. rbind (add_all Buffer_add (map (bytes_of_string \<circ> header_line) hs) out)
          (Buffer_add_string CRLF)) = Inr out' \<and> write_queue out' \<and>
     Buffer_linearize out' = Buffer_linearize out @ bytes_of_string (l @ concat (map header_line hs) @ CRLF)"
proof -
  have "\<exists>out'. add_all Buffer_add (bytes_of_string l # map (bytes_of_string \<circ> header_line) hs @ [bytes_of_string CRLF]) out
      = Inr out' \<and> write_queue out' \<and>
      Buffer_linearize out' = Buffer_linearize out @ concat (bytes_of_string l # map (bytes_of_string \<circ> header_line) hs @ [bytes_of_string CRLF])"
    using wq.add_all_ok [OF assms] .
  then show ?thesis
    by (simp add: add_all_append_fun Buffer_add_string_def [abs_def] concat_map_bytes)
qed

lemma encodeRequest_ok:
  "write_queue out \<Longrightarrow> \<exists>out'. encodeRequest req out = Inr out' \<and> write_queue out' \<and>
     Buffer_linearize out' = Buffer_linearize out @ bytes_of_string (request_head_string req)"
  using encode_lines_ok by (simp add: encodeRequest_def request_head_string_def)

lemma encodeResponse_ok:
  "write_queue out \<Longrightarrow> \<exists>out'. encodeResponse resp out = Inr out' \<and> write_queue out' \<and>
     Buffer_linearize out' = Buffer_linearize out @ bytes_of_string (response_head_string resp)"
  using encode_lines_ok by (simp add: encodeResponse_def response_head_string_def)

section \<open>Reading the wire format back\<close>

text \<open>
  A reader for message heads, as HTTP/1.1 defines them: a start line and header lines, each ended by
  CR LF, up to an empty line; the rest is the body. It is the specification the encoder is held to.
\<close>

fun read_line :: "string \<Rightarrow> (string \<times> string) option" where
  "read_line [] = None"
| "read_line [x] = None"
| "read_line (x # y # ys) =
     (if x = CHR 0x0D \<and> y = CHR 0x0A then Some ([], ys)
      else map_option (\<lambda>(l, r). (x # l, r)) (read_line (y # ys)))"

lemma read_line_shorter: "read_line s = Some (l, r) \<Longrightarrow> length r < length s"
  by (induction s arbitrary: l rule: read_line.induct) (auto split: if_splits)

definition read_header :: "string \<Rightarrow> string \<times> string" where
  "read_header l = (takeWhile (\<lambda>c. c \<noteq> CHR '':'') l, drop 2 (dropWhile (\<lambda>c. c \<noteq> CHR '':'') l))"

function read_headers :: "string \<Rightarrow> ((string \<times> string) list \<times> string) option" where
  "read_headers s =
     (case read_line s of
        None \<Rightarrow> None
      | Some (l, r) \<Rightarrow>
          if l = [] then Some ([], r)
          else map_option (\<lambda>(hs, b). (read_header l # hs, b)) (read_headers r))"
  by pat_completeness auto
termination
  by (relation "measure length") (auto dest: read_line_shorter)

declare read_headers.simps [simp del]

definition read_words :: "string \<Rightarrow> string \<times> string \<times> string" where
  "read_words l = (let r = tl (dropWhile (\<lambda>c. c \<noteq> CHR '' '') l)
     in (takeWhile (\<lambda>c. c \<noteq> CHR '' '') l, takeWhile (\<lambda>c. c \<noteq> CHR '' '') r,
         tl (dropWhile (\<lambda>c. c \<noteq> CHR '' '') r)))"

text \<open>Three words of the start line, the headers, and what follows the head.\<close>

definition read_message ::
  "string \<Rightarrow> ((string \<times> string \<times> string) \<times> (string \<times> string) list \<times> string) option" where
  "read_message s = (case read_line s of None \<Rightarrow> None
     | Some (l, r) \<Rightarrow> map_option (\<lambda>(hs, b). (read_words l, hs, b)) (read_headers r))"

definition header_safe :: "string \<times> string \<Rightarrow> bool" where
  "header_safe nv \<longleftrightarrow> CHR '':'' \<notin> set (fst nv) \<and> CHR 0x0D \<notin> set (fst nv) \<and> CHR 0x0D \<notin> set (snd nv)"

lemma read_line_CRLF: "CHR 0x0D \<notin> set l \<Longrightarrow> read_line (l @ CHR 0x0D # CHR 0x0A # r) = Some (l, r)"
proof (induction l)
  case (Cons x l)
  then show ?case by (cases l) auto
qed simp

lemma read_header_line:
  "CHR '':'' \<notin> set n \<Longrightarrow> read_header (n @ CHR '':'' # CHR '' '' # v) = (n, v)"
  by (induction n) (auto simp: read_header_def)

lemma read_headers_encoded:
  "list_all header_safe hs \<Longrightarrow>
     read_headers (concat (map header_line hs) @ CHR 0x0D # CHR 0x0A # body) = Some (hs, body)"
proof (induction hs)
  case Nil
  show ?case by (simp add: read_headers.simps [of "CHR 0x0D # CHR 0x0A # body"])
next
  case (Cons h hs)
  let ?l = "fst h @ CHR '':'' # CHR '' '' # snd h"
  let ?r = "concat (map header_line hs) @ CHR 0x0D # CHR 0x0A # body"
  have line: "read_line (?l @ CHR 0x0D # CHR 0x0A # ?r) = Some (?l, ?r)"
    using Cons.prems by (intro read_line_CRLF) (simp add: header_safe_def)
  have hd: "read_header ?l = h" using Cons.prems by (simp add: header_safe_def read_header_line)
  have shape: "concat (map header_line (h # hs)) @ CHR 0x0D # CHR 0x0A # body = ?l @ CHR 0x0D # CHR 0x0A # ?r"
    by (simp add: header_line_def)
  have "read_headers ?r = Some (hs, body)" using Cons by simp
  then show ?case unfolding shape
    by (subst read_headers.simps) (simp only: line option.case prod.case, simp add: hd)
qed

lemma read_words_join:
  assumes "CHR '' '' \<notin> set a" and "CHR '' '' \<notin> set b"
  shows "read_words (a @ CHR '' '' # b @ CHR '' '' # c) = (a, b, c)"
proof -
  have "takeWhile (\<lambda>c. c \<noteq> CHR '' '') (xs @ CHR '' '' # ys) = xs \<and>
        dropWhile (\<lambda>c. c \<noteq> CHR '' '') (xs @ CHR '' '' # ys) = CHR '' '' # ys"
    if "CHR '' '' \<notin> set xs" for xs ys using that by (induction xs) auto
  then show ?thesis using assms by (simp add: read_words_def)
qed

lemma read_message_join:
  assumes "CHR '' '' \<notin> set a" and "CHR '' '' \<notin> set b"
    and "CHR 0x0D \<notin> set (a @ b @ c)" and "list_all header_safe hs"
  shows "read_message ((a @ CHR '' '' # b @ CHR '' '' # c @ CRLF) @ concat (map header_line hs) @ CRLF @ body)
     = Some ((a, b, c), hs, body)"
proof -
  have "CHR 0x0D \<notin> set (a @ CHR '' '' # b @ CHR '' '' # c)" using assms(3) by auto
  from read_line_CRLF [OF this] show ?thesis
    by (simp add: read_message_def read_headers_encoded [OF assms(4)] read_words_join [OF assms(1,2)])
qed

lemma digit_not_blank: "is_digit c \<Longrightarrow> c \<noteq> CHR '' '' \<and> c \<noteq> CHR 0x0D"
  by (auto simp: is_digit_def)

lemma dec_no_blank: "CHR '' '' \<notin> set (dec n)" "CHR 0x0D \<notin> set (dec n)"
  using dec_digits [of n] digit_not_blank by (auto simp: list_all_iff)

lemma method_no_blank: "CHR '' '' \<notin> set (methodToString m)" "CHR 0x0D \<notin> set (methodToString m)"
  by (cases m; simp)+

text \<open>
  C17: an encoded request, read back by the message reader, gives the method, the target, the
  version and exactly the headers that were encoded, and leaves whatever body follows: the head is
  self-delimiting. It is appended behind what the output buffer already held. Targets and headers
  must not contain a CR, targets no space, header names no colon.
\<close>

theorem encodeRequest_roundtrip:
  assumes "write_queue out" and "list_all header_safe (rq_headers req)"
    and "CHR '' '' \<notin> set (rq_url req)" and "CHR 0x0D \<notin> set (rq_url req)"
  shows "\<exists>out'. encodeRequest req out = Inr out' \<and> write_queue out' \<and>
     take (length (Buffer_linearize out)) (Buffer_linearize out') = Buffer_linearize out \<and>
     read_message (string_of_bytes (drop (length (Buffer_linearize out)) (Buffer_linearize out')) @ body)
       = Some ((methodToString (rq_method req), rq_url req,
                ''HTTP/'' @ dec (unat (rq_versionMajor req)) @ ''.'' @ dec (unat (rq_versionMinor req))),
               rq_headers req, body)"
proof -
  let ?ver = "''HTTP/'' @ dec (unat (rq_versionMajor req)) @ ''.'' @ dec (unat (rq_versionMinor req))"
  obtain out' where out': "encodeRequest req out = Inr out'" "write_queue out'"
      "Buffer_linearize out' = Buffer_linearize out @ bytes_of_string (request_head_string req)"
    using encodeRequest_ok [OF assms(1)] by blast
  have "read_message ((methodToString (rq_method req) @ CHR '' '' # rq_url req @ CHR '' '' # ?ver @ CRLF)
        @ concat (map header_line (rq_headers req)) @ CRLF @ body)
      = Some ((methodToString (rq_method req), rq_url req, ?ver), rq_headers req, body)"
    by (rule read_message_join) (use assms method_no_blank dec_no_blank in auto)
  then have "read_message (request_head_string req @ body)
      = Some ((methodToString (rq_method req), rq_url req, ?ver), rq_headers req, body)"
    by (simp add: request_head_string_def request_line_def)
  then show ?thesis using out' by simp
qed

theorem encodeRequest_roundtrip_witness:
  "\<exists>out'. encodeRequest (HttpRequest_new\<lparr>rq_method := GET, rq_url := ''/a'', rq_headers := [(''Host'', ''h'')]\<rparr>)
      Buffer_new = Inr out' \<and>
     (\<exists>l. read_message (string_of_bytes (Buffer_linearize out') @ ''xyz'')
            = Some ((''GET'', ''/a'', l), [(''Host'', ''h'')], ''xyz''))"
proof -
  let ?r = "HttpRequest_new\<lparr>rq_method := GET, rq_url := ''/a'', rq_headers := [(''Host'', ''h'')]\<rparr>"
  have "list_all header_safe (rq_headers ?r)" by (simp add: header_safe_def)
  moreover have "CHR '' '' \<notin> set (rq_url ?r)" "CHR 0x0D \<notin> set (rq_url ?r)" by simp_all
  ultimately show ?thesis
    using encodeRequest_roundtrip [OF Buffer_new_write_queue, of ?r "''xyz''"] by auto
qed

text \<open>
  Likewise for an encoded response: version, status code and reason phrase (a reason phrase may
  contain spaces), the headers and the body that follows.
\<close>

theorem encodeResponse_roundtrip:
  assumes "write_queue out" and "list_all header_safe (rs_headers resp)"
    and "CHR 0x0D \<notin> set (rs_reason resp)"
  shows "\<exists>out'. encodeResponse resp out = Inr out' \<and> write_queue out' \<and>
     take (length (Buffer_linearize out)) (Buffer_linearize out') = Buffer_linearize out \<and>
     read_message (string_of_bytes (drop (length (Buffer_linearize out)) (Buffer_linearize out')) @ body)
       = Some ((''HTTP/'' @ dec (unat (rs_versionMajor resp)) @ ''.'' @ dec (unat (rs_versionMinor resp)),
                dec (unat (rs_statusCode resp)), rs_reason resp), rs_headers resp, body)"
proof -
  let ?ver = "''HTTP/'' @ dec (unat (rs_versionMajor resp)) @ ''.'' @ dec (unat (rs_versionMinor resp))"
  obtain out' where out': "encodeResponse resp out = Inr out'" "write_queue out'"
      "Buffer_linearize out' = Buffer_linearize out @ bytes_of_string (response_head_string resp)"
    using encodeResponse_ok [OF assms(1)] by blast
  have "read_message ((?ver @ CHR '' '' # dec (unat (rs_statusCode resp)) @ CHR '' '' # rs_reason resp @ CRLF)
        @ concat (map header_line (rs_headers resp)) @ CRLF @ body)
      = Some ((?ver, dec (unat (rs_statusCode resp)), rs_reason resp), rs_headers resp, body)"
    by (rule read_message_join) (use assms dec_no_blank in auto)
  then have "read_message (response_head_string resp @ body)
      = Some ((?ver, dec (unat (rs_statusCode resp)), rs_reason resp), rs_headers resp, body)"
    by (simp add: response_head_string_def status_line_def)
  then show ?thesis using out' by simp
qed

theorem encodeResponse_roundtrip_witness:
  "\<exists>out' m. encodeResponse (HttpResponse_new\<lparr>rs_statusCode := 404, rs_reason := ''Not Found''\<rparr>) Buffer_new
      = Inr out' \<and> read_message (string_of_bytes (Buffer_linearize out') @ ''b'')
          = Some ((m, dec 404, ''Not Found''), [], ''b'')"
proof -
  let ?r = "HttpResponse_new\<lparr>rs_statusCode := 404, rs_reason := ''Not Found''\<rparr>"
  have "list_all header_safe (rs_headers ?r)" and "CHR 0x0D \<notin> set (rs_reason ?r)"
    by (simp_all add: HttpResponse_new_def)
  from encodeResponse_roundtrip [OF Buffer_new_write_queue this, of "''b''"] show ?thesis
    by (auto simp: HttpResponse_new_def)
qed

section \<open>Owners of a codec\<close>

text \<open>An invariant of the owner that every callback of the codec keeps whenever it returns: decoding keeps it.\<close>

locale codec_owner =
  fixes cbs :: "'s CodecCallbacks" and inv :: "'s \<Rightarrow> bool"
  assumes request_keeps: "cb_onRequest cbs = Some f \<Longrightarrow> inv s \<Longrightarrow> f req s = Inr s' \<Longrightarrow> inv s'"
    and response_keeps: "cb_onResponse cbs = Some g \<Longrightarrow> inv s \<Longrightarrow> g resp s = Inr s' \<Longrightarrow> inv s'"
    and body_keeps: "cb_onBody cbs = Some h \<Longrightarrow> inv s \<Longrightarrow> h buf b s = Inr s' \<Longrightarrow> inv s'"
    and complete_keeps: "cb_onMessageComplete cbs = Some k \<Longrightarrow> inv s \<Longrightarrow> k s = Inr s' \<Longrightarrow> inv s'"
begin

lemma settings_keep:
  assumes "inv (snd cs)" and "codec_settings cbs e cs = Inr cs'"
  shows "inv (snd cs')"
proof (cases e)
  case (Pair v c)
  obtain d s where cs: "cs = (d, s)" by fastforce
  have inv: "inv s" using assms(1) cs by simp
  show ?thesis
  proof (cases c)
    case LlHeadersComplete
    then show ?thesis using assms(2) Pair cs inv
      by (auto simp: Codec_onHeadersComplete_def Let_def res_iff split: if_splits option.splits
          intro: response_keeps) (erule (2) request_keeps)
  next
    case (LlBody bs)
    then show ?thesis using assms(2) Pair cs inv
      by (auto simp: Codec_onBody_def res_iff split: option.splits intro: body_keeps)
  next
    case LlMessageComplete
    then show ?thesis using assms(2) Pair cs inv
      by (auto simp: Codec_onMessageComplete_def res_iff split: option.splits intro: body_keeps complete_keeps)
        (meson body_keeps complete_keeps)
  qed (use assms(2) Pair cs inv in auto)
qed

lemma callbacks_keep: "inv (snd cs) \<Longrightarrow> run_callbacks cbs es cs = Inr cs' \<Longrightarrow> inv (snd cs')"
  by (induction es arbitrary: cs) (auto simp: res_iff dest: settings_keep)

lemma decode_keeps:
  "inv s \<Longrightarrow> HttpCodec_decode_buffer ll cbs buf (c, s) = Inr ((r, c', s'), buf') \<Longrightarrow> inv s'"
  by (auto simp: HttpCodec_decode_buffer_def Http1Codec_decode_def res_iff split: prod.splits dest: callbacks_keep [rotated])

end

end
