(* ===== verification/Cert_Cache.thy ===== *)
theory Cert_Cache
  imports Platform "HOL-Library.Multiset"
begin

text \<open>
  \<^verbatim>\<open>Tls/CertCache.hpp\<close> and \<^verbatim>\<open>Tls/CertCache.cpp\<close>: the LRU cache of \<^verbatim>\<open>SSL_CTX\<close> objects. \<open>cc_order\<close> is the
  \<^verbatim>\<open>std::list\<close>, each node with its address, most recently used first; \<open>cc_map\<close> maps host names to node
  addresses (the iterators). Following an iterator that is not in the list and \<^verbatim>\<open>back()\<close> of an empty
  list are undefined behaviour. Reference counting calls go to the history. The mutex serialises the
  operations, so a sequence of calls is an interleaving of the threads. The lemmas show that the cache refines a
  plain recency list, stays within its capacity and balances the references it takes.
\<close>

section \<open>State and operations\<close>

record Entry =
  en_hostname :: string
  en_ctx :: ssl_ctx

record CertCache =
  cc_maxEntries :: nat
  cc_order :: "(nat \<times> Entry) list"
  cc_map :: "string \<rightharpoonup> nat"
  cc_nextNode :: nat

definition CertCache_new :: "nat \<Rightarrow> CertCache" where
  "CertCache_new maxEntries = \<lparr>cc_maxEntries = maxEntries, cc_order = [], cc_map = Map.empty, cc_nextNode = 0\<rparr>"

definition CertCache_destroy :: "CertCache \<Rightarrow> 'a platform_scheme \<Rightarrow> 'a platform_scheme" where
  "CertCache_destroy cc s = fold (\<lambda>n. sys (CCtxFree (en_ctx (snd n)))) (cc_order cc) s"

text \<open>\<^verbatim>\<open>order_.splice(order_.begin(), order_, it)\<close>: the node moves to the front.\<close>

definition splice_front :: "nat \<Rightarrow> Entry \<Rightarrow> (nat \<times> Entry) list \<Rightarrow> (nat \<times> Entry) list" where
  "splice_front it e ord = (it, e) # filter (\<lambda>n. fst n \<noteq> it) ord"

definition CertCache_get :: "string \<Rightarrow> CertCache \<Rightarrow> fault + ssl_ctx option \<times> CertCache" where
  "CertCache_get hostname cc =
     (case cc_map cc hostname of
        None \<Rightarrow> Inr (None, cc)
      | Some it \<Rightarrow>
          (case map_of (cc_order cc) it of
             None \<Rightarrow> Inl UndefinedBehaviour
           | Some e \<Rightarrow> Inr (Some (en_ctx e), cc\<lparr>cc_order := splice_front it e (cc_order cc)\<rparr>)))"

definition evict_lru :: "CertCache \<Rightarrow> 'a platform_scheme \<Rightarrow> fault + CertCache \<times> 'a platform_scheme" where
  "evict_lru cc s =
     (if cc_maxEntries cc \<le> length (cc_order cc) then
        (if cc_order cc = [] then Inl UndefinedBehaviour
         else
           (let e = snd (last (cc_order cc))
            in Inr (cc\<lparr>cc_map := (cc_map cc)(en_hostname e := None), cc_order := butlast (cc_order cc)\<rparr>,
                    sys (CCtxFree (en_ctx e)) s)))
      else Inr (cc, s))"

definition CertCache_put ::
  "string \<Rightarrow> ssl_ctx \<Rightarrow> CertCache \<Rightarrow> 'a platform_scheme \<Rightarrow> fault + CertCache \<times> 'a platform_scheme" where
  "CertCache_put hostname ctx cc s =
     (case cc_map cc hostname of
        Some it \<Rightarrow>
          (case map_of (cc_order cc) it of
             None \<Rightarrow> Inl UndefinedBehaviour
           | Some e \<Rightarrow>
               Inr (cc\<lparr>cc_order := splice_front it (e\<lparr>en_ctx := ctx\<rparr>) (cc_order cc)\<rparr>,
                    sys (CCtxUpRef ctx) (sys (CCtxFree (en_ctx e)) s)))
      | None \<Rightarrow>
          rbind (evict_lru cc s)
            (\<lambda>(cc, s).
               let it = cc_nextNode cc
               in Inr (cc\<lparr>cc_order := (it, \<lparr>en_hostname = hostname, en_ctx = ctx\<rparr>) # cc_order cc,
                          cc_map := (cc_map cc)(hostname \<mapsto> it), cc_nextNode := Suc it\<rparr>,
                       sys (CCtxUpRef ctx) s)))"

definition CertCache_size :: "CertCache \<Rightarrow> nat" where
  "CertCache_size cc = length (cc_order cc)"

section \<open>The recency list it implements\<close>

type_synonym lru = "(string \<times> ssl_ctx) list"

definition lru_of :: "CertCache \<Rightarrow> lru" where
  "lru_of cc = map (\<lambda>n. (en_hostname (snd n), en_ctx (snd n))) (cc_order cc)"

definition lru_touch :: "string \<Rightarrow> ssl_ctx \<Rightarrow> lru \<Rightarrow> lru" where
  "lru_touch h ctx l = (h, ctx) # filter (\<lambda>p. fst p \<noteq> h) l"

definition lru_get :: "string \<Rightarrow> lru \<Rightarrow> ssl_ctx option \<times> lru" where
  "lru_get h l = (case map_of l h of None \<Rightarrow> (None, l) | Some ctx \<Rightarrow> (Some ctx, lru_touch h ctx l))"

definition lru_put :: "nat \<Rightarrow> string \<Rightarrow> ssl_ctx \<Rightarrow> lru \<Rightarrow> lru" where
  "lru_put cap h ctx l = take cap (lru_touch h ctx l)"

definition cache_wf :: "CertCache \<Rightarrow> bool" where
  "cache_wf cc \<longleftrightarrow> distinct (map fst (cc_order cc)) \<and>
     distinct (map (\<lambda>n. en_hostname (snd n)) (cc_order cc)) \<and>
     (\<forall>n \<in> set (cc_order cc). fst n < cc_nextNode cc) \<and>
     (\<forall>h it. cc_map cc h = Some it \<longleftrightarrow> (\<exists>e. (it, e) \<in> set (cc_order cc) \<and> en_hostname e = h)) \<and>
     length (cc_order cc) \<le> cc_maxEntries cc"

lemma cache_wf_new: "cache_wf (CertCache_new n)"
  by (simp add: cache_wf_def CertCache_new_def)

lemma cache_lookup:
  assumes "cache_wf cc" and "cc_map cc h = Some it"
  obtains e where "(it, e) \<in> set (cc_order cc)" "en_hostname e = h" "map_of (cc_order cc) it = Some e"
    "map_of (lru_of cc) h = Some (en_ctx e)"
proof -
  obtain e where e: "(it, e) \<in> set (cc_order cc)" "en_hostname e = h" using assms by (auto simp: cache_wf_def)
  have "distinct (map fst (lru_of cc))" using assms(1) by (simp add: cache_wf_def lru_of_def comp_def)
  moreover have "(h, en_ctx e) \<in> set (lru_of cc)" using e by (force simp: lru_of_def)
  ultimately show ?thesis using that [OF e] e assms(1) by (simp add: cache_wf_def)
qed

lemma cache_lookup_None:
  assumes "cache_wf cc" and "cc_map cc h = None"
  shows "map_of (lru_of cc) h = None" and "h \<notin> fst ` set (lru_of cc)"
proof -
  show "h \<notin> fst ` set (lru_of cc)" using assms by (auto simp: cache_wf_def lru_of_def) (metis option.distinct(1))
  then show "map_of (lru_of cc) h = None" by (simp add: map_of_eq_None_iff)
qed

lemma same_node_same_host:
  assumes "cache_wf cc" and "(it, e) \<in> set (cc_order cc)" and "n \<in> set (cc_order cc)"
  shows "fst n = it \<longleftrightarrow> en_hostname (snd n) = en_hostname e"
proof -
  have "inj_on fst (set (cc_order cc))" "inj_on (\<lambda>n. en_hostname (snd n)) (set (cc_order cc))"
    using assms(1) by (auto simp: cache_wf_def distinct_map)
  then show ?thesis using assms(2,3) by (auto simp: inj_on_def) (metis fst_conv snd_conv)+
qed

lemma lru_of_splice:
  assumes "cache_wf cc" and "(it, e) \<in> set (cc_order cc)" and "en_hostname e' = en_hostname e"
  shows "lru_of (cc\<lparr>cc_order := splice_front it e' (cc_order cc)\<rparr>)
     = lru_touch (en_hostname e) (en_ctx e') (lru_of cc)"
proof -
  have "filter (\<lambda>n. fst n \<noteq> it) (cc_order cc) = filter (\<lambda>n. en_hostname (snd n) \<noteq> en_hostname e) (cc_order cc)"
    using same_node_same_host [OF assms(1,2)] by (intro filter_cong) auto
  then show ?thesis using assms(3)
    by (simp add: lru_of_def splice_front_def lru_touch_def filter_map comp_def)
qed

lemma splice_wf:
  assumes "cache_wf cc" and "(it, e) \<in> set (cc_order cc)" and "en_hostname e' = en_hostname e"
  shows "cache_wf (cc\<lparr>cc_order := splice_front it e' (cc_order cc)\<rparr>)"
proof -
  let ?f = "filter (\<lambda>n. fst n \<noteq> it) (cc_order cc)"
  have len: "length ?f < length (cc_order cc)"
    by (rule length_filter_less [of "(it, e)"]) (use assms(2) in auto)
  have "en_hostname e \<notin> (\<lambda>n. en_hostname (snd n)) ` set ?f"
    using same_node_same_host [OF assms(1,2)] by auto
  moreover have "cc_map cc h = Some i \<longleftrightarrow> (\<exists>x. (i, x) \<in> set ((it, e') # ?f) \<and> en_hostname x = h)" for h i
    using assms same_node_same_host [OF assms(1,2)] unfolding cache_wf_def by fastforce
  ultimately show ?thesis using assms len
    by (auto simp: cache_wf_def splice_front_def distinct_map inj_on_def)
qed

section \<open>Refinement\<close>

lemma mset_others:
  "distinct (map fst xs) \<Longrightarrow> (i, e) \<in> set xs \<Longrightarrow> add_mset (i, e) (mset (filter (\<lambda>n. fst n \<noteq> i) xs)) = mset xs"
proof (induction xs)
  case (Cons x xs)
  show ?case
  proof (cases "x = (i, e)")
    case True
    then have "filter (\<lambda>n. fst n \<noteq> i) xs = xs" using Cons.prems by (auto simp: filter_id_conv image_iff)
    then show ?thesis using True by simp
  next
    case False
    then have "(i, e) \<in> set xs" using Cons.prems(2) by auto
    then have "i \<in> fst ` set xs" by force
    then have "fst x \<noteq> i" using Cons.prems(1) by auto
    then show ?thesis using Cons False by (auto simp: add_mset_commute)
  qed
qed simp

lemma CertCache_get_ok:
  assumes "cache_wf cc"
  shows "\<exists>r cc'. CertCache_get h cc = Inr (r, cc') \<and> cache_wf cc' \<and>
     cc_maxEntries cc' = cc_maxEntries cc \<and> mset (cc_order cc') = mset (cc_order cc) \<and>
     lru_get h (lru_of cc) = (r, lru_of cc')"
proof (cases "cc_map cc h")
  case None
  then show ?thesis using assms cache_lookup_None [OF assms None]
    by (simp add: CertCache_get_def lru_get_def)
next
  case (Some it)
  obtain e where e: "(it, e) \<in> set (cc_order cc)" "en_hostname e = h" "map_of (cc_order cc) it = Some e"
      "map_of (lru_of cc) h = Some (en_ctx e)"
    by (rule cache_lookup [OF assms Some])
  have "mset (splice_front it e (cc_order cc)) = mset (cc_order cc)"
    using mset_others [of "cc_order cc" it e] assms e(1) by (simp add: splice_front_def cache_wf_def)
  then show ?thesis using Some e splice_wf [OF assms e(1), of e] lru_of_splice [OF assms e(1), of e]
    by (simp add: CertCache_get_def lru_get_def)
qed

lemma evict_lru_ok:
  assumes "cache_wf cc" and "0 < cc_maxEntries cc"
  shows "\<exists>cc' cs. evict_lru cc s = Inr (cc', s\<lparr>pf_calls := pf_calls s @ cs\<rparr>) \<and>
     cc_maxEntries cc' = cc_maxEntries cc \<and> cc_nextNode cc' = cc_nextNode cc \<and>
     cache_wf (cc'\<lparr>cc_maxEntries := cc_maxEntries cc - 1\<rparr>) \<and>
     lru_of cc' = take (cc_maxEntries cc - 1) (lru_of cc) \<and>
     (\<exists>out. cs = map CCtxFree out \<and> mset (map snd (lru_of cc)) = mset (map snd (lru_of cc')) + mset out)"
proof (cases "cc_maxEntries cc \<le> length (cc_order cc)")
  case False
  then show ?thesis using assms
    by (auto simp: evict_lru_def cache_wf_def lru_of_def intro!: exI [of _ "[]"])
next
  case True
  then have len: "length (cc_order cc) = cc_maxEntries cc" using assms(1) by (simp add: cache_wf_def)
  then have "cc_order cc \<noteq> []" using assms(2) by auto
  then obtain ord n e where ord: "cc_order cc = ord @ [(n, e)]" by (metis append_butlast_last_id prod.exhaust)
  let ?cc = "cc\<lparr>cc_map := (cc_map cc)(en_hostname e := None), cc_order := ord\<rparr>"
  have ev: "evict_lru cc s = Inr (?cc, sys (CCtxFree (en_ctx e)) s)"
    using True ord by (simp add: evict_lru_def)
  have "cache_wf (?cc\<lparr>cc_maxEntries := cc_maxEntries cc - 1\<rparr>)"
    using assms(1) len unfolding cache_wf_def ord by (auto simp: image_iff)
  then show ?thesis using ev len ord
    by (auto simp: lru_of_def sys_def intro!: exI [of _ "[en_ctx e]"])
qed

lemma insert_node_wf:
  assumes "cache_wf (cc\<lparr>cc_maxEntries := m\<rparr>)" and "m < cc_maxEntries cc"
    and fresh: "\<And>i x. (i, x) \<in> set (cc_order cc) \<Longrightarrow> en_hostname x \<noteq> h"
  shows "cache_wf (cc\<lparr>cc_order := (cc_nextNode cc, \<lparr>en_hostname = h, en_ctx = ctx\<rparr>) # cc_order cc,
     cc_map := (cc_map cc)(h \<mapsto> cc_nextNode cc), cc_nextNode := Suc (cc_nextNode cc)\<rparr>)"
proof -
  have old: "\<And>i x. (i, x) \<in> set (cc_order cc) \<Longrightarrow> i < cc_nextNode cc"
      "\<And>g i. cc_map cc g = Some i \<longleftrightarrow> (\<exists>e. (i, e) \<in> set (cc_order cc) \<and> en_hostname e = g)"
    using assms(1) by (auto simp: cache_wf_def)
  have "((cc_map cc)(h \<mapsto> cc_nextNode cc)) g = Some i \<longleftrightarrow>
      (\<exists>e. (i, e) \<in> set ((cc_nextNode cc, \<lparr>en_hostname = h, en_ctx = ctx\<rparr>) # cc_order cc) \<and> en_hostname e = g)" for g i
    using old(1) [of i] old(2) [of g i] fresh [of i] by (cases "g = h") auto
  moreover have "h \<notin> (\<lambda>n. en_hostname (snd n)) ` set (cc_order cc)" "cc_nextNode cc \<notin> fst ` set (cc_order cc)"
    using fresh old(1) by force+
  ultimately show ?thesis using assms(1,2) by (auto simp: cache_wf_def less_SucI)
qed

lemma CertCache_put_ok:
  assumes "cache_wf cc" and "0 < cc_maxEntries cc"
  shows "\<exists>cc' out. CertCache_put h ctx cc s
       = Inr (cc', s\<lparr>pf_calls := pf_calls s @ map CCtxFree out @ [CCtxUpRef ctx]\<rparr>) \<and>
     cache_wf cc' \<and> cc_maxEntries cc' = cc_maxEntries cc \<and>
     lru_of cc' = lru_put (cc_maxEntries cc) h ctx (lru_of cc) \<and>
     mset (map snd (lru_of cc')) + mset out = mset (map snd (lru_of cc)) + {#ctx#}"
proof (cases "cc_map cc h")
  case (Some it)
  obtain e where e: "(it, e) \<in> set (cc_order cc)" "en_hostname e = h" "map_of (cc_order cc) it = Some e"
      "map_of (lru_of cc) h = Some (en_ctx e)"
    by (rule cache_lookup [OF assms(1) Some])
  let ?cc = "cc\<lparr>cc_order := splice_front it (e\<lparr>en_ctx := ctx\<rparr>) (cc_order cc)\<rparr>"
  have wf: "cache_wf ?cc" using splice_wf [OF assms(1) e(1)] by simp
  have lru: "lru_of ?cc = lru_touch h ctx (lru_of cc)" using lru_of_splice [OF assms(1) e(1)] e(2) by simp
  have "length (lru_of ?cc) \<le> cc_maxEntries cc" using wf by (simp add: cache_wf_def lru_of_def)
  then have put: "lru_of ?cc = lru_put (cc_maxEntries cc) h ctx (lru_of cc)" using lru by (simp add: lru_put_def)
  have "add_mset (it, e) (mset (filter (\<lambda>n. fst n \<noteq> it) (cc_order cc))) = mset (cc_order cc)"
    using mset_others [of "cc_order cc" it e] assms(1) e(1) by (simp add: cache_wf_def)
  then have "mset (map (\<lambda>x. en_ctx (snd x)) (cc_order cc))
      = add_mset (en_ctx e) (mset (map (\<lambda>x. en_ctx (snd x)) (filter (\<lambda>n. fst n \<noteq> it) (cc_order cc))))"
    by (metis (no_types, lifting) image_mset_add_mset mset_map snd_conv)
  then have "mset (map snd (lru_of ?cc)) + {#en_ctx e#} = mset (map snd (lru_of cc)) + {#ctx#}"
    by (simp add: lru_of_def splice_front_def comp_def del: mset_map)
  then show ?thesis using Some e wf put
    by (auto simp: CertCache_put_def sys_def intro!: exI [of _ "[en_ctx e]"])
next
  case None
  obtain cc1 cs out where ev: "evict_lru cc s = Inr (cc1, s\<lparr>pf_calls := pf_calls s @ cs\<rparr>)"
      "cc_maxEntries cc1 = cc_maxEntries cc" "cc_nextNode cc1 = cc_nextNode cc"
      "cache_wf (cc1\<lparr>cc_maxEntries := cc_maxEntries cc - 1\<rparr>)"
      "lru_of cc1 = take (cc_maxEntries cc - 1) (lru_of cc)"
      "cs = map CCtxFree out" "mset (map snd (lru_of cc)) = mset (map snd (lru_of cc1)) + mset out"
    using evict_lru_ok [OF assms, of s] by blast
  let ?e = "\<lparr>en_hostname = h, en_ctx = ctx\<rparr>"
  let ?cc = "cc1\<lparr>cc_order := (cc_nextNode cc1, ?e) # cc_order cc1,
                 cc_map := (cc_map cc1)(h \<mapsto> cc_nextNode cc1), cc_nextNode := Suc (cc_nextNode cc1)\<rparr>"
  have nh: "h \<notin> fst ` set (lru_of cc)" by (rule cache_lookup_None [OF assms(1) None])
  then have nh1: "h \<notin> fst ` set (lru_of cc1)" using ev(5) by (auto dest: in_set_takeD)
  then have "\<And>i x. (i, x) \<in> set (cc_order cc1) \<Longrightarrow> en_hostname x \<noteq> h"
    by (force simp: lru_of_def)
  then have wf: "cache_wf ?cc" by (rule insert_node_wf [OF ev(4), rotated]) (use ev(2) assms(2) in auto)
  have "filter (\<lambda>p. fst p \<noteq> h) (lru_of cc) = lru_of cc" using nh by (auto simp: filter_id_conv image_iff)
  then have "lru_of ?cc = lru_put (cc_maxEntries cc) h ctx (lru_of cc)"
    using ev(5) assms(2) by (cases "cc_maxEntries cc") (simp_all add: lru_put_def lru_touch_def lru_of_def)
  moreover have "mset (map snd (lru_of ?cc)) + mset out = mset (map snd (lru_of cc)) + {#ctx#}"
    using ev(7) by (simp add: lru_of_def)
  ultimately show ?thesis using None ev wf
    by (auto simp: CertCache_put_def sys_def Let_def)
qed

subsection \<open>Sequences of calls\<close>

datatype cache_op = CacheGet string | CachePut string ssl_ctx

fun cache_calls ::
  "cache_op list \<Rightarrow> CertCache \<Rightarrow> 'a platform_scheme \<Rightarrow> fault + ssl_ctx option list \<times> CertCache \<times> 'a platform_scheme" where
  "cache_calls [] cc s = Inr ([], cc, s)"
| "cache_calls (CacheGet h # ops) cc s =
     rbind (CertCache_get h cc) (\<lambda>(r, cc). rbind (cache_calls ops cc s) (\<lambda>(rs, x). Inr (r # rs, x)))"
| "cache_calls (CachePut h ctx # ops) cc s = rbind (CertCache_put h ctx cc s) (\<lambda>(cc, s). cache_calls ops cc s)"

fun lru_calls :: "nat \<Rightarrow> cache_op list \<Rightarrow> lru \<Rightarrow> ssl_ctx option list \<times> lru" where
  "lru_calls cap [] l = ([], l)"
| "lru_calls cap (CacheGet h # ops) l =
     (case lru_get h l of (r, l) \<Rightarrow> case lru_calls cap ops l of (rs, l) \<Rightarrow> (r # rs, l))"
| "lru_calls cap (CachePut h ctx # ops) l = lru_calls cap ops (lru_put cap h ctx l)"

text \<open>The references a history takes and gives back.\<close>

definition refs_taken :: "syscall list \<Rightarrow> ssl_ctx multiset" where
  "refs_taken cs = mset (concat (map (\<lambda>c. case c of CCtxUpRef x \<Rightarrow> [x] | _ \<Rightarrow> []) cs))"

definition refs_freed :: "syscall list \<Rightarrow> ssl_ctx multiset" where
  "refs_freed cs = mset (concat (map (\<lambda>c. case c of CCtxFree x \<Rightarrow> [x] | _ \<Rightarrow> []) cs))"

lemma refs_append [simp]:
  "refs_taken (cs @ ds) = refs_taken cs + refs_taken ds" "refs_freed (cs @ ds) = refs_freed cs + refs_freed ds"
  by (simp_all add: refs_taken_def refs_freed_def)

lemma refs_frees [simp]: "refs_taken (map CCtxFree xs) = {#}" "refs_freed (map CCtxFree xs) = mset xs"
  by (induction xs) (simp_all add: refs_taken_def refs_freed_def)

lemma refs_up [simp]: "refs_taken [CCtxUpRef x] = {#x#}" "refs_freed [CCtxUpRef x] = {#}"
  by (simp_all add: refs_taken_def refs_freed_def)

text \<open>Since references \<open>T\<close> taken and \<open>F\<close> freed, the cache holds one reference per entry.\<close>

definition balanced :: "ssl_ctx multiset \<Rightarrow> ssl_ctx multiset \<Rightarrow> CertCache \<Rightarrow> syscall list \<Rightarrow> bool" where
  "balanced T F cc cs \<longleftrightarrow> refs_taken cs + F = refs_freed cs + T + mset (map snd (lru_of cc))"

lemma balanced_put:
  assumes "balanced T F cc cs" and "mset (map snd (lru_of cc')) + mset out = mset (map snd (lru_of cc)) + {#ctx#}"
  shows "balanced T F cc' (cs @ map CCtxFree out @ [CCtxUpRef ctx])"
proof -
  have "refs_taken cs + F + {#ctx#} = refs_freed cs + T + (mset (map snd (lru_of cc)) + {#ctx#})"
    using assms(1) by (simp add: balanced_def ac_simps del: mset_map)
  then show ?thesis unfolding assms(2) [symmetric] by (simp add: balanced_def ac_simps del: mset_map)
qed

lemma cache_calls_ok:
  "cache_wf cc \<Longrightarrow> 0 < cc_maxEntries cc \<Longrightarrow> balanced T F cc (pf_calls s) \<Longrightarrow>
   \<exists>rs cc' s'. cache_calls ops cc s = Inr (rs, cc', s') \<and> cache_wf cc' \<and> balanced T F cc' (pf_calls s') \<and>
     cc_maxEntries cc' = cc_maxEntries cc \<and> lru_calls (cc_maxEntries cc) ops (lru_of cc) = (rs, lru_of cc')"
proof (induction ops arbitrary: cc s)
  case (Cons op ops)
  show ?case
  proof (cases op)
    case (CacheGet h)
    obtain r cc1 where g: "CertCache_get h cc = Inr (r, cc1)" "cache_wf cc1" "cc_maxEntries cc1 = cc_maxEntries cc"
        "mset (cc_order cc1) = mset (cc_order cc)" "lru_get h (lru_of cc) = (r, lru_of cc1)"
      using CertCache_get_ok [OF Cons.prems(1)] by blast
    have "balanced T F cc1 (pf_calls s)"
      using Cons.prems(3) g(4) by (simp add: balanced_def lru_of_def)
    with Cons.IH [of cc1 s] show ?thesis using g Cons.prems CacheGet by fastforce
  next
    case (CachePut h ctx)
    obtain cc1 out where p: "CertCache_put h ctx cc s
          = Inr (cc1, s\<lparr>pf_calls := pf_calls s @ map CCtxFree out @ [CCtxUpRef ctx]\<rparr>)" "cache_wf cc1"
        "cc_maxEntries cc1 = cc_maxEntries cc" "lru_of cc1 = lru_put (cc_maxEntries cc) h ctx (lru_of cc)"
        "mset (map snd (lru_of cc1)) + mset out = mset (map snd (lru_of cc)) + {#ctx#}"
      using CertCache_put_ok [OF Cons.prems(1,2), of h ctx s] by blast
    let ?s = "s\<lparr>pf_calls := pf_calls s @ map CCtxFree out @ [CCtxUpRef ctx]\<rparr>"
    have "balanced T F cc1 (pf_calls ?s)" using balanced_put [OF Cons.prems(3) p(5)] by simp
    with Cons.IH [of cc1 ?s] show ?thesis using p Cons.prems CachePut by fastforce
  qed
qed simp

lemma fresh_calls_ok:
  assumes "0 < cap"
  obtains rs cc s' where "cache_calls ops (CertCache_new cap) s = Inr (rs, cc, s')" "cache_wf cc"
    "balanced (refs_taken (pf_calls s)) (refs_freed (pf_calls s)) cc (pf_calls s')"
    "cc_maxEntries cc = cap" "lru_calls cap ops [] = (rs, lru_of cc)"
proof -
  have "balanced (refs_taken (pf_calls s)) (refs_freed (pf_calls s)) (CertCache_new cap) (pf_calls s)"
    by (simp add: balanced_def lru_of_def CertCache_new_def ac_simps)
  from cache_calls_ok [OF cache_wf_new _ this, of ops] show ?thesis
    using assms that by (auto simp: CertCache_new_def lru_of_def)
qed

text \<open>
  C23: any sequence of \<^verbatim>\<open>get\<close> and \<^verbatim>\<open>put\<close> calls on a new cache of positive capacity runs without undefined
  behaviour, returns exactly what a recency list of that capacity returns, and never holds more
  entries than the capacity.
\<close>

theorem cert_cache_refines_lru:
  assumes "0 < cap"
  shows "\<exists>rs cc s'. cache_calls ops (CertCache_new cap) s = Inr (rs, cc, s') \<and>
     lru_calls cap ops [] = (rs, map (\<lambda>n. (en_hostname (snd n), en_ctx (snd n))) (cc_order cc)) \<and>
     CertCache_size cc \<le> cap"
proof -
  obtain rs cc s' where "cache_calls ops (CertCache_new cap) s = Inr (rs, cc, s')" "cache_wf cc"
    "cc_maxEntries cc = cap" "lru_calls cap ops [] = (rs, lru_of cc)"
    using fresh_calls_ok [OF assms, of ops s] by metis
  then show ?thesis by (auto simp: lru_of_def CertCache_size_def cache_wf_def)
qed

theorem cert_cache_refines_lru_witness:
  "\<exists>cc s'. cache_calls [CachePut ''a'' 1, CachePut ''b'' 2, CacheGet ''a'', CachePut ''c'' 3, CacheGet ''b'']
      (CertCache_new 2) \<lparr>pf_calls = []\<rparr> = Inr ([Some 1, None], cc, s') \<and> CertCache_size cc \<le> 2"
proof -
  let ?ops = "[CachePut ''a'' 1, CachePut ''b'' 2, CacheGet ''a'', CachePut ''c'' 3, CacheGet ''b'']"
  have "fst (lru_calls 2 ?ops []) = [Some 1, None]"
    by (simp add: lru_get_def lru_put_def lru_touch_def)
  moreover obtain rs cc s' where "cache_calls ?ops (CertCache_new 2) \<lparr>pf_calls = []\<rparr> = Inr (rs, cc, s')"
      "lru_calls 2 ?ops [] = (rs, map (\<lambda>n. (en_hostname (snd n), en_ctx (snd n))) (cc_order cc))"
      "CertCache_size cc \<le> 2"
    using cert_cache_refines_lru [of 2 ?ops "\<lparr>pf_calls = []\<rparr>"] by auto
  ultimately show ?thesis by auto
qed

text \<open>
  The cache balances its references: after any sequence of calls and the destructor, every
  \<^verbatim>\<open>SSL_CTX\<close> reference the cache took has been given back, no more and no fewer.
\<close>

theorem cert_cache_references:
  assumes "0 < cap"
  shows "\<exists>rs cc s'. cache_calls ops (CertCache_new cap) s = Inr (rs, cc, s') \<and>
     refs_taken (pf_calls (CertCache_destroy cc s')) + refs_freed (pf_calls s)
       = refs_freed (pf_calls (CertCache_destroy cc s')) + refs_taken (pf_calls s)"
proof -
  obtain rs cc s' where c: "cache_calls ops (CertCache_new cap) s = Inr (rs, cc, s')"
    "balanced (refs_taken (pf_calls s)) (refs_freed (pf_calls s)) cc (pf_calls s')"
    using fresh_calls_ok [OF assms, of ops s] by metis
  have "pf_calls (fold (\<lambda>n. sys (CCtxFree (en_ctx (snd n)))) ns t)
      = pf_calls t @ map CCtxFree (map (\<lambda>n. en_ctx (snd n)) ns)" for ns :: "(nat \<times> Entry) list" and t :: "'a platform_scheme"
    by (induction ns arbitrary: t) simp_all
  then have "pf_calls (CertCache_destroy cc s') = pf_calls s' @ map CCtxFree (map snd (lru_of cc))"
    by (simp add: CertCache_destroy_def lru_of_def comp_def)
  then show ?thesis using c by (auto simp: balanced_def ac_simps simp del: map_map mset_map)
qed

theorem cert_cache_references_witness:
  "\<exists>rs cc s'. cache_calls [CachePut ''a'' 1, CachePut ''b'' 2] (CertCache_new 1) \<lparr>pf_calls = []\<rparr> = Inr (rs, cc, s') \<and>
     refs_taken (pf_calls (CertCache_destroy cc s')) = refs_freed (pf_calls (CertCache_destroy cc s'))"
  using cert_cache_references [of 1 "[CachePut ''a'' 1, CachePut ''b'' 2]" "\<lparr>pf_calls = []\<rparr>"]
  by (auto simp: refs_taken_def [of "[]"] refs_freed_def [of "[]"])

text \<open>With a capacity of zero the first \<^verbatim>\<open>put\<close> evicts from an empty list, which is undefined behaviour.\<close>

theorem cert_cache_zero_capacity:
  "CertCache_put h ctx (CertCache_new 0) s = Inl UndefinedBehaviour"
  by (simp add: CertCache_put_def CertCache_new_def evict_lru_def)

end
