(* ===== verification/Cert_Generator.thy ===== *)
theory Cert_Generator
  imports Platform
begin

text \<open>
  \<^verbatim>\<open>Tls/CertGenerator.hpp\<close> and \<^verbatim>\<open>Tls/CertGenerator.cpp\<close>: forging leaf certificates. A certificate is the
  record of the fields that \<^verbatim>\<open>generate\<close> sets; key generation, the random numbers, the construction of
  extensions, signing and the PEM files are answers of OpenSSL and the file system (\<open>x509lib\<close>).
\<close>

section \<open>Data\<close>

text \<open>
  \<open>xl_openCert\<close> and \<open>xl_openKey\<close>: \<open>None\<close> when \<^verbatim>\<open>fopen\<close> fails, \<open>Some None\<close> when the PEM data does not
  parse. A CA certificate is its subject name. \<open>xl_nameOk\<close>: OpenSSL
  accepts the common name (it refuses one of more than 64 characters, which the code does not check).
  \<open>xl_extOk\<close>: \<^verbatim>\<open>X509V3_EXT_conf_nid\<close> is not null.
\<close>

record x509lib =
  xl_openCert :: "string \<Rightarrow> string option option"
  xl_openKey :: "string \<Rightarrow> evp_pkey option option"
  xl_rsaGen :: "syscall list \<Rightarrow> evp_pkey option"
  xl_x509New :: "syscall list \<Rightarrow> bool"
  xl_mt19937 :: "syscall list \<Rightarrow> u64"
  xl_nameOk :: "string \<Rightarrow> bool"
  xl_extOk :: "x509_ext \<Rightarrow> bool"
  xl_sign :: "syscall list \<Rightarrow> X509 \<Rightarrow> bool"

record CertGenerator =
  cg_caCert :: string
  cg_caKey :: evp_pkey

record CertKeyPair =
  ck_cert :: X509
  ck_key :: evp_pkey

section \<open>Operations\<close>

definition CertGenerator_create :: "x509lib \<Rightarrow> string \<Rightarrow> string \<Rightarrow> Error + CertGenerator" where
  "CertGenerator_create lib caCertPath caKeyPath =
     (case xl_openCert lib caCertPath of
        None \<Rightarrow> Inl (mkError ConfigError (''Cannot open CA cert: '' @ caCertPath))
      | Some None \<Rightarrow> Inl (mkError ConfigError ''Failed to parse CA cert'')
      | Some (Some cert) \<Rightarrow>
          (case xl_openKey lib caKeyPath of
             None \<Rightarrow> Inl (mkError ConfigError (''Cannot open CA key: '' @ caKeyPath))
           | Some None \<Rightarrow> Inl (mkError ConfigError ''Failed to parse CA key'')
           | Some (Some key) \<Rightarrow> Inr \<lparr>cg_caCert = cert, cg_caKey = key\<rparr>))"

text \<open>\<^verbatim>\<open>c_str()\<close> handed to a C function that reads up to the first null byte.\<close>

definition c_string :: "string \<Rightarrow> string" where
  "c_string s = takeWhile (\<lambda>c. c \<noteq> CHR 0x00) s"

definition add_ext :: "x509lib \<Rightarrow> x509_ext \<Rightarrow> X509 \<Rightarrow> X509" where
  "add_ext lib e c = (if xl_extOk lib e then c\<lparr>xc_exts := xc_exts c @ [e]\<rparr> else c)"

definition CertGenerator_generate ::
  "x509lib \<Rightarrow> CertGenerator \<Rightarrow> string \<Rightarrow> 'a platform_scheme \<Rightarrow> (Error + CertKeyPair) \<times> 'a platform_scheme" where
  "CertGenerator_generate lib gen hostname s0 =
     (let h = pf_calls s0; s = sys (CCertGen hostname) s0
      in case xl_rsaGen lib h of
           None \<Rightarrow> (Inl (mkError CertGenerationFailed ''Failed to generate RSA key''), s)
         | Some leafKey \<Rightarrow>
             if \<not> xl_x509New lib h then (Inl (mkError CertGenerationFailed ''Failed to create X509''), s)
             else
               (let cert = \<lparr>xc_version = 2,
                            xc_serial = int (unat (xl_mt19937 lib h) mod 2 ^ 31),
                            xc_notBefore = -86400, xc_notAfter = 180 * 86400,
                            xc_subjectCN = (if xl_nameOk lib (c_string hostname) then c_string hostname else []),
                            xc_issuer = cg_caCert gen,
                            xc_pubkey = leafKey, xc_exts = [], xc_signedBy = None\<rparr>;
                    cert = add_ext lib (SubjectAltName (c_string (''DNS:'' @ hostname))) cert;
                    cert = add_ext lib (BasicConstraints ''CA:FALSE'') cert
                in if xl_sign lib h cert
                   then (Inr \<lparr>ck_cert = cert\<lparr>xc_signedBy := Some (cg_caKey gen)\<rparr>, ck_key = leafKey\<rparr>, s)
                   else (Inl (mkError CertGenerationFailed ''Failed to sign certificate''), s)))"

section \<open>What a forged certificate says\<close>

text \<open>
  A certificate that \<^verbatim>\<open>generate\<close> returns is an X.509 version 3 certificate for the host name without
  null bytes, issued and signed by the CA, valid from a day ago for 180 days from now, with a
  non-negative 31-bit serial number and the public half of the returned key; with extensions that
  OpenSSL accepts it carries the host name as its only alternative name and is no CA.
\<close>

theorem forged_certificate:
  assumes "fst (CertGenerator_generate lib gen hostname s) = Inr p" and "CHR 0x00 \<notin> set hostname"
    and "\<And>e. xl_extOk lib e" and "xl_nameOk lib hostname"
  shows "xc_version (ck_cert p) = 2 \<and> xc_subjectCN (ck_cert p) = hostname \<and>
     xc_issuer (ck_cert p) = cg_caCert gen \<and> xc_signedBy (ck_cert p) = Some (cg_caKey gen) \<and>
     xc_notBefore (ck_cert p) < 0 \<and> xc_notAfter (ck_cert p) = 15552000 \<and>
     0 \<le> xc_serial (ck_cert p) \<and> xc_serial (ck_cert p) < 2 ^ 31 \<and> xc_pubkey (ck_cert p) = ck_key p \<and>
     xc_exts (ck_cert p) = [SubjectAltName (''DNS:'' @ hostname), BasicConstraints ''CA:FALSE'']"
proof -
  have "c_string hostname = hostname" "c_string (''DNS:'' @ hostname) = ''DNS:'' @ hostname"
    using assms(2) by (auto simp: c_string_def takeWhile_eq_all_conv)
  then show ?thesis using assms(1,3,4)
    by (auto simp: CertGenerator_generate_def add_ext_def Let_def split: option.splits if_splits)
qed

definition sample_x509 :: x509lib where
  "sample_x509 = \<lparr>xl_openCert = (\<lambda>_. Some (Some ''CA'')), xl_openKey = (\<lambda>_. Some (Some 1)), xl_rsaGen = (\<lambda>_. Some 2),
     xl_x509New = (\<lambda>_. True), xl_mt19937 = (\<lambda>_. -1), xl_nameOk = (\<lambda>n. length n \<le> 64),
     xl_extOk = (\<lambda>_. True), xl_sign = (\<lambda>_ _. True)\<rparr>"

theorem forged_certificate_witness:
  "\<exists>p. fst (CertGenerator_generate sample_x509 \<lparr>cg_caCert = ''CA'', cg_caKey = 1\<rparr> ''a.org'' \<lparr>pf_calls = []\<rparr>) = Inr p \<and>
     xc_subjectCN (ck_cert p) = ''a.org'' \<and> xc_serial (ck_cert p) < 2 ^ 31"
proof -
  obtain p where p: "fst (CertGenerator_generate sample_x509 \<lparr>cg_caCert = ''CA'', cg_caKey = 1\<rparr> ''a.org'' \<lparr>pf_calls = []\<rparr>) = Inr p"
    by (simp add: CertGenerator_generate_def sample_x509_def add_ext_def Let_def)
  have "CHR 0x00 \<notin> set ''a.org''" "xl_nameOk sample_x509 ''a.org''" "xl_extOk sample_x509 e" for e
    by (simp_all add: sample_x509_def)
  from forged_certificate [OF p this(1,3,2)] p show ?thesis by blast
qed

end
