(* ===== verification/Proxy_Session.thy ===== *)
theory Proxy_Session
  imports Tls_Connection Http1_Codec Cert_Cache Cert_Generator
begin

text \<open>
  \<^verbatim>\<open>Proxy/ProxySession.hpp\<close> and \<^verbatim>\<open>Proxy/ProxySession.cpp\<close>: one proxied client. Sessions live in a heap
  (\<open>px_sessions\<close>) that extends the state of the connections; the closures a session installs in its
  connections, TLS connections and the event loop are the constructors of \<open>sess_cb\<close>, and
  \<open>sess_data\<close>, \<open>sess_call\<close>, \<open>sess_error\<close> run them. A codec is taken out of the session while its
  \<^verbatim>\<open>decode\<close> is on the stack, so that assigning to it there is undefined behaviour. Following a null
  pointer or an \<^verbatim>\<open>expected\<close> without a value is undefined behaviour too. The functions stand in the order
  in which they call each other. Log output is not modelled.
\<close>

section \<open>State\<close>

datatype sess_cb =
    ScClientData nat
  | ScClientClose nat
  | ScClientError nat
  | ScUpstreamData nat
  | ScUpstreamClose nat
  | ScUpstreamError nat
  | ScConnected nat fd
  | ScUpstreamTls nat ssl_ctx string
  | ScUpstreamTlsError nat ssl_ctx
  | ScClientTls nat ssl_ctx ssl_ctx
  | ScClientTlsError nat ssl_ctx ssl_ctx
  | ScMitmClientData nat
  | ScMitmUpstreamData nat
  | ScMitmClose nat

record 'p ProxySession =
  ps_client :: "nat option"
  ps_upstream :: "nat option"
  ps_tlsClient :: "nat option"
  ps_tlsUpstream :: "nat option"
  ps_connectingSocket :: Socket
  ps_certGen :: "CertGenerator option"
  ps_hasCertCache :: bool
  ps_clientCodec :: "'p Http1Codec option"
  ps_clientCallbacks :: bool
  ps_upstreamCodec :: "'p Http1Codec option"
  ps_upstreamCallbacks :: bool
  ps_currentRequest :: HttpRequest
  ps_connectHostname :: string
  ps_pendingBody :: buffer
  ps_responseBody :: buffer
  ps_payloadInspector :: bool
  ps_isTunnel :: bool
  ps_isConnect :: bool
  ps_isTlsMitm :: bool
  ps_closed :: bool

record 'p proxy = "sess_cb tnet" +
  px_sessions :: "nat \<rightharpoonup> 'p ProxySession"
  px_nextSession :: nat
  px_certCache :: CertCache

text \<open>The code outside the repository that a session calls, and the fuel of the TLS read loop.\<close>

record 'p env =
  ev_os :: os
  ev_lib :: openssl
  ev_x509 :: x509lib
  ev_ll :: "'p llhttp"
  ev_fuel :: nat

definition kMaxInspectBytes :: nat where
  "kMaxInspectBytes = 16 * 1024 * 1024"

definition with_sess :: "nat \<Rightarrow> ('p, 'a) proxy_scheme \<Rightarrow> ('p ProxySession \<Rightarrow> fault + 'b) \<Rightarrow> fault + 'b" where
  "with_sess i s f = (case px_sessions s i of None \<Rightarrow> Inl UndefinedBehaviour | Some x \<Rightarrow> f x)"

definition put_sess :: "nat \<Rightarrow> 'p ProxySession \<Rightarrow> ('p, 'a) proxy_scheme \<Rightarrow> ('p, 'a) proxy_scheme" where
  "put_sess i x s = s\<lparr>px_sessions := (px_sessions s)(i \<mapsto> x)\<rparr>"

definition upd_sess ::
  "nat \<Rightarrow> ('p ProxySession \<Rightarrow> 'p ProxySession) \<Rightarrow> ('p, 'a) proxy_scheme \<Rightarrow> fault + ('p, 'a) proxy_scheme" where
  "upd_sess i f s = with_sess i s (\<lambda>x. Inr (put_sess i (f x) s))"

text \<open>\<^verbatim>\<open>p->f(...)\<close> through a pointer that may be null.\<close>

fun deref :: "nat option \<Rightarrow> (nat \<Rightarrow> fault + 'b) \<Rightarrow> fault + 'b" where
  "deref None f = Inl UndefinedBehaviour"
| "deref (Some c) f = f c"

text \<open>\<^verbatim>\<open>if (p) p->f(...)\<close>\<close>

fun if_set :: "nat option \<Rightarrow> (nat \<Rightarrow> 's \<Rightarrow> fault + 's) \<Rightarrow> 's \<Rightarrow> fault + 's" where
  "if_set None f s = Inr s"
| "if_set (Some c) f s = f c s"

lemma with_sess_Inr [res_iff]: "with_sess i s f = Inr r \<longleftrightarrow> (\<exists>x. px_sessions s i = Some x \<and> f x = Inr r)"
  by (simp add: with_sess_def split: option.splits)

lemma upd_sess_Inr [res_iff]:
  "upd_sess i f s = Inr s' \<longleftrightarrow> (\<exists>x. px_sessions s i = Some x \<and> s' = put_sess i (f x) s)"
  by (auto simp: upd_sess_def res_iff)

lemma deref_Inr [res_iff]: "deref p f = Inr r \<longleftrightarrow> (\<exists>c. p = Some c \<and> f c = Inr r)"
  by (cases p) simp_all

section \<open>Construction and closing\<close>

definition ProxySession_new ::
  "'p env \<Rightarrow> Socket \<Rightarrow> CertGenerator option \<Rightarrow> bool \<Rightarrow> ('p, 'a) proxy_scheme \<Rightarrow> nat \<times> ('p, 'a) proxy_scheme" where
  "ProxySession_new env clientSocket certGen hasCache s0 =
     (let i = px_nextSession s0;
          s1 = snd (Socket_setNonblocking (ev_os env) clientSocket s0);
          (c, s2) = Connection_new clientSocket s1
      in (i, put_sess i
               \<lparr>ps_client = Some c, ps_upstream = None, ps_tlsClient = None, ps_tlsUpstream = None,
                ps_connectingSocket = Socket_new, ps_certGen = certGen, ps_hasCertCache = hasCache,
                ps_clientCodec = Some (Http1Codec_new (ev_ll env) (2 * i) CtRequest), ps_clientCallbacks = False,
                ps_upstreamCodec = Some (Http1Codec_new (ev_ll env) (2 * i + 1) CtResponse),
                ps_upstreamCallbacks = False,
                ps_currentRequest = HttpRequest_new, ps_connectHostname = [],
                ps_pendingBody = Buffer_new, ps_responseBody = Buffer_new, ps_payloadInspector = False,
                ps_isTunnel = False, ps_isConnect = False, ps_isTlsMitm = False, ps_closed = False\<rparr>
               (s2\<lparr>px_nextSession := Suc i\<rparr>)))"

definition ProxySession_setPayloadInspector :: "nat \<Rightarrow> ('p, 'a) proxy_scheme \<Rightarrow> fault + ('p, 'a) proxy_scheme" where
  "ProxySession_setPayloadInspector i s = upd_sess i (\<lambda>x. x\<lparr>ps_payloadInspector := True\<rparr>) s"

definition ProxySession_start :: "nat \<Rightarrow> ('p, 'a) proxy_scheme \<Rightarrow> fault + ('p, 'a) proxy_scheme" where
  "ProxySession_start i s =
     with_sess i s (\<lambda>x. deref (ps_client x) (\<lambda>c.
       rbind (Connection_onData (ScClientData i) c s) (\<lambda>s.
       rbind (Connection_onClose (ScClientClose i) c s) (\<lambda>s.
       rbind (Connection_onError (ScClientError i) c s) (\<lambda>s.
       rbind (upd_sess i (\<lambda>x. x\<lparr>ps_clientCallbacks := True, ps_upstreamCallbacks := True\<rparr>) s) (\<lambda>s.
       Connection_startRead c s))))))"

definition ProxySession_close :: "nat \<Rightarrow> ('p, 'a) proxy_scheme \<Rightarrow> fault + ('p, 'a) proxy_scheme" where
  "ProxySession_close i s0 =
     with_sess i s0 (\<lambda>x.
       if ps_closed x then Inr s0
       else
         (let (k, s) = (if Socket_valid (ps_connectingSocket x)
                        then Socket_close (ps_connectingSocket x)
                               (KqueueLoop_remove (so_fd (ps_connectingSocket x)) s0)
                        else (ps_connectingSocket x, s0));
              s = put_sess i (x\<lparr>ps_closed := True, ps_connectingSocket := k\<rparr>) s
          in rbind (if_set (ps_client x) Connection_close s) (\<lambda>s.
             rbind (if_set (ps_upstream x) Connection_close s) (\<lambda>s.
             rbind (if_set (ps_tlsClient x) TlsConnection_close s) (\<lambda>s.
             if_set (ps_tlsUpstream x) TlsConnection_close s)))))"

text \<open>
  The error closures of a session. A closure that is installed for another purpose is never run as
  an error closure; the equation for it only makes the function total (likewise below).
\<close>

fun sess_error :: "sess_cb \<Rightarrow> Error \<Rightarrow> ('p, 'a) proxy_scheme \<Rightarrow> fault + ('p, 'a) proxy_scheme" where
  "sess_error (ScClientError i) e s = ProxySession_close i s"
| "sess_error (ScUpstreamError i) e s = ProxySession_close i s"
| "sess_error (ScUpstreamTlsError i ctx) e s = ProxySession_close i (sys (CCtxFree ctx) s)"
| "sess_error (ScClientTlsError i clientCtx upstreamCtx) e s =
     ProxySession_close i (sys (CCtxFree upstreamCtx) (sys (CCtxFree clientCtx) s))"
| "sess_error _ e s = Inr s"

section \<open>Writing\<close>

definition writeToClient ::
  "'p env \<Rightarrow> buffer \<Rightarrow> nat \<Rightarrow> ('p, 'a) proxy_scheme \<Rightarrow> fault + buffer \<times> ('p, 'a) proxy_scheme" where
  "writeToClient env data i s =
     with_sess i s (\<lambda>x.
       case (ps_isTlsMitm x, ps_tlsClient x) of
         (True, Some t) \<Rightarrow> TlsConnection_write (ev_lib env) sess_error data t s
       | _ \<Rightarrow>
           (case ps_client x of
              None \<Rightarrow> Inr (data, s)
            | Some c \<Rightarrow>
                rbind (Connection_connected c s)
                  (\<lambda>up. if up then Connection_write (ev_os env) sess_error data c s else Inr (data, s))))"

definition writeToClient_string ::
  "'p env \<Rightarrow> string \<Rightarrow> nat \<Rightarrow> ('p, 'a) proxy_scheme \<Rightarrow> fault + ('p, 'a) proxy_scheme" where
  "writeToClient_string env data i s =
     with_sess i s (\<lambda>x.
       case (ps_isTlsMitm x, ps_tlsClient x) of
         (True, Some t) \<Rightarrow> TlsConnection_write_string (ev_lib env) sess_error data t s
       | _ \<Rightarrow>
           (case ps_client x of
              None \<Rightarrow> Inr s
            | Some c \<Rightarrow>
                rbind (Connection_connected c s)
                  (\<lambda>up. if up then Connection_write_string (ev_os env) sess_error data c s else Inr s)))"

definition writeToUpstream ::
  "'p env \<Rightarrow> buffer \<Rightarrow> nat \<Rightarrow> ('p, 'a) proxy_scheme \<Rightarrow> fault + buffer \<times> ('p, 'a) proxy_scheme" where
  "writeToUpstream env data i s =
     with_sess i s (\<lambda>x.
       case (ps_isTlsMitm x, ps_tlsUpstream x) of
         (True, Some t) \<Rightarrow> TlsConnection_write (ev_lib env) sess_error data t s
       | _ \<Rightarrow>
           (case ps_upstream x of
              None \<Rightarrow> Inr (data, s)
            | Some c \<Rightarrow>
                rbind (Connection_connected c s)
                  (\<lambda>up. if up then Connection_write (ev_os env) sess_error data c s else Inr (data, s))))"

text \<open>\<^verbatim>\<open>writeToUpstream(pendingBody_)\<close>: the member buffer is handed over by reference.\<close>

definition write_pendingBody :: "'p env \<Rightarrow> nat \<Rightarrow> ('p, 'a) proxy_scheme \<Rightarrow> fault + ('p, 'a) proxy_scheme" where
  "write_pendingBody env i s =
     with_sess i s (\<lambda>x.
       rbind (writeToUpstream env (ps_pendingBody x) i s)
         (\<lambda>(rest, s). upd_sess i (\<lambda>x. x\<lparr>ps_pendingBody := rest\<rparr>) s))"

definition clientConnected :: "nat \<Rightarrow> ('p, 'a) proxy_scheme \<Rightarrow> fault + bool" where
  "clientConnected i s =
     with_sess i s (\<lambda>x.
       if ps_isTlsMitm x then Inr (ps_tlsClient x \<noteq> None)
       else case ps_client x of None \<Rightarrow> Inr False | Some c \<Rightarrow> Connection_connected c s)"

definition error_response :: "u16 \<Rightarrow> string \<Rightarrow> HttpResponse" where
  "error_response status reason = HttpResponse_new\<lparr>rs_statusCode := status, rs_reason := reason,
     rs_headers := HeaderMap_set ''Connection'' ''close'' (HeaderMap_set ''Content-Length'' ''0'' [])\<rparr>"

definition ProxySession_sendError ::
  "'p env \<Rightarrow> u16 \<Rightarrow> string \<Rightarrow> nat \<Rightarrow> ('p, 'a) proxy_scheme \<Rightarrow> fault + ('p, 'a) proxy_scheme" where
  "ProxySession_sendError env status reason i s =
     rbind (encodeResponse (error_response status reason) Buffer_new)
       (\<lambda>out. rbind (writeToClient env out i s) (\<lambda>(_, s). Inr s))"

section \<open>Towards the upstream server\<close>

definition setupUpstreamCallbacks :: "nat \<Rightarrow> ('p, 'a) proxy_scheme \<Rightarrow> fault + ('p, 'a) proxy_scheme" where
  "setupUpstreamCallbacks i s =
     with_sess i s (\<lambda>x. deref (ps_upstream x) (\<lambda>c.
       rbind (Connection_onData (ScUpstreamData i) c s) (\<lambda>s.
       rbind (Connection_onClose (ScUpstreamClose i) c s) (\<lambda>s.
       Connection_onError (ScUpstreamError i) c s))))"

text \<open>The absolute URL of a proxy request, as the path an origin server expects.\<close>

definition origin_form :: "string \<Rightarrow> string" where
  "origin_form url =
     (case str_find_sub ''://'' url of
        None \<Rightarrow> url
      | Some schemeEnd \<Rightarrow>
          (case str_find_from CHR ''/'' (schemeEnd + 3) url of
             Some pathStart \<Rightarrow> drop pathStart url
           | None \<Rightarrow> ''/''))"

definition forwardRequest :: "'p env \<Rightarrow> nat \<Rightarrow> ('p, 'a) proxy_scheme \<Rightarrow> fault + ('p, 'a) proxy_scheme" where
  "forwardRequest env i s0 =
     rbind (with_sess i s0 (\<lambda>x.
              if ps_isTlsMitm x then Inr s0
              else rbind (setupUpstreamCallbacks i s0)
                     (\<lambda>s. deref (ps_upstream x) (\<lambda>c. Connection_startRead c s)))) (\<lambda>s.
     rbind (upd_sess i (\<lambda>x. x\<lparr>ps_currentRequest := (ps_currentRequest x)
              \<lparr>rq_url := origin_form (rq_url (ps_currentRequest x))\<rparr>\<rparr>) s) (\<lambda>s.
     with_sess i s (\<lambda>x.
       rbind (encodeRequest (ps_currentRequest x) Buffer_new) (\<lambda>out.
       rbind (writeToUpstream env out i s) (\<lambda>(_, s).
       with_sess i s (\<lambda>x. if Buffer_empty (ps_pendingBody x) then Inr s else write_pendingBody env i s))))))"

section \<open>TLS interception\<close>

text \<open>The codecs may be replaced only while their \<^verbatim>\<open>decode\<close> is not running.\<close>

definition reset_codecs :: "'p env \<Rightarrow> nat \<Rightarrow> ('p, 'a) proxy_scheme \<Rightarrow> fault + ('p, 'a) proxy_scheme" where
  "reset_codecs env i s =
     with_sess i s (\<lambda>x.
       case (ps_clientCodec x, ps_upstreamCodec x) of
         (Some cc, Some uc) \<Rightarrow>
           Inr (put_sess i
             (x\<lparr>ps_clientCodec := Some (Http1Codec_assign 0 cc (Http1Codec_new (ev_ll env) 0 CtRequest)),
                ps_upstreamCodec := Some (Http1Codec_assign 0 uc (Http1Codec_new (ev_ll env) 0 CtResponse)),
                ps_clientCallbacks := True, ps_upstreamCallbacks := True\<rparr>) s)
       | _ \<Rightarrow> Inl UndefinedBehaviour)"

text \<open>The completion closure of the handshake with the client.\<close>

definition client_tls_done ::
  "'p env \<Rightarrow> nat \<Rightarrow> ssl_ctx \<Rightarrow> ssl_ctx \<Rightarrow> ('p, 'a) proxy_scheme \<Rightarrow> fault + ('p, 'a) proxy_scheme" where
  "client_tls_done env i clientCtx upstreamCtx s =
     rbind (reset_codecs env i s) (\<lambda>s.
     with_sess i s (\<lambda>x. deref (ps_tlsClient x) (\<lambda>tc. deref (ps_tlsUpstream x) (\<lambda>tu.
       rbind (TlsConnection_onData (ScMitmClientData i) tc s) (\<lambda>s.
       rbind (TlsConnection_onClose (ScMitmClose i) tc s) (\<lambda>s.
       rbind (TlsConnection_onData (ScMitmUpstreamData i) tu s) (\<lambda>s.
       rbind (TlsConnection_onClose (ScMitmClose i) tu s) (\<lambda>s.
       rbind (TlsConnection_startRead tc s) (\<lambda>s.
       rbind (TlsConnection_startRead tu s) (\<lambda>s.
       Inr (sys (CCtxFree upstreamCtx) (sys (CCtxFree clientCtx) s))))))))))))"

fun client_hs_done :: "'p env \<Rightarrow> sess_cb \<Rightarrow> ('p, 'a) proxy_scheme \<Rightarrow> fault + ('p, 'a) proxy_scheme" where
  "client_hs_done env (ScClientTls i clientCtx upstreamCtx) s = client_tls_done env i clientCtx upstreamCtx s"
| "client_hs_done env _ s = Inr s"

definition cache_put :: "bool \<Rightarrow> string \<Rightarrow> ssl_ctx \<Rightarrow> ('p, 'a) proxy_scheme \<Rightarrow> fault + ('p, 'a) proxy_scheme" where
  "cache_put has hostname ctx s =
     (if has then rbind (CertCache_put hostname ctx (px_certCache s) s) (\<lambda>(cc, s). Inr (s\<lparr>px_certCache := cc\<rparr>))
      else Inr s)"

text \<open>The socket of the client moves from its connection to a TLS server connection, which shakes hands.\<close>

definition start_client_tls ::
  "'p env \<Rightarrow> nat \<Rightarrow> ssl_ctx \<Rightarrow> ssl_ctx \<Rightarrow> nat \<Rightarrow> ('p, 'a) proxy_scheme \<Rightarrow> fault + ('p, 'a) proxy_scheme" where
  "start_client_tls env i clientCtx upstreamCtx c s =
     rbind (Connection_releaseSocket c s) (\<lambda>(clientSock, s).
     rbind (Connection_destroy c s) (\<lambda>s.
     let (t, s) = TlsConnection_new (ev_lib env) clientSock clientCtx True s
     in rbind (upd_sess i (\<lambda>x. x\<lparr>ps_client := None, ps_tlsClient := Some t\<rparr>) s) (\<lambda>s.
        TlsConnection_startHandshake (ev_lib env) (client_hs_done env) sess_error
          (ScClientTls i clientCtx upstreamCtx) (ScClientTlsError i clientCtx upstreamCtx) t s)))"

text \<open>The completion closure of the handshake with the upstream server.\<close>

definition upstream_tls_done ::
  "'p env \<Rightarrow> nat \<Rightarrow> ssl_ctx \<Rightarrow> string \<Rightarrow> ('p, 'a) proxy_scheme \<Rightarrow> fault + ('p, 'a) proxy_scheme" where
  "upstream_tls_done env i upstreamCtx hostname s0 =
     with_sess i s0 (\<lambda>x.
       case ps_certGen x of
         None \<Rightarrow> Inl UndefinedBehaviour
       | Some gen \<Rightarrow>
           (case CertGenerator_generate (ev_x509 env) gen hostname s0 of
              (Inl e, s) \<Rightarrow> ProxySession_close i (sys (CCtxFree upstreamCtx) s)
            | (Inr pair, s) \<Rightarrow>
                (let clientCtx = tls_ctxNew (ev_lib env) (pf_calls s);
                     s = sys (CCtxUsePrivateKey clientCtx (ck_key pair))
                           (sys (CCtxUseCertificate clientCtx (ck_cert pair)) (sys (CCtxNew clientCtx) s))
                 in rbind (cache_put (ps_hasCertCache x) hostname clientCtx s) (\<lambda>s.
                    deref (ps_client x) (\<lambda>c. start_client_tls env i clientCtx upstreamCtx c s)))))"

fun hs_done :: "'p env \<Rightarrow> sess_cb \<Rightarrow> ('p, 'a) proxy_scheme \<Rightarrow> fault + ('p, 'a) proxy_scheme" where
  "hs_done env (ScUpstreamTls i ctx hostname) s = upstream_tls_done env i ctx hostname s"
| "hs_done env cb s = client_hs_done env cb s"

abbreviation established :: string where
  "established \<equiv> ''HTTP/1.1 200 Connection Established'' @ CRLF @ CRLF"

text \<open>The socket of the upstream connection moves to a TLS client connection, which shakes hands.\<close>

definition start_upstream_tls ::
  "'p env \<Rightarrow> nat \<Rightarrow> ssl_ctx \<Rightarrow> string \<Rightarrow> nat \<Rightarrow> ('p, 'a) proxy_scheme \<Rightarrow> fault + ('p, 'a) proxy_scheme" where
  "start_upstream_tls env i upstreamCtx hostname u s =
     rbind (Connection_releaseSocket u s) (\<lambda>(upstreamSock, s).
     rbind (Connection_destroy u s) (\<lambda>s.
     let (t, s) = TlsConnection_new (ev_lib env) upstreamSock upstreamCtx False s
     in rbind (upd_sess i (\<lambda>x. x\<lparr>ps_upstream := None, ps_tlsUpstream := Some t\<rparr>) s) (\<lambda>s.
        rbind (TlsConnection_setSni hostname t s) (\<lambda>s.
        TlsConnection_startHandshake (ev_lib env) (hs_done env) sess_error
          (ScUpstreamTls i upstreamCtx hostname) (ScUpstreamTlsError i upstreamCtx) t s))))"

definition startTlsMitm :: "'p env \<Rightarrow> string \<Rightarrow> nat \<Rightarrow> ('p, 'a) proxy_scheme \<Rightarrow> fault + ('p, 'a) proxy_scheme" where
  "startTlsMitm env hostname i s0 =
     rbind (upd_sess i (\<lambda>x. x\<lparr>ps_isTlsMitm := True\<rparr>) s0) (\<lambda>s.
     with_sess i s (\<lambda>x. deref (ps_client x) (\<lambda>c.
       rbind (Connection_write_string (ev_os env) sess_error established c s) (\<lambda>s.
       rbind (Connection_stopRead c s) (\<lambda>s.
       let upstreamCtx = tls_ctxNew (ev_lib env) (pf_calls s);
           s = sys (CCtxVerifyNone upstreamCtx) (sys (CCtxNew upstreamCtx) s)
       in deref (ps_upstream x) (\<lambda>u. start_upstream_tls env i upstreamCtx hostname u s))))))"

definition startTunnel :: "'p env \<Rightarrow> nat \<Rightarrow> ('p, 'a) proxy_scheme \<Rightarrow> fault + ('p, 'a) proxy_scheme" where
  "startTunnel env i s0 =
     with_sess i s0 (\<lambda>x.
       if ps_certGen x \<noteq> None then startTlsMitm env (ps_connectHostname x) i s0
       else
         rbind (upd_sess i (\<lambda>x. x\<lparr>ps_isTunnel := True\<rparr>) s0) (\<lambda>s.
         deref (ps_client x) (\<lambda>c.
         rbind (Connection_write_string (ev_os env) sess_error established c s) (\<lambda>s.
         rbind (setupUpstreamCallbacks i s) (\<lambda>s.
         deref (ps_upstream x) (\<lambda>u. Connection_startRead u s))))))"

section \<open>Connecting\<close>

text \<open>Assigning \<^verbatim>\<open>upstream_\<close> drops the last reference to the connection it held before.\<close>

definition onUpstreamConnected :: "'p env \<Rightarrow> nat \<Rightarrow> ('p, 'a) proxy_scheme \<Rightarrow> fault + ('p, 'a) proxy_scheme" where
  "onUpstreamConnected env i s0 =
     with_sess i s0 (\<lambda>x.
       if ps_closed x then Inr s0
       else
         (let (k, rest) = Socket_move (ps_connectingSocket x);
              (c, s) = Connection_new k s0;
              s = put_sess i (x\<lparr>ps_connectingSocket := rest, ps_upstream := Some c\<rparr>) s
          in rbind (if_set (ps_upstream x) Connection_destroy s) (\<lambda>s.
             if ps_isConnect x then startTunnel env i s else forwardRequest env i s)))"

text \<open>The non-blocking connect and what follows it.\<close>

definition connect_socket :: "'p env \<Rightarrow> Address \<Rightarrow> Socket \<Rightarrow> nat \<Rightarrow> ('p, 'a) proxy_scheme \<Rightarrow> fault + ('p, 'a) proxy_scheme" where
  "connect_socket env addr k i s0 =
     (case Socket_connect (ev_os env) addr k s0 of
        (Inl e, s) \<Rightarrow> ProxySession_sendError env 502 ''Bad Gateway'' i s
      | (Inr True, s) \<Rightarrow> onUpstreamConnected env i s
      | (Inr False, s) \<Rightarrow> Inr (KqueueLoop_watch (so_fd k) Writable (App (ScConnected i (so_fd k))) s))"

definition connectUpstream ::
  "'p env \<Rightarrow> string \<Rightarrow> u16 \<Rightarrow> nat \<Rightarrow> ('p, 'a) proxy_scheme \<Rightarrow> fault + ('p, 'a) proxy_scheme" where
  "connectUpstream env host port i s0 =
     (case Address_fromHostPort (ev_os env) host port s0 of
        (Inl e, s) \<Rightarrow> Inl UndefinedBehaviour
      | (Inr addr, s) \<Rightarrow>
          (case Socket_createSocket (ev_os env) addr s of
             (Inl e, s) \<Rightarrow> ProxySession_sendError env 502 ''Bad Gateway'' i s
           | (Inr k, s) \<Rightarrow>
               with_sess i s (\<lambda>x.
                 let ((k, _), s) = Socket_assign (ps_connectingSocket x) k s;
                     s = put_sess i (x\<lparr>ps_connectingSocket := k\<rparr>) s;
                     s = snd (Socket_setNonblocking (ev_os env) k s)
                 in connect_socket env addr k i s)))"

definition handleConnect :: "'p env \<Rightarrow> HttpRequest \<Rightarrow> nat \<Rightarrow> ('p, 'a) proxy_scheme \<Rightarrow> fault + ('p, 'a) proxy_scheme" where
  "handleConnect env req i s0 =
     rbind (case str_rfind CHR '':'' (rq_url req) of
              Some colon \<Rightarrow> rbind (throws (stoi (drop (colon + 1) (rq_url req))))
                              (\<lambda>n. Inr (str_sub 0 colon (rq_url req), word_of_int n))
            | None \<Rightarrow> Inr (rq_url req, 443))
       (\<lambda>(host, port).
          rbind (upd_sess i (\<lambda>x. x\<lparr>ps_connectHostname := host\<rparr>) s0)
            (connectUpstream env host port i))"

section \<open>Callbacks of the codecs\<close>

definition onRequest :: "'p env \<Rightarrow> nat \<Rightarrow> HttpRequest \<Rightarrow> ('p, 'a) proxy_scheme \<Rightarrow> fault + ('p, 'a) proxy_scheme" where
  "onRequest env i req s0 =
     with_sess i s0 (\<lambda>x.
       if rq_method req = CONNECT then
         handleConnect env req i (put_sess i (x\<lparr>ps_currentRequest := req, ps_isConnect := True\<rparr>) s0)
       else
         (let s = put_sess i (x\<lparr>ps_currentRequest := req\<rparr>) s0
          in if ps_isTlsMitm x then forwardRequest env i s
             else connectUpstream env (rq_host req) (if rq_port req = 0 then 80 else rq_port req) i s))"

definition onRequestBody :: "'p env \<Rightarrow> nat \<Rightarrow> buffer \<Rightarrow> bool \<Rightarrow> ('p, 'a) proxy_scheme \<Rightarrow> fault + ('p, 'a) proxy_scheme" where
  "onRequestBody env i body endStream s =
     (if Buffer_empty body then Inr s
      else rbind (upd_sess i (\<lambda>x. x\<lparr>ps_pendingBody := fst (Buffer_move (ps_pendingBody x) body)\<rparr>) s)
             (write_pendingBody env i))"

definition strip_framing :: "bool \<Rightarrow> HttpResponse \<Rightarrow> HttpResponse" where
  "strip_framing mitm resp =
     (if mitm then resp\<lparr>rs_headers := HeaderMap_remove ''Transfer-Encoding'' (rs_headers resp)\<rparr>
      else resp\<lparr>rs_headers := HeaderMap_remove ''Content-Length''
                               (HeaderMap_remove ''Transfer-Encoding'' (rs_headers resp))\<rparr>)"

definition onResponse :: "'p env \<Rightarrow> nat \<Rightarrow> HttpResponse \<Rightarrow> ('p, 'a) proxy_scheme \<Rightarrow> fault + ('p, 'a) proxy_scheme" where
  "onResponse env i resp s =
     with_sess i s (\<lambda>x.
       rbind (encodeResponse (strip_framing (ps_isTlsMitm x) resp) Buffer_new)
         (\<lambda>out. rbind (writeToClient env out i s) (\<lambda>(_, s). Inr s)))"

definition inspect_body :: "bool \<Rightarrow> buffer \<Rightarrow> buffer \<Rightarrow> fault + buffer" where
  "inspect_body inspector body acc =
     (if inspector \<and> Buffer_length acc < kMaxInspectBytes
      then add_all Buffer_add (map Slice_data (Buffer_slices body)) acc
      else Inr acc)"

definition onResponseBody :: "'p env \<Rightarrow> nat \<Rightarrow> buffer \<Rightarrow> bool \<Rightarrow> ('p, 'a) proxy_scheme \<Rightarrow> fault + ('p, 'a) proxy_scheme" where
  "onResponseBody env i body endStream s =
     with_sess i s (\<lambda>x.
       rbind (inspect_body (ps_payloadInspector x) body (ps_responseBody x)) (\<lambda>acc.
       rbind (upd_sess i (\<lambda>x. x\<lparr>ps_responseBody := acc\<rparr>) s) (\<lambda>s.
       if Buffer_empty body then Inr s else rbind (writeToClient env body i s) (\<lambda>(_, s). Inr s))))"

text \<open>The payload inspector is recorded as a call with the body and the URL it is given.\<close>

definition onResponseComplete :: "nat \<Rightarrow> ('p, 'a) proxy_scheme \<Rightarrow> fault + ('p, 'a) proxy_scheme" where
  "onResponseComplete i s0 =
     with_sess i s0 (\<lambda>x.
       let s = (if ps_payloadInspector x \<and> \<not> Buffer_empty (ps_responseBody x)
                then sys (CInspect (Buffer_linearize (ps_responseBody x)) (rq_url (ps_currentRequest x))) s0
                else s0);
           s = put_sess i (x\<lparr>ps_pendingBody := Buffer_new, ps_responseBody := Buffer_new\<rparr>) s
       in if ps_isTlsMitm x then Inr s else ProxySession_close i s)"

definition no_callbacks :: "'s CodecCallbacks" where
  "no_callbacks = \<lparr>cb_onRequest = None, cb_onResponse = None, cb_onBody = None, cb_onMessageComplete = None\<rparr>"

definition client_callbacks :: "'p env \<Rightarrow> nat \<Rightarrow> ('p, 'a) proxy_scheme CodecCallbacks" where
  "client_callbacks env i = \<lparr>cb_onRequest = Some (onRequest env i), cb_onResponse = None,
     cb_onBody = Some (onRequestBody env i), cb_onMessageComplete = None\<rparr>"

definition upstream_callbacks :: "'p env \<Rightarrow> nat \<Rightarrow> ('p, 'a) proxy_scheme CodecCallbacks" where
  "upstream_callbacks env i = \<lparr>cb_onRequest = None, cb_onResponse = Some (onResponse env i),
     cb_onBody = Some (onResponseBody env i), cb_onMessageComplete = Some (onResponseComplete i)\<rparr>"

section \<open>Data from the connections\<close>

text \<open>\<^verbatim>\<open>clientCodec_.decode(data)\<close> and \<^verbatim>\<open>upstreamCodec_.decode(data)\<close>.\<close>

definition decode_client ::
  "'p env \<Rightarrow> nat \<Rightarrow> buffer \<Rightarrow> ('p, 'a) proxy_scheme \<Rightarrow> fault + (Error + unit) \<times> ('p, 'a) proxy_scheme" where
  "decode_client env i data s =
     with_sess i s (\<lambda>x.
       case ps_clientCodec x of
         None \<Rightarrow> Inl UndefinedBehaviour
       | Some codec \<Rightarrow>
           rbind (HttpCodec_decode_buffer (ev_ll env)
                    (if ps_clientCallbacks x then client_callbacks env i else no_callbacks) data
                    (codec, put_sess i (x\<lparr>ps_clientCodec := None\<rparr>) s))
             (\<lambda>((r, codec, s), _).
                rbind (upd_sess i (\<lambda>x. x\<lparr>ps_clientCodec := Some codec\<rparr>) s) (\<lambda>s. Inr (r, s))))"

definition decode_upstream ::
  "'p env \<Rightarrow> nat \<Rightarrow> buffer \<Rightarrow> ('p, 'a) proxy_scheme \<Rightarrow> fault + (Error + unit) \<times> ('p, 'a) proxy_scheme" where
  "decode_upstream env i data s =
     with_sess i s (\<lambda>x.
       case ps_upstreamCodec x of
         None \<Rightarrow> Inl UndefinedBehaviour
       | Some codec \<Rightarrow>
           rbind (HttpCodec_decode_buffer (ev_ll env)
                    (if ps_upstreamCallbacks x then upstream_callbacks env i else no_callbacks) data
                    (codec, put_sess i (x\<lparr>ps_upstreamCodec := None\<rparr>) s))
             (\<lambda>((r, codec, s), _).
                rbind (upd_sess i (\<lambda>x. x\<lparr>ps_upstreamCodec := Some codec\<rparr>) s) (\<lambda>s. Inr (r, s))))"

definition onClientData :: "'p env \<Rightarrow> nat \<Rightarrow> buffer \<Rightarrow> ('p, 'a) proxy_scheme \<Rightarrow> fault + ('p, 'a) proxy_scheme" where
  "onClientData env i data s =
     with_sess i s (\<lambda>x.
       case (ps_isTunnel x, ps_upstream x) of
         (True, Some u) \<Rightarrow> rbind (Connection_write (ev_os env) sess_error data u s) (\<lambda>(_, s). Inr s)
       | _ \<Rightarrow>
           rbind (decode_client env i data s)
             (\<lambda>(r, s). case r of
                Inr _ \<Rightarrow> Inr s
              | Inl e \<Rightarrow> rbind (ProxySession_sendError env 400 ''Bad Request'' i s) (ProxySession_close i)))"

definition onClientClose :: "nat \<Rightarrow> ('p, 'a) proxy_scheme \<Rightarrow> fault + ('p, 'a) proxy_scheme" where
  "onClientClose i s = ProxySession_close i s"

definition onUpstreamData :: "'p env \<Rightarrow> nat \<Rightarrow> buffer \<Rightarrow> ('p, 'a) proxy_scheme \<Rightarrow> fault + ('p, 'a) proxy_scheme" where
  "onUpstreamData env i data s =
     with_sess i s (\<lambda>x.
       if ps_isTunnel x then rbind (writeToClient env data i s) (\<lambda>(_, s). Inr s)
       else
         rbind (decode_upstream env i data s)
           (\<lambda>(r, s). case r of Inr _ \<Rightarrow> Inr s | Inl e \<Rightarrow> ProxySession_close i s))"

definition onUpstreamClose :: "nat \<Rightarrow> ('p, 'a) proxy_scheme \<Rightarrow> fault + ('p, 'a) proxy_scheme" where
  "onUpstreamClose i s = ProxySession_close i s"

fun sess_data :: "'p env \<Rightarrow> sess_cb \<Rightarrow> buffer \<Rightarrow> ('p, 'a) proxy_scheme \<Rightarrow> fault + ('p, 'a) proxy_scheme" where
  "sess_data env (ScClientData i) data s = onClientData env i data s"
| "sess_data env (ScUpstreamData i) data s = onUpstreamData env i data s"
| "sess_data env (ScMitmClientData i) data s =
     rbind (decode_client env i data s)
       (\<lambda>(r, s). case r of Inr _ \<Rightarrow> Inr s | Inl e \<Rightarrow> ProxySession_close i s)"
| "sess_data env (ScMitmUpstreamData i) data s =
     rbind (decode_upstream env i data s)
       (\<lambda>(r, s). case r of Inr _ \<Rightarrow> Inr s | Inl e \<Rightarrow> ProxySession_close i s)"
| "sess_data env _ data s = Inr s"

fun sess_call :: "'p env \<Rightarrow> sess_cb \<Rightarrow> ('p, 'a) proxy_scheme \<Rightarrow> fault + ('p, 'a) proxy_scheme" where
  "sess_call env (ScClientClose i) s = onClientClose i s"
| "sess_call env (ScUpstreamClose i) s = onUpstreamClose i s"
| "sess_call env (ScMitmClose i) s = ProxySession_close i s"
| "sess_call env cb s = hs_done env cb s"

text \<open>The I/O closures of sessions and connections, as the event loop runs them.\<close>

fun sess_io :: "'p env \<Rightarrow> sess_cb net_cb \<Rightarrow> u32 \<Rightarrow> ('p, 'a) proxy_scheme \<Rightarrow> fault + ('p, 'a) proxy_scheme" where
  "sess_io env (IoConnection c) fired s =
     Connection_io (ev_os env) (sess_data env) (sess_call env) sess_error c fired s"
| "sess_io env (IoTls t) fired s =
     TlsConnection_handleIo (ev_lib env) (sess_data env) (sess_call env) sess_error (ev_fuel env) t s"
| "sess_io env (App (ScConnected i f)) fired s = onUpstreamConnected env i (KqueueLoop_remove f s)"
| "sess_io env _ fired s = Inr s"

end
