(* ===== verification/Net_Listener.thy ===== *)
theory Net_Listener
  imports Net_Connection
begin

text \<open>
  \<^verbatim>\<open>Net/Listener.hpp\<close> and \<^verbatim>\<open>Net/Listener.cpp\<close>: the accept loop on the event loop. The accept callback is an
  argument that receives the client socket (and owns it from then on) and the peer address. The
  loop of \<^verbatim>\<open>onReadable\<close> has no bound of its own, so its model takes fuel, one unit per \<^verbatim>\<open>accept\<close>.
\<close>

section \<open>Operations\<close>

abbreviation SOMAXCONN :: int where "SOMAXCONN \<equiv> 128"

definition put_socket :: "Socket \<Rightarrow> ('u, 'a) net_scheme \<Rightarrow> ('u, 'a) net_scheme" where
  "put_socket k s = s\<lparr>nw_listener := (nw_listener s)\<lparr>li_socket := k\<rparr>\<rparr>"

definition Listener_new :: "Address \<Rightarrow> Listener" where
  "Listener_new addr = \<lparr>li_bindAddr = addr, li_socket = Socket_new, li_hasAccept = False, li_resumeTimer = None\<rparr>"

definition listener_fd :: "('u, 'a) net_scheme \<Rightarrow> fd" where
  "listener_fd s = so_fd (li_socket (nw_listener s))"

definition watch_listener :: "('u, 'a) net_scheme \<Rightarrow> ('u, 'a) net_scheme" where
  "watch_listener s = KqueueLoop_watch (listener_fd s) Readable IoListener s"

definition Listener_start :: "os \<Rightarrow> ('u, 'a) net_scheme \<Rightarrow> (Error + unit) \<times> ('u, 'a) net_scheme" where
  "Listener_start os s0 =
     (let s = s0\<lparr>nw_listener := (nw_listener s0)\<lparr>li_hasAccept := True\<rparr>\<rparr>;
          addr = li_bindAddr (nw_listener s)
      in case Socket_createSocket os addr s of
           (Inl e, s) \<Rightarrow> (Inl e, s)
         | (Inr k, s) \<Rightarrow>
             (let ((k1, _), s) = Socket_assign (li_socket (nw_listener s)) k s;
                  s = put_socket k1 s
              in case Socket_setReuseAddr os k1 s of
                   (Inl e, s) \<Rightarrow> (Inl e, s)
                 | (Inr _, s) \<Rightarrow>
                     (case Socket_setNonblocking os k1 s of
                        (Inl e, s) \<Rightarrow> (Inl e, s)
                      | (Inr _, s) \<Rightarrow>
                          (case Socket_bindAndListen os addr SOMAXCONN k1 s of
                             (Inl e, s) \<Rightarrow> (Inl e, s)
                           | (Inr _, s) \<Rightarrow> (Inr (), watch_listener s)))))"

definition Listener_stop :: "('u, 'a) net_scheme \<Rightarrow> ('u, 'a) net_scheme" where
  "Listener_stop s =
     (if Socket_valid (li_socket (nw_listener s)) then
        (let s1 = KqueueLoop_remove (listener_fd s) s;
             (k, s2) = Socket_close (li_socket (nw_listener s)) s1
         in put_socket k s2)
      else s)"

text \<open>Replacing or resetting \<^verbatim>\<open>resumeTimer_\<close> destroys the handle it held, which cancels that timer.\<close>

definition set_resumeTimer :: "TimerHandle option \<Rightarrow> ('u, 'a) net_scheme \<Rightarrow> ('u, 'a) net_scheme" where
  "set_resumeTimer h s =
     (case li_resumeTimer (nw_listener s) of
        None \<Rightarrow> s
      | Some old \<Rightarrow> TimerHandle_cancel old s)
     \<lparr>nw_listener := (nw_listener s)\<lparr>li_resumeTimer := h\<rparr>\<rparr>"

text \<open>The destructor: \<^verbatim>\<open>stop()\<close>, then the members, the resume timer first and the closed socket after it.\<close>

definition Listener_destroy :: "('u, 'a) net_scheme \<Rightarrow> ('u, 'a) net_scheme" where
  "Listener_destroy s0 =
     (let s = set_resumeTimer None (Listener_stop s0)
      in Socket_destroy (li_socket (nw_listener s)) s)"

definition Listener_pauseAccepting :: "('u, 'a) net_scheme \<Rightarrow> ('u, 'a) net_scheme" where
  "Listener_pauseAccepting s =
     (let s1 = KqueueLoop_remove (listener_fd s) s;
          (h, s2) = KqueueLoop_addTimer 1000000000 TmResume s1
      in set_resumeTimer (Some h) s2)"

definition Listener_resumeAccepting :: "('u, 'a) net_scheme \<Rightarrow> ('u, 'a) net_scheme" where
  "Listener_resumeAccepting s = watch_listener (set_resumeTimer None s)"

fun Listener_onReadable ::
  "os \<Rightarrow> (Socket \<Rightarrow> Address \<Rightarrow> ('u, 'a) net_scheme \<Rightarrow> fault + ('u, 'a) net_scheme)
     \<Rightarrow> nat \<Rightarrow> ('u, 'a) net_scheme \<Rightarrow> fault + ('u, 'a) net_scheme" where
  "Listener_onReadable os onAccept 0 s = Inl NotReturned"
| "Listener_onReadable os onAccept (Suc fuel) s =
     (case Socket_accept os (li_socket (nw_listener s)) s of
        (Inl e, s1) \<Rightarrow>
          if err_code e = WouldBlock then Inr s1
          else if err_code e = FdExhausted then Inr (Listener_pauseAccepting s1)
          else Listener_onReadable os onAccept fuel s1
      | (Inr (client, addr), s1) \<Rightarrow>
          (case Socket_setNonblocking os client s1 of
             (Inl e, s2) \<Rightarrow> Listener_onReadable os onAccept fuel (Socket_destroy client s2)
           | (Inr _, s2) \<Rightarrow>
               rbind (if li_hasAccept (nw_listener s2) then onAccept client addr s2
                      else Inr (Socket_destroy client s2))
                 (Listener_onReadable os onAccept fuel)))"

section \<open>Draining the backlog\<close>

text \<open>The number of \<^verbatim>\<open>accept\<close> calls in a history.\<close>

definition accepts :: "syscall list \<Rightarrow> nat" where
  "accepts cs = length (filter (\<lambda>c. case c of CAccept f r \<Rightarrow> True | _ \<Rightarrow> False) cs)"

lemma accepts_append [simp]: "accepts (cs @ ds) = accepts cs + accepts ds"
  by (simp add: accepts_def)

lemma accepts_simps [simp]:
  "accepts [] = 0"
  "accepts (c # cs) = (case c of CAccept f r \<Rightarrow> 1 | _ \<Rightarrow> 0) + accepts cs"
  by (simp_all add: accepts_def split: syscall.splits)

lemma listener_frame [simp]: "nw_listener (sys c s) = nw_listener s"
  by (simp add: sys_def)

text \<open>
  A kernel with a backlog: its \<open>n\<close>-th \<^verbatim>\<open>accept\<close> answers \<open>answer n\<close>, and a client can be made
  non-blocking.
\<close>

definition answers :: "os \<Rightarrow> (nat \<Rightarrow> errno + fd \<times> sockaddr \<times> nat) \<Rightarrow> bool" where
  "answers os answer \<longleftrightarrow> (\<forall>h f. os_accept os h f = answer (accepts h)) \<and> (\<forall>h f. os_nonblock os h f = None)"

text \<open>The callbacks of a batch of clients, in order, each after the calls that prepare the client.\<close>

fun serve_clients ::
  "(Socket \<Rightarrow> Address \<Rightarrow> ('u, 'a) net_scheme \<Rightarrow> fault + ('u, 'a) net_scheme)
     \<Rightarrow> (fd \<times> sockaddr \<times> nat) list \<Rightarrow> ('u, 'a) net_scheme \<Rightarrow> fault + ('u, 'a) net_scheme" where
  "serve_clients onAccept [] s = Inr s"
| "serve_clients onAccept ((f, sa, len) # cs) s =
     rbind (onAccept (Socket_of_fd f) (Address_fromSockaddr sa len)
              (sys (CFcntl f) (sys (CNoSigpipe f) (sys (CAccept (listener_fd s) (Inr f)) s))))
       (serve_clients onAccept cs)"

text \<open>
  What the accept loop needs of the owner of the listener: its callback returns for every client,
  accepts no client itself and keeps the listener.
\<close>

locale accept_owner =
  fixes onAccept :: "Socket \<Rightarrow> Address \<Rightarrow> ('u, 'a) net_scheme \<Rightarrow> fault + ('u, 'a) net_scheme"
  assumes accept_returns: "\<exists>s'. onAccept (Socket_of_fd f) addr s = Inr s' \<and>
    accepts (pf_calls s') = accepts (pf_calls s) \<and> nw_listener s' = nw_listener s"
begin

lemma onReadable_serves:
  assumes "answers os answer"
  shows "li_hasAccept (nw_listener s) \<Longrightarrow>
    (\<forall>i < length cs. answer (accepts (pf_calls s) + i) = Inr (cs ! i)) \<Longrightarrow>
    answer (accepts (pf_calls s) + length cs) = Inl EAGAIN \<Longrightarrow> length cs < fuel \<Longrightarrow>
    \<exists>s'. serve_clients onAccept cs s = Inr s' \<and> nw_listener s' = nw_listener s \<and>
         Listener_onReadable os onAccept fuel s = Inr (sys (CAccept (listener_fd s) (Inl EAGAIN)) s')"
proof (induction cs arbitrary: s fuel)
  case Nil
  obtain n where "fuel = Suc n" using Nil.prems by (cases fuel) auto
  then show ?case using Nil.prems assms
    by (simp add: Socket_accept_def answers_def Let_def accept_error_def isWouldBlock_def mkError_def listener_fd_def)
next
  case (Cons c cs)
  obtain f sa len where c: "c = (f, sa, len)" by (cases c)
  obtain n where n: "fuel = Suc n" "length cs < n" using Cons.prems by (cases fuel) auto
  let ?s = "sys (CFcntl f) (sys (CNoSigpipe f) (sys (CAccept (listener_fd s) (Inr f)) s))"
  obtain s1 where s1: "onAccept (Socket_of_fd f) (Address_fromSockaddr sa len) ?s = Inr s1"
      "accepts (pf_calls s1) = Suc (accepts (pf_calls s))" "nw_listener s1 = nw_listener s"
    using accept_returns [of f "Address_fromSockaddr sa len" ?s]
    by auto
  have ans: "answer (accepts (pf_calls s)) = Inr (f, sa, len)" using Cons.prems(2) c by force
  have "\<forall>i < length cs. answer (accepts (pf_calls s1) + i) = Inr (cs ! i)"
    using Cons.prems(2) s1(2) by (auto dest: spec [of _ "Suc _"])
  with Cons.IH [of s1 n] obtain s' where "serve_clients onAccept cs s1 = Inr s'" "nw_listener s' = nw_listener s"
      "Listener_onReadable os onAccept n s1 = Inr (sys (CAccept (listener_fd s1) (Inl EAGAIN)) s')"
    using Cons.prems s1 n by auto
  then show ?case using s1 ans Cons.prems(1) assms n c
    by (simp add: Socket_accept_def Socket_setNonblocking_def suppressSigpipe_def answers_def Let_def
        listener_fd_def Socket_of_fd_def)
qed

end

text \<open>
  An error of \<^verbatim>\<open>accept\<close> that is neither "would block" nor descriptor exhaustion is retried at once,
  so while it persists the handler never returns, whatever the fuel.
\<close>

theorem listener_spins_on_error:
  assumes "\<And>h f. os_accept os h f = Inl (EOTHER n)"
  shows "Listener_onReadable os onAccept fuel s = Inl NotReturned"
proof (induction fuel arbitrary: s)
  case (Suc fuel)
  then show ?case using assms
    by (simp add: Socket_accept_def accept_error_def isWouldBlock_def isFdExhausted_def mkError_def Let_def)
qed simp

theorem listener_spins_on_error_witness:
  "Listener_onReadable (quiet_os\<lparr>os_accept := (\<lambda>h f. Inl (EOTHER 9))\<rparr>) (\<lambda>k a s. Inr s) 1000 net_start = Inl NotReturned"
  by (rule listener_spins_on_error) simp

section \<open>Back-pressure\<close>

text \<open>How the loop runs the timer closure of the listener.\<close>

fun Listener_task :: "'u net_cb \<Rightarrow> ('u, 'a) net_scheme \<Rightarrow> fault + ('u, 'a) net_scheme" where
  "Listener_task TmResume s = Inr (Listener_resumeAccepting s)"
| "Listener_task cb s = Inr s"


definition timer_event :: "u64 \<Rightarrow> kevent" where
  "timer_event i = \<lparr>ke_filter = EVFILT_TIMER, ke_ident = i, ke_eof = False\<rparr>"

definition handle_ok :: "('u, 'a) net_scheme \<Rightarrow> bool" where
  "handle_ok s \<longleftrightarrow> (case li_resumeTimer (nw_listener s) of None \<Rightarrow> True | Some h \<Rightarrow> h < length (el_timerHeap s))"

lemma remove_listener [simp]: "nw_listener (KqueueLoop_remove f s) = nw_listener s"
  by (simp add: KqueueLoop_remove_def sys_def split: option.splits)

lemma watch_keeps_listener [simp]: "nw_listener (KqueueLoop_watch f ev cb s) = nw_listener s"
  by (simp add: KqueueLoop_watch_def sys_def Let_def)

lemma pause_fields:
  assumes "handle_ok s"
  shows "el_fdEntries (Listener_pauseAccepting s) = (el_fdEntries s)(listener_fd s := None)"
    and "el_timers (Listener_pauseAccepting s) (el_nextTimerId s) = Some (length (el_timerHeap s))"
    and "length (el_timerHeap (Listener_pauseAccepting s)) = Suc (length (el_timerHeap s))"
    and "el_timerHeap (Listener_pauseAccepting s) ! length (el_timerHeap s)
       = \<lparr>te_id = el_nextTimerId s, te_callback = TmResume, te_cancelled = False\<rparr>"
    and "nw_listener (Listener_pauseAccepting s)
       = (nw_listener s)\<lparr>li_resumeTimer := Some (length (el_timerHeap s))\<rparr>"
    and "CKevent [EvTimer (el_nextTimerId s) 1000000] \<in> set (pf_calls (Listener_pauseAccepting s))"
  using assms
  by (auto simp: Listener_pauseAccepting_def set_resumeTimer_def KqueueLoop_addTimer_def TimerHandle_cancel_def
      sys_def Let_def timer_ms_def handle_ok_def nth_append split: option.splits)

lemma resume_fields:
  "el_fdEntries (Listener_resumeAccepting s)
     = (el_fdEntries s)(listener_fd s \<mapsto> \<lparr>fe_events = Readable, fe_callback = IoListener\<rparr>)"
  "nw_listener (Listener_resumeAccepting s) = (nw_listener s)\<lparr>li_resumeTimer := None\<rparr>"
  by (simp_all add: Listener_resumeAccepting_def watch_listener_def set_resumeTimer_def listener_fd_def
      TimerHandle_cancel_def split: option.splits)

text \<open>
  When \<^verbatim>\<open>accept\<close> runs out of descriptors, the handler returns with the listener unregistered and a
  one-second timer set; the event of that timer registers the listener for reading again.
\<close>

theorem listener_backpressure:
  assumes "os_accept os (pf_calls s) (listener_fd s) = Inl e" and "e = EMFILE \<or> e = ENFILE" and "handle_ok s"
  shows "\<exists>s1 s2. Listener_onReadable os onAccept (Suc fuel) s = Inr s1 \<and>
     el_fdEntries s1 (listener_fd s) = None \<and>
     CKevent [EvTimer (el_nextTimerId s) 1000000] \<in> set (pf_calls s1) \<and>
     KqueueLoop_event io Listener_task (timer_event (el_nextTimerId s)) s1 = Inr s2 \<and>
     el_fdEntries s2 = (el_fdEntries s)(listener_fd s \<mapsto> \<lparr>fe_events = Readable, fe_callback = IoListener\<rparr>)"
proof -
  let ?t = "sys (CAccept (listener_fd s) (Inl e)) s"
  have t: "handle_ok ?t" "listener_fd ?t = listener_fd s" "el_nextTimerId ?t = el_nextTimerId s"
      "el_fdEntries ?t = el_fdEntries s"
    using assms(3) by (simp_all add: handle_ok_def listener_fd_def sys_def split: option.splits)
  have run: "Listener_onReadable os onAccept (Suc fuel) s = Inr (Listener_pauseAccepting ?t)"
    using assms(1,2) by (auto simp: Socket_accept_def accept_error_def isWouldBlock_def isFdExhausted_def
        mkError_def listener_fd_def Let_def)
  note pause = pause_fields [OF t(1), unfolded t]
  have fd: "listener_fd ((Listener_pauseAccepting ?t)\<lparr>el_timers := m\<rparr>) = listener_fd s" for m
    using pause(5) by (simp add: listener_fd_def)
  have "KqueueLoop_event io Listener_task (timer_event (el_nextTimerId s)) (Listener_pauseAccepting ?t)
      = Inr (Listener_resumeAccepting ((Listener_pauseAccepting ?t)\<lparr>el_timers :=
          (el_timers (Listener_pauseAccepting ?t))(el_nextTimerId s := None)\<rparr>))"
    using pause(2-4) by (simp add: KqueueLoop_event_def timer_event_def Let_def)
  then show ?thesis using run pause(1,6) by (simp add: resume_fields fd)
qed

theorem listener_backpressure_witness:
  "\<exists>s1 s2. Listener_onReadable (quiet_os\<lparr>os_accept := (\<lambda>h f. Inl EMFILE)\<rparr>) (\<lambda>k a s. Inr s) 1 net_start = Inr s1 \<and>
     el_fdEntries s1 (-1) = None \<and>
     KqueueLoop_event (\<lambda>cb ev s. Inr s) Listener_task (timer_event 1) s1 = Inr s2 \<and>
     el_fdEntries s2 (-1) = Some \<lparr>fe_events = Readable, fe_callback = IoListener\<rparr>"
proof -
  have "os_accept (quiet_os\<lparr>os_accept := (\<lambda>h f. Inl EMFILE)\<rparr>) (pf_calls net_start) (listener_fd net_start) = Inl EMFILE"
    and "EMFILE = EMFILE \<or> EMFILE = ENFILE" and "handle_ok net_start"
    by (simp_all add: handle_ok_def net_start_def)
  from listener_backpressure [OF this, of "\<lambda>k a s. Inr s" 0 "\<lambda>cb ev s. Inr s"] show ?thesis
    by (auto simp: net_start_def listener_fd_def Socket_new_def)
qed

text \<open>
  \<^verbatim>\<open>stop()\<close> does not cancel the pending resume timer: when it expires on the stopped listener, the
  invalid descriptor is registered with the event loop.
\<close>

theorem listener_resumes_after_stop:
  assumes "handle_ok s" and "Socket_valid (li_socket (nw_listener s))"
  shows "\<exists>s2. KqueueLoop_event io Listener_task (timer_event (el_nextTimerId s))
        (Listener_stop (Listener_pauseAccepting s)) = Inr s2 \<and>
     el_fdEntries s2 kInvalidFd = Some \<lparr>fe_events = Readable, fe_callback = IoListener\<rparr>"
proof -
  note pause = pause_fields [OF assms(1)]
  let ?p = "Listener_stop (Listener_pauseAccepting s)"
  have stop: "el_timers ?p = el_timers (Listener_pauseAccepting s)"
      "el_timerHeap ?p = el_timerHeap (Listener_pauseAccepting s)" "so_fd (li_socket (nw_listener ?p)) = kInvalidFd"
    using assms(2)
    by (simp_all add: Listener_stop_def pause(5) Socket_close_def put_socket_def sys_def Let_def)
  have "KqueueLoop_event io Listener_task (timer_event (el_nextTimerId s)) ?p
      = Inr (Listener_resumeAccepting (?p\<lparr>el_timers := (el_timers ?p)(el_nextTimerId s := None)\<rparr>))"
    using pause(2-4) by (simp add: KqueueLoop_event_def timer_event_def Let_def stop)
  then show ?thesis using stop(3) by (simp add: resume_fields listener_fd_def)
qed

theorem listener_resumes_after_stop_witness:
  "\<exists>s2. KqueueLoop_event (\<lambda>cb ev s. Inr s) Listener_task (timer_event 1)
      (Listener_stop (Listener_pauseAccepting (put_socket (Socket_of_fd 6) net_start))) = Inr s2 \<and>
    el_fdEntries s2 kInvalidFd = Some \<lparr>fe_events = Readable, fe_callback = IoListener\<rparr>"
proof -
  let ?s = "put_socket (Socket_of_fd 6) net_start"
  have "handle_ok ?s" "Socket_valid (li_socket (nw_listener ?s))" "el_nextTimerId ?s = 1"
    by (simp_all add: handle_ok_def put_socket_def net_start_def Socket_valid_def Socket_of_fd_def)
  then show ?thesis using listener_resumes_after_stop [of ?s "\<lambda>cb ev s. Inr s"] by simp
qed

text \<open>The destructor leaves no registration of the socket and no timer, and closes the socket once.\<close>

lemma Listener_destroy_releases:
  assumes "Socket_valid (li_socket (nw_listener s))"
  shows "closed_fds (pf_calls (Listener_destroy s)) = closed_fds (pf_calls s) + {#listener_fd s#} \<and>
    \<not> Socket_valid (li_socket (nw_listener (Listener_destroy s))) \<and> li_resumeTimer (nw_listener (Listener_destroy s)) = None \<and>
    el_fdEntries (Listener_destroy s) (listener_fd s) = None"
  using assms
  by (auto simp: Listener_destroy_def Listener_stop_def set_resumeTimer_def TimerHandle_cancel_def Socket_destroy_def Socket_close_def
      put_socket_def Socket_valid_def KqueueLoop_remove_def closed_fds_def listener_fd_def Let_def sys_def split: option.splits)

end
