(* ===== verification/Session_Heap.thy ===== *)
theory Session_Heap
  imports Proxy_Session Net_Listener
begin

text \<open>
  The heap of a proxy: sessions, connections and TLS connections, and the pointers between them. The
  invariant \<open>world_ok\<close> says that no pointer dangles, that a connection has one owner, and that the
  closures installed anywhere belong to existing sessions. It is proved for every step of a session,
  through the contracts that connections and TLS connections ask of their owner.
\<close>

section \<open>The invariant\<close>

fun cb_session :: "sess_cb \<Rightarrow> nat" where
  "cb_session (ScClientData i) = i"
| "cb_session (ScClientClose i) = i"
| "cb_session (ScClientError i) = i"
| "cb_session (ScUpstreamData i) = i"
| "cb_session (ScUpstreamClose i) = i"
| "cb_session (ScUpstreamError i) = i"
| "cb_session (ScConnected i f) = i"
| "cb_session (ScUpstreamTls i ctx h) = i"
| "cb_session (ScUpstreamTlsError i ctx) = i"
| "cb_session (ScClientTls i cctx uctx) = i"
| "cb_session (ScClientTlsError i cctx uctx) = i"
| "cb_session (ScMitmClientData i) = i"
| "cb_session (ScMitmUpstreamData i) = i"
| "cb_session (ScMitmClose i) = i"

definition conn_cbs :: "'u Connection \<Rightarrow> 'u set" where
  "conn_cbs x = set_option (co_onData x) \<union> set_option (co_onClose x) \<union> set_option (co_onError x)"

definition tls_cbs :: "'u TlsConnection \<Rightarrow> 'u set" where
  "tls_cbs x = set_option (tc_onData x) \<union> set_option (tc_onClose x) \<union> set_option (tc_onError x)
     \<union> set_option (tc_onHandshakeComplete x) \<union> set_option (tc_onHandshakeError x)"

text \<open>The pointers of a session: client, upstream, TLS client, TLS upstream.\<close>

type_synonym sess_refs = "(nat option \<times> nat option) \<times> nat option \<times> nat option"

definition sess_refs :: "'p ProxySession \<Rightarrow> sess_refs" where
  "sess_refs x = ((ps_client x, ps_upstream x), ps_tlsClient x, ps_tlsUpstream x)"

definition refs :: "('p, 'a) proxy_scheme \<Rightarrow> nat \<Rightarrow> sess_refs option" where
  "refs s i = map_option sess_refs (px_sessions s i)"

definition conn_refs :: "sess_refs \<Rightarrow> nat set" where
  "conn_refs r = set_option (fst (fst r)) \<union> set_option (snd (fst r))"

definition tls_refs :: "sess_refs \<Rightarrow> nat set" where
  "tls_refs r = set_option (fst (snd r)) \<union> set_option (snd (snd r))"

definition refs_ok :: "(nat \<Rightarrow> sess_refs option) \<Rightarrow> (nat \<rightharpoonup> 'c) \<Rightarrow> (nat \<rightharpoonup> 't) \<Rightarrow> bool" where
  "refs_ok r conns tlss \<longleftrightarrow>
     (\<forall>i p. r i = Some p \<longrightarrow> conn_refs p \<subseteq> dom conns \<and> tls_refs p \<subseteq> dom tlss \<and>
        (\<forall>c. fst (fst p) = Some c \<longrightarrow> snd (fst p) \<noteq> Some c) \<and>
        (\<forall>t. fst (snd p) = Some t \<longrightarrow> snd (snd p) \<noteq> Some t)) \<and>
     (\<forall>i j p q c. r i = Some p \<longrightarrow> r j = Some q \<longrightarrow> c \<in> conn_refs p \<longrightarrow> c \<in> conn_refs q \<longrightarrow> i = j)"

definition cbs_ok :: "nat set \<Rightarrow> 'c set \<Rightarrow> ('c \<Rightarrow> sess_cb set) \<Rightarrow> bool" where
  "cbs_ok ids xs f \<longleftrightarrow> (\<forall>x \<in> xs. cb_session ` f x \<subseteq> ids)"

text \<open>What no step of a session changes: which sessions exist, the listener, and the state above.\<close>

datatype 'a surroundings = Surroundings "nat set" "nat \<times> Listener \<times> 'a"

definition outside :: "('p, 'a) proxy_scheme \<Rightarrow> nat \<times> Listener \<times> 'a" where
  "outside s = (px_nextSession s, nw_listener s, proxy.more s)"

definition surroundings :: "('p, 'a) proxy_scheme \<Rightarrow> 'a surroundings" where
  "surroundings s = Surroundings (dom (px_sessions s)) (outside s)"

definition world_ok :: "'a surroundings \<Rightarrow> ('p, 'a) proxy_scheme \<Rightarrow> bool" where
  "world_ok g s \<longleftrightarrow> surroundings s = g \<and>
     refs_ok (refs s) (nw_conns s) (tn_conns s) \<and>
     (\<forall>c \<in> dom (nw_conns s). c < nw_nextConn s) \<and> (\<forall>t \<in> dom (tn_conns s). t < tn_nextTls s) \<and>
     (\<forall>i \<in> dom (px_sessions s). i < px_nextSession s) \<and>
     cbs_ok (dom (px_sessions s)) (ran (nw_conns s)) conn_cbs \<and>
     cbs_ok (dom (px_sessions s)) (ran (tn_conns s)) tls_cbs"

section \<open>Frames\<close>

lemma put_sess_fields [simp]:
  "px_sessions (put_sess i x s) = (px_sessions s)(i \<mapsto> x)"
  "nw_conns (put_sess i x s) = nw_conns s" "tn_conns (put_sess i x s) = tn_conns s"
  "nw_nextConn (put_sess i x s) = nw_nextConn s" "px_nextSession (put_sess i x s) = px_nextSession s"
  "tn_nextTls (put_sess i x s) = tn_nextTls s" "pf_calls (put_sess i x s) = pf_calls s" "el_fdEntries (put_sess i x s) = el_fdEntries s"
  by (simp_all add: put_sess_def)

lemma outside_frame [simp]:
  "outside (put_sess i x s) = outside s" "outside (put_conn c y s) = outside s" "outside (put_tls t z s) = outside s"
  "outside (sys k s) = outside s" "outside (KqueueLoop_remove f s) = outside s"
  "outside (KqueueLoop_watch f ev cb s) = outside s"
  "outside (s\<lparr>nw_conns := m\<rparr>) = outside s" "outside (s\<lparr>pf_calls := cs\<rparr>) = outside s"
  by (simp_all add: outside_def put_sess_def put_conn_def put_tls_def sys_def KqueueLoop_remove_def KqueueLoop_watch_def
      Let_def split: option.splits)

lemma surroundings_put_sess:
  "px_sessions s i = Some y \<Longrightarrow> surroundings (put_sess i x s) = surroundings s"
  by (auto simp: surroundings_def)

lemma put_keeps_sessions [simp]:
  "px_sessions (put_conn c y s) = px_sessions s" "px_sessions (put_tls t z s) = px_sessions s"
  "tn_nextTls (put_conn c y s) = tn_nextTls s" "tn_nextTls (put_tls t z s) = tn_nextTls s"
  "nw_nextConn (put_conn c y s) = nw_nextConn s" "nw_nextConn (put_tls t z s) = nw_nextConn s"
  "px_nextSession (put_conn c y s) = px_nextSession s" "px_nextSession (put_tls t z s) = px_nextSession s"
  "tn_conns (put_conn c y s) = tn_conns s" "nw_conns (put_tls t z s) = nw_conns s"
  by (simp_all add: put_conn_def put_tls_def)

lemma loop_keeps_sessions [simp]:
  "px_sessions (KqueueLoop_remove f s) = px_sessions s" "px_sessions (KqueueLoop_watch f ev cb s) = px_sessions s"
  "px_sessions (sys k s) = px_sessions s"
  "nw_nextConn (KqueueLoop_remove f s) = nw_nextConn s" "nw_nextConn (KqueueLoop_watch f ev cb s) = nw_nextConn s"
  "nw_nextConn (sys k s) = nw_nextConn s" "tn_nextTls (sys k s) = tn_nextTls s"
  "tn_nextTls (KqueueLoop_remove f s) = tn_nextTls s" "tn_nextTls (KqueueLoop_watch f ev cb s) = tn_nextTls s"
  "px_nextSession (KqueueLoop_remove f s) = px_nextSession s"
  "px_nextSession (KqueueLoop_watch f ev cb s) = px_nextSession s" "px_nextSession (sys k s) = px_nextSession s"
  by (simp_all add: KqueueLoop_remove_def KqueueLoop_watch_def sys_def Let_def split: option.splits)

lemma surroundings_frame [simp]:
  "surroundings (put_conn c y s) = surroundings s" "surroundings (put_tls t z s) = surroundings s"
  "surroundings (sys k s) = surroundings s" "surroundings (KqueueLoop_remove f s) = surroundings s"
  "surroundings (KqueueLoop_watch f ev cb s) = surroundings s"
  by (simp_all add: surroundings_def)

lemma refs_put_sess [simp]: "refs (put_sess i x s) = (refs s)(i \<mapsto> sess_refs x)"
  by (auto simp: refs_def)

lemma refs_cong: "px_sessions s = px_sessions s' \<Longrightarrow> refs s = refs s'"
  by (auto simp: refs_def fun_eq_iff)

lemma refs_frame [simp]:
  "refs (put_conn c y s) = refs s" "refs (put_tls t z s) = refs s" "refs (sys k s) = refs s"
  "refs (KqueueLoop_remove f s) = refs s" "refs (KqueueLoop_watch f ev cb s) = refs s"
  by (rule refs_cong; simp)+

lemma world_frame [simp]:
  "world_ok g (sys k s) = world_ok g s" "world_ok g (KqueueLoop_remove f s) = world_ok g s"
  "world_ok g (KqueueLoop_watch f ev cb s) = world_ok g s"
  by (simp_all add: world_ok_def)

lemma same_cbs: "same_callbacks x y \<Longrightarrow> conn_cbs x = conn_cbs y"
  by (simp add: same_callbacks_def conn_cbs_def)

lemma same_tls_cbs: "same_tls_callbacks x y \<Longrightarrow> tls_cbs x \<subseteq> tls_cbs y"
  by (auto simp: same_tls_callbacks_def tls_cbs_def)

lemma cbs_ok_put:
  "cbs_ok ids (ran m) f \<Longrightarrow> cb_session ` f x \<subseteq> ids \<Longrightarrow> cbs_ok ids (ran (m(c \<mapsto> x))) f"
  by (auto simp: cbs_ok_def ran_def)

lemma refs_ok_dom:
  "refs_ok r conns tlss \<Longrightarrow> dom conns \<subseteq> dom conns' \<Longrightarrow> dom tlss \<subseteq> dom tlss' \<Longrightarrow> refs_ok r conns' tlss'"
  unfolding refs_ok_def by (meson subset_trans)

lemma world_put_conn:
  assumes "world_ok g s" and "nw_conns s c = Some y" and "cb_session ` conn_cbs x \<subseteq> dom (px_sessions s)"
  shows "world_ok g (put_conn c x s)"
proof -
  have "c < nw_nextConn s" using assms(1,2) by (auto simp: world_ok_def)
  moreover have "refs_ok (refs s) ((nw_conns s)(c \<mapsto> x)) (tn_conns s)"
    by (rule refs_ok_dom [of _ "nw_conns s" "tn_conns s"]) (use assms(1) in \<open>auto simp: world_ok_def\<close>)
  ultimately show ?thesis using assms cbs_ok_put by (auto simp: world_ok_def)
qed

lemma world_put_tls:
  assumes "world_ok g s" and "tn_conns s t = Some y" and "cb_session ` tls_cbs x \<subseteq> dom (px_sessions s)"
  shows "world_ok g (put_tls t x s)"
proof -
  have "t < tn_nextTls s" using assms(1,2) by (auto simp: world_ok_def)
  moreover have "refs_ok (refs s) (nw_conns s) ((tn_conns s)(t \<mapsto> x))"
    by (rule refs_ok_dom [of _ "nw_conns s" "tn_conns s"]) (use assms(1) in \<open>auto simp: world_ok_def\<close>)
  ultimately show ?thesis using assms cbs_ok_put by (auto simp: world_ok_def)
qed

lemma world_conn_cbs: "world_ok g s \<Longrightarrow> nw_conns s c = Some x \<Longrightarrow> cb_session ` conn_cbs x \<subseteq> dom (px_sessions s)"
  unfolding world_ok_def cbs_ok_def by (meson ranI)

lemma world_tls_cbs: "world_ok g s \<Longrightarrow> tn_conns s t = Some x \<Longrightarrow> cb_session ` tls_cbs x \<subseteq> dom (px_sessions s)"
  unfolding world_ok_def cbs_ok_def by (meson ranI)

lemma world_put_sess:
  assumes "world_ok g s" and "px_sessions s i = Some y" and "sess_refs x = sess_refs y"
  shows "world_ok g (put_sess i x s)"
proof -
  have "(refs s)(i \<mapsto> sess_refs x) = refs s" using assms by (auto simp: refs_def)
  moreover have "dom ((px_sessions s)(i \<mapsto> x)) = dom (px_sessions s)" using assms(2) by auto
  ultimately show ?thesis using assms by (simp add: world_ok_def surroundings_put_sess)
qed

lemma sess_refs_fields [simp]:
  "sess_refs (x\<lparr>ps_closed := b\<rparr>) = sess_refs x" "sess_refs (x\<lparr>ps_connectingSocket := k\<rparr>) = sess_refs x"
  "sess_refs (x\<lparr>ps_currentRequest := q\<rparr>) = sess_refs x" "sess_refs (x\<lparr>ps_connectHostname := h\<rparr>) = sess_refs x"
  "sess_refs (x\<lparr>ps_pendingBody := d\<rparr>) = sess_refs x" "sess_refs (x\<lparr>ps_responseBody := d\<rparr>) = sess_refs x"
  "sess_refs (x\<lparr>ps_isTunnel := b\<rparr>) = sess_refs x" "sess_refs (x\<lparr>ps_isConnect := b\<rparr>) = sess_refs x"
  "sess_refs (x\<lparr>ps_isTlsMitm := b\<rparr>) = sess_refs x" "sess_refs (x\<lparr>ps_payloadInspector := b\<rparr>) = sess_refs x"
  "sess_refs (x\<lparr>ps_clientCodec := cc\<rparr>) = sess_refs x" "sess_refs (x\<lparr>ps_upstreamCodec := cc\<rparr>) = sess_refs x"
  "sess_refs (x\<lparr>ps_clientCallbacks := b\<rparr>) = sess_refs x" "sess_refs (x\<lparr>ps_upstreamCallbacks := b\<rparr>) = sess_refs x"
  by (simp_all add: sess_refs_def)

section \<open>The contracts of connections\<close>

text \<open>The invariant with the pointers of the sessions fixed.\<close>

definition frozen :: "'a surroundings \<Rightarrow> (nat \<Rightarrow> sess_refs option) \<Rightarrow> ('p, 'a) proxy_scheme \<Rightarrow> bool" where
  "frozen g r s \<longleftrightarrow> world_ok g s \<and> refs s = r"

lemma frozen_frame [simp]:
  "frozen g r (sys k s) = frozen g r s" "frozen g r (KqueueLoop_remove f s) = frozen g r s"
  "frozen g r (KqueueLoop_watch f ev cb s) = frozen g r s"
  by (simp_all add: frozen_def)

lemma frozen_put_sess:
  assumes "frozen g r s" and "px_sessions s i = Some y" and "sess_refs x = sess_refs y"
  shows "frozen g r (put_sess i x s)"
proof -
  have "(refs s)(i \<mapsto> sess_refs x) = refs s" using assms(2,3) by (auto simp: refs_def)
  then show ?thesis using assms world_put_sess [OF _ assms(2,3)] by (simp add: frozen_def)
qed

interpretation fz: tls_invariant "frozen g r :: ('p, 'a) proxy_scheme \<Rightarrow> bool" for g r
proof
  fix s :: "('p, 'a) proxy_scheme" assume fz: "frozen g r s"
  show "frozen g r (put_conn c x s)" if "nw_conns s c = Some y" "same_callbacks x y" for c x y
    using fz world_put_conn [of g s c y x] world_conn_cbs [of g s c y] same_cbs [OF that(2)] that(1) by (auto simp: frozen_def)
  show "frozen g r (put_tls t x s)" if "tn_conns s t = Some y" "same_tls_callbacks x y" for t x y
    using fz world_put_tls [of g s t y x] world_tls_cbs [of g s t y] same_tls_cbs [OF that(2)] that(1)
    by (fastforce simp: frozen_def)
qed simp_all

lemma Socket_close_calls: "snd (Socket_close k s) = s \<or> (\<exists>f. snd (Socket_close k s) = sys (CClose f) s)"
  by (auto simp: Socket_close_def)

lemma frozen_Socket_close [simp]: "frozen g r (snd (Socket_close k s)) = frozen g r s"
  using Socket_close_calls [of k s] by auto

lemma if_set_close_frozen:
  "frozen g r s \<Longrightarrow> if_set p Connection_close s = Inr s' \<Longrightarrow> frozen g r s'"
  "frozen g r s \<Longrightarrow> if_set p TlsConnection_close s = Inr s' \<Longrightarrow> frozen g r s'"
  by (cases p; auto dest: fz.close_inv fz.tls_close_inv)+

lemma ProxySession_close_cases:
  assumes "px_sessions s i = Some x"
  shows "ProxySession_close i s = (if ps_closed x then Inr s else
     (let k = ps_connectingSocket x;
          s1 = put_sess i (x\<lparr>ps_closed := True, ps_connectingSocket := Socket_new\<rparr>)
                 (if Socket_valid k then sys (CClose (so_fd k)) (KqueueLoop_remove (so_fd k) s) else s)
      in rbind (if_set (ps_client x) Connection_close s1) (\<lambda>s.
         rbind (if_set (ps_upstream x) Connection_close s) (\<lambda>s.
         rbind (if_set (ps_tlsClient x) TlsConnection_close s) (\<lambda>s.
         if_set (ps_tlsUpstream x) TlsConnection_close s)))))"
proof -
  have k: "(k :: Socket)\<lparr>so_fd := kInvalidFd\<rparr> = Socket_new" "\<not> Socket_valid k \<Longrightarrow> k = Socket_new" for k
    by (simp_all add: Socket_new_def Socket_valid_def)
  have "x\<lparr>ps_closed := True, ps_connectingSocket := Socket_new\<rparr> = x\<lparr>ps_closed := True\<rparr>"
    if "\<not> Socket_valid (ps_connectingSocket x)" using k(2) [OF that] by (cases x) simp
  then show ?thesis using assms k(1) by (auto simp: ProxySession_close_def with_sess_def Socket_close_def Let_def)
qed

lemma close_frozen:
  assumes "frozen g r s" and "ProxySession_close i s = Inr s'"
  shows "frozen g r s'"
proof -
  obtain x where x: "px_sessions s i = Some x" using assms(2) by (auto simp: ProxySession_close_def res_iff)
  let ?k = "ps_connectingSocket x"
  let ?s = "if Socket_valid ?k then sys (CClose (so_fd ?k)) (KqueueLoop_remove (so_fd ?k) s) else s"
  have "frozen g r (put_sess i (x\<lparr>ps_closed := True, ps_connectingSocket := Socket_new\<rparr>) ?s)"
    by (rule frozen_put_sess [of g r _ i x]) (use x assms(1) in auto)
  then show ?thesis using assms ProxySession_close_cases [OF x]
    by (auto simp: res_iff Let_def split: if_splits) (meson if_set_close_frozen)+
qed

section \<open>Closing a session\<close>

definition conn_closed :: "nat \<Rightarrow> ('u, 'a) net_scheme \<Rightarrow> bool" where
  "conn_closed c s \<longleftrightarrow> (\<exists>x. nw_conns s c = Some x \<and> co_closed x)"

text \<open>The descriptor that a pointer to a connection, or to a TLS connection, keeps open.\<close>

definition conn_fds :: "nat option \<Rightarrow> ('u, 'a) net_scheme \<Rightarrow> fd multiset" where
  "conn_fds p s = (case Option.bind p (nw_conns s) of
     None \<Rightarrow> {#} | Some x \<Rightarrow> if co_closed x then {#} else fd_mset (co_socket x))"

definition tls_fds :: "nat option \<Rightarrow> ('u, 'a) tnet_scheme \<Rightarrow> fd multiset" where
  "tls_fds p s = (case Option.bind p (tn_conns s) of
     None \<Rightarrow> {#} | Some x \<Rightarrow> if tc_closed x then {#} else fd_mset (tc_socket x))"

definition held_fds :: "'p ProxySession \<Rightarrow> ('p, 'a) proxy_scheme \<Rightarrow> fd multiset" where
  "held_fds x s = fd_mset (ps_connectingSocket x) + conn_fds (ps_client x) s + conn_fds (ps_upstream x) s
     + tls_fds (ps_tlsClient x) s + tls_fds (ps_tlsUpstream x) s"

lemma closed_fds_simps [simp]:
  "closed_fds (pf_calls (KqueueLoop_remove f s)) = closed_fds (pf_calls s)"
  "closed_fds (cs @ [CSslShutdown k]) = closed_fds cs"
  by (auto simp: KqueueLoop_remove_def closed_fds_def split: option.splits)

text \<open>A step that closes the connections \<open>C\<close> and the TLS connections \<open>T\<close>, and with them the descriptors \<open>F\<close>.\<close>

definition closing ::
  "nat set \<Rightarrow> nat set \<Rightarrow> fd multiset \<Rightarrow> ('p, 'a) proxy_scheme \<Rightarrow> ('p, 'a) proxy_scheme \<Rightarrow> bool" where
  "closing C T F s s' \<longleftrightarrow>
     (\<forall>c. c \<in> C \<or> conn_closed c s \<longrightarrow> conn_closed c s') \<and> (\<forall>t. t \<in> T \<or> tls_closed t s \<longrightarrow> tls_closed t s') \<and>
     (\<forall>c. c \<notin> C \<longrightarrow> nw_conns s' c = nw_conns s c) \<and> (\<forall>t. t \<notin> T \<longrightarrow> tn_conns s' t = tn_conns s t) \<and>
     dom (nw_conns s') = dom (nw_conns s) \<and> dom (tn_conns s') = dom (tn_conns s) \<and>
     px_sessions s' = px_sessions s \<and> closed_fds (pf_calls s') = closed_fds (pf_calls s) + F"

lemma closing_trans:
  "closing C T F s s1 \<Longrightarrow> closing C' T' F' s1 s2 \<Longrightarrow> closing (C \<union> C') (T \<union> T') (F + F') s s2"
  unfolding closing_def by (auto simp: ac_simps)

lemma if_set_close_conn:
  assumes "set_option p \<subseteq> dom (nw_conns s)"
  shows "\<exists>s'. if_set p Connection_close s = Inr s' \<and> closing (set_option p) {} (conn_fds p s) s s'"
proof (cases p)
  case (Some c)
  then obtain x where x: "nw_conns s c = Some x" using assms by auto
  have "dom (nw_conns s) = insert c (dom (nw_conns s))" using x by auto
  then show ?thesis using x Some
    by (cases "co_closed x") (auto simp: Connection_close_def with_conn_def Socket_close_def Socket_valid_def Let_def
        closing_def conn_closed_def tls_closed_def conn_fds_def fd_mset_def)
qed (simp add: conn_fds_def closing_def)

lemma if_set_close_tls:
  assumes "set_option p \<subseteq> dom (tn_conns s)"
  shows "\<exists>s'. if_set p TlsConnection_close s = Inr s' \<and> closing {} (set_option p) (tls_fds p s) s s'"
proof (cases p)
  case (Some t)
  then obtain x where x: "tn_conns s t = Some x" using assms by auto
  have "dom (tn_conns s) = insert t (dom (tn_conns s))" using x by auto
  then show ?thesis using x Some
    by (cases "tc_closed x") (auto simp: TlsConnection_close_def with_tls_def Socket_close_def Socket_valid_def Let_def
        closing_def conn_closed_def tls_closed_def tls_fds_def fd_mset_def)
qed (simp add: tls_fds_def closing_def)

lemma fds_cong:
  "(\<And>c. p = Some c \<Longrightarrow> nw_conns s c = nw_conns s' c) \<Longrightarrow> conn_fds p s = conn_fds p s'"
  "(\<And>t. p = Some t \<Longrightarrow> tn_conns u t = tn_conns u' t) \<Longrightarrow> tls_fds p u = tls_fds p u'"
  by (cases p; simp add: conn_fds_def tls_fds_def)+

text \<open>Every object a session points to exists, and no two of its pointers are equal.\<close>

lemma world_refs:
  assumes "world_ok g s" and "px_sessions s i = Some x"
  shows "set_option (ps_client x) \<subseteq> dom (nw_conns s)" "set_option (ps_upstream x) \<subseteq> dom (nw_conns s)"
    "set_option (ps_tlsClient x) \<subseteq> dom (tn_conns s)" "set_option (ps_tlsUpstream x) \<subseteq> dom (tn_conns s)"
    "set_option (ps_client x) \<inter> set_option (ps_upstream x) = {}"
    "set_option (ps_tlsClient x) \<inter> set_option (ps_tlsUpstream x) = {}"
proof -
  have "refs s i = Some (sess_refs x)" using assms(2) by (simp add: refs_def)
  then have "conn_refs (sess_refs x) \<subseteq> dom (nw_conns s)" "tls_refs (sess_refs x) \<subseteq> dom (tn_conns s)"
      "\<forall>c. ps_client x = Some c \<longrightarrow> ps_upstream x \<noteq> Some c" "\<forall>t. ps_tlsClient x = Some t \<longrightarrow> ps_tlsUpstream x \<noteq> Some t"
    using assms(1) unfolding world_ok_def refs_ok_def by (auto simp: sess_refs_def)
  then show "set_option (ps_client x) \<subseteq> dom (nw_conns s)" "set_option (ps_upstream x) \<subseteq> dom (nw_conns s)"
    "set_option (ps_tlsClient x) \<subseteq> dom (tn_conns s)" "set_option (ps_tlsUpstream x) \<subseteq> dom (tn_conns s)"
    "set_option (ps_client x) \<inter> set_option (ps_upstream x) = {}"
    "set_option (ps_tlsClient x) \<inter> set_option (ps_tlsUpstream x) = {}"
    by (auto simp: conn_refs_def tls_refs_def sess_refs_def)
qed

definition closed_session :: "'p ProxySession \<Rightarrow> 'p ProxySession" where
  "closed_session x = x\<lparr>ps_closed := True, ps_connectingSocket := Socket_new\<rparr>"

lemma close_ok:
  assumes "world_ok g s" and x: "px_sessions s i = Some x" and op: "\<not> ps_closed x"
  shows "\<exists>s'. ProxySession_close i s = Inr s' \<and>
    closing (conn_refs (sess_refs x)) (tls_refs (sess_refs x)) (held_fds x s) (put_sess i (closed_session x) s) s'"
proof -
  let ?k = "ps_connectingSocket x" and ?s0 = "put_sess i (closed_session x) s"
  define s1 where "s1 = put_sess i (closed_session x)
      (if Socket_valid ?k then sys (CClose (so_fd ?k)) (KqueueLoop_remove (so_fd ?k) s) else s)"
  have c1: "closing {} {} (fd_mset ?k) ?s0 s1"
    by (auto simp: s1_def closing_def fd_mset_def Socket_valid_def conn_closed_def tls_closed_def)
  note refs = world_refs [OF assms(1) x]
  have dom: "dom (nw_conns t) = dom (nw_conns s)" "dom (tn_conns t) = dom (tn_conns s)"
    if "closing C T F ?s0 t" for C T F t using that by (simp_all add: closing_def)
  obtain s2 where s2: "if_set (ps_client x) Connection_close s1 = Inr s2"
      "closing (set_option (ps_client x)) {} (conn_fds (ps_client x) s1) s1 s2"
    using if_set_close_conn refs(1) dom(1) [OF c1] by metis
  note c2 = closing_trans [OF c1 s2(2)]
  obtain s3 where s3: "if_set (ps_upstream x) Connection_close s2 = Inr s3"
      "closing (set_option (ps_upstream x)) {} (conn_fds (ps_upstream x) s2) s2 s3"
    using if_set_close_conn refs(2) dom(1) [OF c2] by metis
  note c3 = closing_trans [OF c2 s3(2)]
  obtain s4 where s4: "if_set (ps_tlsClient x) TlsConnection_close s3 = Inr s4"
      "closing {} (set_option (ps_tlsClient x)) (tls_fds (ps_tlsClient x) s3) s3 s4"
    using if_set_close_tls refs(3) dom(2) [OF c3] by metis
  note c4 = closing_trans [OF c3 s4(2)]
  obtain s5 where s5: "if_set (ps_tlsUpstream x) TlsConnection_close s4 = Inr s5"
      "closing {} (set_option (ps_tlsUpstream x)) (tls_fds (ps_tlsUpstream x) s4) s4 s5"
    using if_set_close_tls refs(4) dom(2) [OF c4] by metis
  have "conn_fds (ps_client x) s1 = conn_fds (ps_client x) s" "conn_fds (ps_upstream x) s2 = conn_fds (ps_upstream x) s"
      "tls_fds (ps_tlsClient x) s3 = tls_fds (ps_tlsClient x) s" "tls_fds (ps_tlsUpstream x) s4 = tls_fds (ps_tlsUpstream x) s"
    using c1 c2 c3 c4 refs(5,6) by (auto simp: closing_def intro!: fds_cong)
  then show ?thesis
    using ProxySession_close_cases [OF x] op s2(1) s3(1) s4(1) s5(1) closing_trans [OF c4 s5(2)]
    by (simp add: s1_def closed_session_def Let_def held_fds_def conn_refs_def tls_refs_def sess_refs_def ac_simps)
qed

lemma close_closed: "px_sessions s i = Some x \<Longrightarrow> ps_closed x \<Longrightarrow> ProxySession_close i s = Inr s"
  by (simp add: ProxySession_close_def with_sess_def)

lemma close_total:
  assumes "frozen g r s" and "i \<in> dom (px_sessions s)"
  shows "\<exists>s'. ProxySession_close i s = Inr s' \<and> frozen g r s' \<and> dom (nw_conns s') = dom (nw_conns s) \<and>
    (\<forall>t. tls_closed t s \<longrightarrow> tls_closed t s')"
proof -
  obtain x where x: "px_sessions s i = Some x" using assms(2) by blast
  show ?thesis
  proof (cases "ps_closed x")
    case True
    then show ?thesis using close_closed [OF x] assms(1) by simp
  next
    case False
    have "world_ok g s" using assms(1) by (simp add: frozen_def)
    from close_ok [OF this x False] show ?thesis using close_frozen [OF assms(1)]
      by (auto simp: closing_def tls_closed_def)
  qed
qed

lemma sent_on_other_calls [simp]: "sent_on f [CSslShutdown k] = []" "sent_on f [CCtxFree c] = []"
  by (simp_all add: sent_on_def)

lemma streams_put_tls [simp]: "streams c f B (put_tls t x s) = streams c f B s"
  by (simp add: streams_def put_tls_def)

lemma close_streams:
  assumes "ProxySession_close i s = Inr s'" and "streams c f B s"
  shows "streams c f B s'"
proof -
  obtain x where x: "px_sessions s i = Some x" using assms(1) by (auto simp: ProxySession_close_def res_iff)
  have put: "streams c f B (put_sess i y t) = streams c f B t" for y t by (simp add: streams_def)
  have conn: "streams c f B t'" if "if_set p Connection_close t = Inr t'" "streams c f B t" for p t t'
    using that by (cases p) (auto dest: Connection_close_streams)
  have tls: "streams c f B t'" if "if_set p TlsConnection_close t = Inr t'" "streams c f B t"
    for p and t t' :: "('a, 'b) proxy_scheme"
    using that by (cases p) (auto simp: TlsConnection_close_def Socket_close_def res_iff Let_def streams_sys
        split: if_splits)
  show ?thesis using assms ProxySession_close_cases [OF x]
    by (auto simp: res_iff Let_def put streams_sys split: if_splits dest!: conn tls)
qed

section \<open>Sessions as owners of connections\<close>

lemma sess_error_cases:
  "sess_error cb e s = Inr s \<or> (\<exists>ctxs. sess_error cb e s = ProxySession_close (cb_session cb) (fold (\<lambda>k. sys (CCtxFree k)) ctxs s))"
proof (cases cb)
  case (ScUpstreamTlsError i ctx)
  then show ?thesis by (intro disjI2 exI [of _ "[ctx]"]) simp
next
  case (ScClientTlsError i cctx uctx)
  then show ?thesis by (intro disjI2 exI [of _ "[cctx, uctx]"]) simp
qed (auto intro: exI [of _ "[]"])

lemma fold_free [simp]:
  "frozen g r (fold (\<lambda>k. sys (CCtxFree k)) ctxs s) = frozen g r s"
  "px_sessions (fold (\<lambda>k. sys (CCtxFree k)) ctxs s) = px_sessions s"
  "nw_conns (fold (\<lambda>k. sys (CCtxFree k)) ctxs s) = nw_conns s"
  "tls_closed t (fold (\<lambda>k. sys (CCtxFree k)) ctxs s) = tls_closed t s"
  by (induction ctxs arbitrary: s) (simp_all add: tls_closed_def)

lemma sess_error_total:
  assumes "frozen g r s" and "cb_session cb \<in> dom (px_sessions s)"
  shows "\<exists>s'. sess_error cb e s = Inr s' \<and> frozen g r s' \<and> dom (nw_conns s') = dom (nw_conns s) \<and>
    (\<forall>t. tls_closed t s \<longrightarrow> tls_closed t s')"
  using sess_error_cases [of cb e s]
proof
  assume "\<exists>ctxs. sess_error cb e s = ProxySession_close (cb_session cb) (fold (\<lambda>k. sys (CCtxFree k)) ctxs s)"
  then obtain ctxs where "sess_error cb e s = ProxySession_close (cb_session cb) (fold (\<lambda>k. sys (CCtxFree k)) ctxs s)" ..
  then show ?thesis using close_total [of g r "fold (\<lambda>k. sys (CCtxFree k)) ctxs s" "cb_session cb"] assms by simp
qed (use assms in simp)

lemma sess_error_frozen: "frozen g r s \<Longrightarrow> sess_error cb e s = Inr s' \<Longrightarrow> frozen g r s'"
  by (cases cb) (auto dest: close_frozen [rotated])

lemma sess_error_streams: "sess_error cb e s = Inr s' \<Longrightarrow> streams c f B s \<Longrightarrow> streams c f B s'"
  by (cases cb) (auto simp: streams_sys dest!: close_streams)

lemma close_encrypted:
  assumes "ProxySession_close i s = Inr s'"
  shows "encrypted k (pf_calls s') = encrypted k (pf_calls s)"
proof -
  obtain x where x: "px_sessions s i = Some x" using assms by (auto simp: ProxySession_close_def res_iff)
  have "encrypted k (pf_calls t') = encrypted k (pf_calls t)" if "if_set p Connection_close t = Inr t'"
    for p and t t' :: "('a, 'b) proxy_scheme"
    using that by (cases p) (auto simp: Connection_close_def Socket_close_def res_iff Let_def split: if_splits)
  moreover have "encrypted k (pf_calls t') = encrypted k (pf_calls t)" if "if_set p TlsConnection_close t = Inr t'"
    for p and t t' :: "('a, 'b) proxy_scheme"
    using that by (cases p) (auto simp: TlsConnection_close_def Socket_close_def res_iff Let_def split: if_splits)
  ultimately show ?thesis using assms ProxySession_close_cases [OF x]
    by (auto simp: res_iff Let_def split: if_splits)
qed

lemma sess_error_encrypted: "sess_error cb e s = Inr s' \<Longrightarrow> encrypted k (pf_calls s') = encrypted k (pf_calls s)"
  by (cases cb) (auto dest!: close_encrypted [where k = k])

interpretation fz: error_handler "frozen g r :: ('p, 'a) proxy_scheme \<Rightarrow> bool" sess_error for g r
proof
  fix s :: "('p, 'a) proxy_scheme" and c x cb e
  assume "frozen g r s" "nw_conns s c = Some x" "co_onError x = Some cb"
  then have "cb_session cb \<in> dom (px_sessions s)"
    using world_conn_cbs [of g s c x] by (auto simp: frozen_def conn_cbs_def)
  from sess_error_total [OF \<open>frozen g r s\<close> this] \<open>nw_conns s c = Some x\<close>
  show "\<exists>s'. sess_error cb e s = Inr s' \<and> frozen g r s' \<and> nw_conns s' c \<noteq> None" by blast
qed (rule sess_error_streams)

interpretation fz: tls_error_handler "frozen g r :: ('p, 'a) proxy_scheme \<Rightarrow> bool" sess_error for g r
proof
  fix s :: "('p, 'a) proxy_scheme" and t x cb e
  assume a: "frozen g r s" "tn_conns s t = Some x" "tc_closed x" "tc_onError x = Some cb"
  then have "cb_session cb \<in> dom (px_sessions s)"
    using world_tls_cbs [of g s t x] by (auto simp: frozen_def tls_cbs_def)
  moreover have "tls_closed t s" using a(2,3) by (simp add: tls_closed_def)
  ultimately show "\<exists>s'. sess_error cb e s = Inr s' \<and> frozen g r s' \<and> tls_closed t s'"
    using sess_error_total [OF \<open>frozen g r s\<close>] by blast
qed (rule sess_error_encrypted)

interpretation fz: tls_keeper "frozen g r :: ('p, 'a) proxy_scheme \<Rightarrow> bool" sess_error for g r
  by unfold_locales (rule sess_error_frozen)

section \<open>Steps that keep the pointers\<close>

lemma dom_refs: "dom (refs s) = dom (px_sessions s)"
  by (auto simp: refs_def)

lemma frozen_dom: "frozen g r s \<Longrightarrow> dom (px_sessions s) = dom r"
  using dom_refs [of s] by (simp add: frozen_def)

lemma session_in_refs: "frozen g r s \<Longrightarrow> px_sessions s i = Some x \<Longrightarrow> i \<in> dom r"
  using frozen_dom by blast

lemma post_with_sess [post_intros]:
  "(\<And>x. px_sessions s i = Some x \<Longrightarrow> post Q (f x)) \<Longrightarrow> post Q (with_sess i s f)"
  by (auto simp: post_def res_iff)

lemma post_deref [post_intros]: "(\<And>c. p = Some c \<Longrightarrow> post Q (f c)) \<Longrightarrow> post Q (deref p f)"
  by (cases p) (simp_all add: post_def)

lemma post_upd:
  assumes "frozen g r s" and "\<And>x. sess_refs (u x) = sess_refs x"
  shows "post (frozen g r) (upd_sess i u s)"
  by (rule postI) (auto simp: res_iff intro: frozen_put_sess assms)

lemma post_connected: "post (\<lambda>b. True) (Connection_connected c s)"
  by (simp add: post_def)

lemma frozen_ops:
  assumes "frozen g r s"
  shows "post (frozen g r) (Connection_startRead c s)" "post (frozen g r) (Connection_stopRead c s)"
    "post (frozen g r) (Connection_write_string os sess_error d c s)"
    "post (frozen g r) (TlsConnection_write_string lib sess_error d t s)"
    "post (frozen g r) (TlsConnection_startRead t s)" "post (frozen g r) (ProxySession_close i s)"
  by (rule postI, (erule fz.reading_keeps [OF assms disjI1] fz.reading_keeps [OF assms disjI2]
      fz.write_string_keeps [OF assms] fz.tls_write_string_keeps [OF assms] fz.tls_startRead_keeps [OF assms]
      close_frozen [OF assms]))+

lemma frozen_writes:
  "frozen g r s \<Longrightarrow> post (\<lambda>v. frozen g r (snd v)) (Connection_write os sess_error d c s)"
  "frozen g r s \<Longrightarrow> post (\<lambda>v. frozen g r (snd v)) (TlsConnection_write lib sess_error d t s)"
  by (auto intro!: postI dest: fz.write_keeps fz.tls_write_keeps)

lemma cbs_install:
  "conn_cbs (x\<lparr>co_onData := Some cb\<rparr>) \<subseteq> insert cb (conn_cbs x)" "conn_cbs (x\<lparr>co_onClose := Some cb\<rparr>) \<subseteq> insert cb (conn_cbs x)"
  "conn_cbs (x\<lparr>co_onError := Some cb\<rparr>) \<subseteq> insert cb (conn_cbs x)"
  "tls_cbs (y\<lparr>tc_onData := Some cb\<rparr>) \<subseteq> insert cb (tls_cbs y)" "tls_cbs (y\<lparr>tc_onClose := Some cb\<rparr>) \<subseteq> insert cb (tls_cbs y)"
  by (auto simp: conn_cbs_def tls_cbs_def)

lemma frozen_install:
  assumes "frozen g r s" and "cb_session cb \<in> dom r"
  shows "post (frozen g r) (Connection_onData cb c s)" "post (frozen g r) (Connection_onClose cb c s)"
    "post (frozen g r) (Connection_onError cb c s)"
proof -
  have put: "frozen g r (put_conn c y s)" if y: "nw_conns s c = Some x" "conn_cbs y \<subseteq> insert cb (conn_cbs x)" for x y
  proof -
    have wd: "world_ok g s" using assms(1) by (simp add: frozen_def)
    have "cb_session ` conn_cbs y \<subseteq> dom (px_sessions s)"
      using order_trans [OF image_mono [OF y(2), of cb_session], of "dom r"] world_conn_cbs [OF wd y(1)] assms(2)
      unfolding frozen_dom [OF assms(1)] image_insert insert_subset by blast
    then show ?thesis using world_put_conn [OF wd y(1)] assms(1) by (simp add: frozen_def)
  qed
  show "post (frozen g r) (Connection_onData cb c s)" "post (frozen g r) (Connection_onClose cb c s)"
    "post (frozen g r) (Connection_onError cb c s)"
    by (auto simp: post_def Connection_onData_def Connection_onClose_def Connection_onError_def res_iff)
      (erule put, rule cbs_install)+
qed

lemma frozen_install_tls:
  assumes "frozen g r s" and "cb_session cb \<in> dom r"
  shows "post (frozen g r) (TlsConnection_onData cb t s)" "post (frozen g r) (TlsConnection_onClose cb t s)"
proof -
  have put: "frozen g r (put_tls t y s)" if y: "tn_conns s t = Some x" "tls_cbs y \<subseteq> insert cb (tls_cbs x)" for x y
  proof -
    have wd: "world_ok g s" using assms(1) by (simp add: frozen_def)
    have "cb_session ` tls_cbs y \<subseteq> dom (px_sessions s)"
      using order_trans [OF image_mono [OF y(2), of cb_session], of "dom r"] world_tls_cbs [OF wd y(1)] assms(2)
      unfolding frozen_dom [OF assms(1)] image_insert insert_subset by blast
    then show ?thesis using world_put_tls [OF wd y(1)] assms(1) by (simp add: frozen_def)
  qed
  show "post (frozen g r) (TlsConnection_onData cb t s)" "post (frozen g r) (TlsConnection_onClose cb t s)"
    by (auto simp: post_def TlsConnection_onData_def TlsConnection_onClose_def res_iff) (erule put, rule cbs_install)+
qed

lemma frozen_writeToClient [post_intros]:
  "frozen g r s \<Longrightarrow> post (\<lambda>v. frozen g r (snd v)) (writeToClient env d i s)"
  unfolding writeToClient_def
  by (auto intro!: post_intros frozen_writes post_bind [OF post_connected] split: bool.splits option.splits)

lemma frozen_writeToClient_string:
  "frozen g r s \<Longrightarrow> post (frozen g r) (writeToClient_string env d i s)"
  unfolding writeToClient_string_def
  by (auto intro!: post_intros frozen_ops post_bind [OF post_connected] split: bool.splits option.splits)

lemma frozen_writeToUpstream [post_intros]:
  "frozen g r s \<Longrightarrow> post (\<lambda>v. frozen g r (snd v)) (writeToUpstream env d i s)"
  unfolding writeToUpstream_def
  by (auto intro!: post_intros frozen_writes post_bind [OF post_connected] split: bool.splits option.splits)

lemma frozen_write_pendingBody: "frozen g r s \<Longrightarrow> post (frozen g r) (write_pendingBody env i s)"
  unfolding write_pendingBody_def
  by (auto intro!: post_intros post_upd post_bind [OF frozen_writeToUpstream])

lemma frozen_write_and_drop:
  "frozen g r s \<Longrightarrow> post (frozen g r) (rbind (writeToClient env d i s) (\<lambda>(x, s). Inr s))"
  by (auto intro!: post_intros post_bind [OF frozen_writeToClient])

lemma post_any: "post (\<lambda>v. True) m"
  by (simp add: post_def)

lemma frozen_sendError: "frozen g r s \<Longrightarrow> post (frozen g r) (ProxySession_sendError env st re i s)"
  unfolding ProxySession_sendError_def by (intro post_bind [OF post_any] frozen_write_and_drop)

lemma frozen_setupUpstreamCallbacks:
  assumes "frozen g r s"
  shows "post (frozen g r) (setupUpstreamCallbacks i s)"
  unfolding setupUpstreamCallbacks_def
  by (intro post_intros post_bind [OF frozen_install(1)] post_bind [OF frozen_install(2)] frozen_install(3))
    (use assms session_in_refs in fastforce)+

lemma frozen_forwardRequest:
  fixes s :: "('p, 'a) proxy_scheme"
  assumes "frozen g r s"
  shows "post (frozen g r) (forwardRequest env i s)"
  unfolding forwardRequest_def
proof (rule post_bind [where P = "frozen g r"])
  show "post (frozen g r) (with_sess i s (\<lambda>x. if ps_isTlsMitm x then Inr s
      else rbind (setupUpstreamCallbacks i s) (\<lambda>s. deref (ps_upstream x) (\<lambda>c. Connection_startRead c s))))"
    using assms by (auto intro!: post_intros post_bind [OF frozen_setupUpstreamCallbacks] frozen_ops)
  fix s1 :: "('p, 'a) proxy_scheme" assume "frozen g r s1"
  then show "post (frozen g r) (rbind (upd_sess i (\<lambda>x. x\<lparr>ps_currentRequest := (ps_currentRequest x)
              \<lparr>rq_url := origin_form (rq_url (ps_currentRequest x))\<rparr>\<rparr>) s1) (\<lambda>s.
     with_sess i s (\<lambda>x.
       rbind (encodeRequest (ps_currentRequest x) Buffer_new) (\<lambda>out.
       rbind (writeToUpstream env out i s) (\<lambda>(_, s).
       with_sess i s (\<lambda>x. if Buffer_empty (ps_pendingBody x) then Inr s else write_pendingBody env i s))))))"
    by (intro post_bind [OF post_upd] post_with_sess post_bind [OF post_any] post_bind [OF frozen_writeToUpstream]
        post_prod post_if post_Inr frozen_write_pendingBody) simp_all
qed

lemma frozen_onRequestBody: "frozen g r s \<Longrightarrow> post (frozen g r) (onRequestBody env i body e s)"
  unfolding onRequestBody_def
  by (intro post_if post_Inr post_bind [OF post_upd] frozen_write_pendingBody) simp_all

lemma frozen_onResponse: "frozen g r s \<Longrightarrow> post (frozen g r) (onResponse env i resp s)"
  unfolding onResponse_def by (intro post_with_sess post_bind [OF post_any] frozen_write_and_drop)

lemma frozen_onResponseBody: "frozen g r s \<Longrightarrow> post (frozen g r) (onResponseBody env i body e s)"
  unfolding onResponseBody_def
  by (intro post_with_sess post_bind [OF post_any] post_bind [OF post_upd] post_if post_Inr frozen_write_and_drop) simp_all

lemma frozen_onResponseComplete:
  assumes "frozen g r s"
  shows "post (frozen g r) (onResponseComplete i s)"
proof -
  have "frozen g r (put_sess i (x\<lparr>ps_pendingBody := Buffer_new, ps_responseBody := Buffer_new\<rparr>) s)"
    "frozen g r (put_sess i (x\<lparr>ps_pendingBody := Buffer_new, ps_responseBody := Buffer_new\<rparr>) (sys k s))"
    if "px_sessions s i = Some x" for x k
    by (rule frozen_put_sess [where y = x]; use assms that in simp)+
  then show ?thesis unfolding onResponseComplete_def
    by (intro post_with_sess post_Let post_if post_Inr frozen_ops) auto
qed

lemma world_frozen: "world_ok g s \<Longrightarrow> frozen g (refs s) s"
  by (simp add: frozen_def)

lemma frozen_world: "post (frozen g r) m \<Longrightarrow> post (world_ok g) m"
  by (simp add: post_def frozen_def)

interpretation wd: tls_keeper "world_ok g :: ('p, 'a) proxy_scheme \<Rightarrow> bool" sess_error for g
proof
  fix s :: "('p, 'a) proxy_scheme" assume wd: "world_ok g s"
  note fz = world_frozen [OF wd]
  show "world_ok g (put_conn c x s)" if "nw_conns s c = Some y" "same_callbacks x y" for c x y
    using fz.inv_put [OF fz that] by (simp add: frozen_def)
  show "world_ok g (put_tls t x s)" if "tn_conns s t = Some y" "same_tls_callbacks x y" for t x y
    using fz.inv_put_tls [OF fz that] by (simp add: frozen_def)
  show "world_ok g s'" if "sess_error cb e s = Inr s'" for cb e s'
    using sess_error_frozen [OF fz that] by (simp add: frozen_def)
qed simp_all

section \<open>Handshakes\<close>

lemma frozen_reset_codecs: "frozen g r s \<Longrightarrow> post (frozen g r) (reset_codecs env i s)"
  unfolding reset_codecs_def
  by (intro post_with_sess) (auto simp: post_def split: option.splits intro: frozen_put_sess)

lemma frozen_client_tls_done:
  assumes "frozen g r s"
  shows "post (frozen g r) (client_tls_done env i cctx uctx s)"
proof -
  have "post (frozen g r) (with_sess i s (\<lambda>x. deref (ps_tlsClient x) (\<lambda>tc. deref (ps_tlsUpstream x) (\<lambda>tu.
       rbind (TlsConnection_onData (ScMitmClientData i) tc s) (\<lambda>s.
       rbind (TlsConnection_onClose (ScMitmClose i) tc s) (\<lambda>s.
       rbind (TlsConnection_onData (ScMitmUpstreamData i) tu s) (\<lambda>s.
       rbind (TlsConnection_onClose (ScMitmClose i) tu s) (\<lambda>s.
       rbind (TlsConnection_startRead tc s) (\<lambda>s.
       rbind (TlsConnection_startRead tu s) (\<lambda>s.
       Inr (sys (CCtxFree uctx) (sys (CCtxFree cctx) s))))))))))))"
    if "frozen g r s" for s
    by (intro post_with_sess post_deref post_bind [OF frozen_install_tls(1)] post_bind [OF frozen_install_tls(2)]
        post_bind [OF frozen_ops(5)] post_Inr) (use that session_in_refs [OF that] in simp_all)
  then show ?thesis unfolding client_tls_done_def by (intro post_bind [OF frozen_reset_codecs [OF assms]])
qed

lemma frozen_client_hs_done: "frozen g r s \<Longrightarrow> post (frozen g r) (client_hs_done env cb s)"
  by (cases cb) (simp_all add: frozen_client_tls_done post_Inr)

text \<open>A handshake whose completion closure keeps the invariant keeps it.\<close>

lemma world_startHandshake:
  assumes "world_ok g s" and "cb_session doneCb \<in> dom (px_sessions s)" and "cb_session errCb \<in> dom (px_sessions s)"
    and onDone: "\<And>cb s. world_ok g s \<Longrightarrow> post (world_ok g) (onDone cb s)"
  shows "post (world_ok g) (TlsConnection_startHandshake lib onDone sess_error doneCb errCb t s)"
proof (rule postI)
  fix s' assume run: "TlsConnection_startHandshake lib onDone sess_error doneCb errCb t s = Inr s'"
  then obtain x where x: "tn_conns s t = Some x" by (auto simp: TlsConnection_startHandshake_def res_iff)
  let ?x = "x\<lparr>tc_onHandshakeComplete := Some doneCb, tc_onHandshakeError := Some errCb\<rparr>"
  have "tls_cbs ?x \<subseteq> insert doneCb (insert errCb (tls_cbs x))" by (auto simp: tls_cbs_def)
  then have "cb_session ` tls_cbs ?x \<subseteq> dom (px_sessions s)"
    using order_trans [OF image_mono, of "tls_cbs ?x" _ cb_session "dom (px_sessions s)"]
      world_tls_cbs [OF assms(1) x] assms(2,3) unfolding image_insert insert_subset by blast
  then have "world_ok g (put_tls t ?x s)" by (rule world_put_tls [OF assms(1) x])
  then show "world_ok g s'"
    using run x wd.handshake_keeps [of g "put_tls t ?x s" lib onDone t s'] onDone
    by (auto simp: TlsConnection_startHandshake_def res_iff post_def)
qed

lemma cert_put_calls:
  "CertCache_put h ctx cc s = Inr (cc', s') \<Longrightarrow> \<exists>cs. s' = fold sys cs s"
proof -
  assume put: "CertCache_put h ctx cc s = Inr (cc', s')"
  have ev: "evict_lru cc s = Inr (c1, s1) \<Longrightarrow> s1 = s \<or> (\<exists>k. s1 = sys k s)" for c1 s1
    by (auto simp: evict_lru_def Let_def split: if_splits)
  from put ev have "s' = s \<or> (\<exists>k. s' = sys k s) \<or> (\<exists>k l. s' = sys k (sys l s))"
    by (fastforce simp: CertCache_put_def res_iff Let_def split: option.splits)
  then show ?thesis
  proof (elim disjE exE)
    show "s' = s \<Longrightarrow> ?thesis" by (rule exI [of _ "[]"]) simp
    show "s' = sys k s \<Longrightarrow> ?thesis" for k by (rule exI [of _ "[k]"]) simp
    show "s' = sys k (sys l s) \<Longrightarrow> ?thesis" for k l by (rule exI [of _ "[l, k]"]) simp
  qed
qed

lemma frozen_fold_sys [simp]: "frozen g r (fold sys cs s) = frozen g r s"
  by (induction cs arbitrary: s) simp_all

lemma frozen_certCache [simp]: "frozen g r (s\<lparr>px_certCache := cc\<rparr>) = frozen g r s"
proof -
  have "refs (s\<lparr>px_certCache := cc\<rparr>) = refs s" by (rule refs_cong) simp
  then show ?thesis by (simp add: frozen_def world_ok_def surroundings_def outside_def)
qed

lemma frozen_cache_put: "frozen g r s \<Longrightarrow> post (frozen g r) (cache_put has h ctx s)"
  by (auto simp: post_def cache_put_def res_iff dest!: cert_put_calls)

lemma frozen_generate: "frozen g r (snd (CertGenerator_generate lib gen h s)) = frozen g r s"
  by (auto simp: CertGenerator_generate_def Let_def split: option.splits)

section \<open>Steps that change the pointers\<close>

lemma others_refs:
  assumes "world_ok g s" and "px_sessions s i = Some x" and "refs s j = Some p" and "j \<noteq> i"
  shows "conn_refs p \<subseteq> dom (nw_conns s) - conn_refs (sess_refs x)" "tls_refs p \<subseteq> dom (tn_conns s)"
proof -
  have "refs s i = Some (sess_refs x)" using assms(2) by (simp add: refs_def)
  then show "conn_refs p \<subseteq> dom (nw_conns s) - conn_refs (sess_refs x)" "tls_refs p \<subseteq> dom (tn_conns s)"
    using assms(1,3,4) unfolding world_ok_def refs_ok_def by blast+
qed

text \<open>Replacing the pointers of one session, and only connections it owned.\<close>

lemma world_change:
  assumes "world_ok g s" and x: "px_sessions s i = Some x" and "px_sessions s' = (px_sessions s)(i \<mapsto> y)"
    and "dom (nw_conns s) - conn_refs (sess_refs x) \<subseteq> dom (nw_conns s')" and "dom (tn_conns s) \<subseteq> dom (tn_conns s')"
    and "conn_refs (sess_refs y) \<subseteq> dom (nw_conns s')" and "tls_refs (sess_refs y) \<subseteq> dom (tn_conns s')"
    and new: "\<And>c. c \<in> conn_refs (sess_refs y) \<Longrightarrow> c \<in> conn_refs (sess_refs x) \<or> c \<notin> dom (nw_conns s)"
    and "\<And>c. ps_client y = Some c \<Longrightarrow> ps_upstream y \<noteq> Some c" and "\<And>t. ps_tlsClient y = Some t \<Longrightarrow> ps_tlsUpstream y \<noteq> Some t"
    and "\<And>c. c \<in> dom (nw_conns s') \<Longrightarrow> c < nw_nextConn s'" and "\<And>t. t \<in> dom (tn_conns s') \<Longrightarrow> t < tn_nextTls s'"
    and "outside s' = outside s"
    and "cbs_ok (dom (px_sessions s)) (ran (nw_conns s')) conn_cbs" and "cbs_ok (dom (px_sessions s)) (ran (tn_conns s')) tls_cbs"
  shows "world_ok g s'"
proof -
  have refs: "refs s' = (refs s)(i \<mapsto> sess_refs y)" using assms(3) by (auto simp: refs_def)
  have dom: "dom (px_sessions s') = dom (px_sessions s)" using assms(3) x by auto
  note oth = others_refs [OF assms(1) x]
  have disj: "conn_refs p \<inter> conn_refs (sess_refs y) = {}" if "refs s j = Some p" "j \<noteq> i" for j p
    using oth [OF that] new by blast
  have uniq: "\<forall>j k p q c. refs s j = Some p \<longrightarrow> refs s k = Some q \<longrightarrow> c \<in> conn_refs p \<longrightarrow> c \<in> conn_refs q \<longrightarrow> j = k"
    and self: "\<forall>j p. refs s j = Some p \<longrightarrow> (\<forall>c. fst (fst p) = Some c \<longrightarrow> snd (fst p) \<noteq> Some c) \<and>
      (\<forall>t. fst (snd p) = Some t \<longrightarrow> snd (snd p) \<noteq> Some t)"
    using assms(1) unfolding world_ok_def refs_ok_def by blast+
  have y: "(\<forall>c. fst (fst (sess_refs y)) = Some c \<longrightarrow> snd (fst (sess_refs y)) \<noteq> Some c) \<and>
      (\<forall>t. fst (snd (sess_refs y)) = Some t \<longrightarrow> snd (snd (sess_refs y)) \<noteq> Some t)"
    using assms(9,10) by (simp add: sess_refs_def)
  have "refs_ok (refs s') (nw_conns s') (tn_conns s')"
    unfolding refs_ok_def
  proof (rule conjI; intro allI impI)
    fix j p assume "refs s' j = Some p"
    then consider "j = i" "p = sess_refs y" | "j \<noteq> i" "refs s j = Some p" by (auto simp: refs split: if_splits)
    then show "conn_refs p \<subseteq> dom (nw_conns s') \<and> tls_refs p \<subseteq> dom (tn_conns s') \<and>
        (\<forall>c. fst (fst p) = Some c \<longrightarrow> snd (fst p) \<noteq> Some c) \<and> (\<forall>t. fst (snd p) = Some t \<longrightarrow> snd (snd p) \<noteq> Some t)"
    proof cases
      case 1
      then show ?thesis using assms(6,7) y by simp
    next
      case 2
      then show ?thesis using order_trans [OF oth(1) [OF 2(2,1)] assms(4)] order_trans [OF oth(2) [OF 2(2,1)] assms(5)]
        spec [OF spec [OF self], of j p] by simp
    qed
  next
    fix j k p q c assume a: "refs s' j = Some p" "refs s' k = Some q" "c \<in> conn_refs p" "c \<in> conn_refs q"
    have "j = i \<and> p = sess_refs y \<or> j \<noteq> i \<and> refs s j = Some p" "k = i \<and> q = sess_refs y \<or> k \<noteq> i \<and> refs s k = Some q"
      using a(1,2) by (auto simp: refs split: if_splits)
    then show "j = k" using a(3,4) uniq disj [of j p] disj [of k q] by blast
  qed
  moreover have "surroundings s' = surroundings s" "px_nextSession s' = px_nextSession s"
    using assms(13) dom by (simp_all add: surroundings_def outside_def)
  ultimately show ?thesis using assms(11-15) assms(1) unfolding world_ok_def dom by simp
qed

subsection \<open>Effects of creating and destroying connections\<close>

lemma Connection_new_effect:
  "nw_conns (snd (Connection_new k s)) = (nw_conns s)(nw_nextConn s \<mapsto>
     \<lparr>co_socket = k, co_closed = False, co_reading = False, co_writeBuf = Buffer_new, co_onData = None, co_onClose = None,
      co_onError = None\<rparr>)"
  "fst (Connection_new k s) = nw_nextConn s" "nw_nextConn (snd (Connection_new k s)) = Suc (nw_nextConn s)"
  by (simp_all add: Connection_new_def put_conn_def Let_def outside_def)

lemma Connection_new_frame [simp]:
  "tn_conns (snd (Connection_new k s)) = tn_conns s" "px_sessions (snd (Connection_new k s)) = px_sessions s"
  "tn_nextTls (snd (Connection_new k s)) = tn_nextTls s" "outside (snd (Connection_new k s)) = outside s"
  by (simp_all add: Connection_new_def put_conn_def Let_def outside_def)

lemma Connection_destroy_effect:
  fixes s :: "('p, 'a) proxy_scheme"
  assumes "Connection_destroy c s = Inr s'"
  shows "nw_conns s' = (nw_conns s)(c := None)" "nw_nextConn s' = nw_nextConn s" "tn_conns s' = tn_conns s"
    "px_sessions s' = px_sessions s" "tn_nextTls s' = tn_nextTls s" "outside s' = outside s"
  using assms by (auto simp: Connection_destroy_def Connection_close_def res_iff Socket_destroy_def Socket_close_def
      Let_def sys_def split: if_splits)

lemma Connection_release_effect:
  fixes s :: "('p, 'a) proxy_scheme"
  assumes "Connection_releaseSocket c s = Inr (k, s')"
  shows "dom (nw_conns s') = dom (nw_conns s)" "\<And>d. d \<noteq> c \<Longrightarrow> nw_conns s' d = nw_conns s d" "nw_nextConn s' = nw_nextConn s"
    "tn_conns s' = tn_conns s" "px_sessions s' = px_sessions s" "tn_nextTls s' = tn_nextTls s" "outside s' = outside s"
  using assms by (auto simp: Connection_releaseSocket_def res_iff Let_def Socket_move_def split: if_splits)

lemma Tls_new_effect:
  fixes s :: "('p, 'a) proxy_scheme"
  shows "tls_cbs (the (tn_conns (snd (TlsConnection_new lib k ctx srv s)) (tn_nextTls s))) = {}"
    "dom (tn_conns (snd (TlsConnection_new lib k ctx srv s))) = insert (tn_nextTls s) (dom (tn_conns s))"
    "\<And>t. t \<noteq> tn_nextTls s \<Longrightarrow> tn_conns (snd (TlsConnection_new lib k ctx srv s)) t = tn_conns s t"
    "fst (TlsConnection_new lib k ctx srv s) = tn_nextTls s"
    "tn_nextTls (snd (TlsConnection_new lib k ctx srv s)) = Suc (tn_nextTls s)"
    "nw_conns (snd (TlsConnection_new lib k ctx srv s)) = nw_conns s" "px_sessions (snd (TlsConnection_new lib k ctx srv s)) = px_sessions s"
    "nw_nextConn (snd (TlsConnection_new lib k ctx srv s)) = nw_nextConn s"
    "outside (snd (TlsConnection_new lib k ctx srv s)) = outside s"
  by (auto simp: TlsConnection_new_def put_tls_def tls_cbs_def Let_def sys_def outside_def)

lemma cbs_ok_sub:
  "cbs_ok ids (ran m) f \<Longrightarrow> (\<And>c x. m' c = Some x \<Longrightarrow> m c = Some x \<or> f x = {}) \<Longrightarrow> cbs_ok ids (ran m') f"
  unfolding cbs_ok_def ran_def by fastforce

lemma upstream_replaced:
  assumes wd: "world_ok g s" and x: "px_sessions s i = Some x" and s1: "Connection_new k s = (c, s1)"
  shows "post (world_ok g) (if_set (ps_upstream x) Connection_destroy
     (put_sess i (x\<lparr>ps_connectingSocket := rest, ps_upstream := Some c\<rparr>) s1))"
proof (rule postI)
  fix s' assume run: "if_set (ps_upstream x) Connection_destroy
     (put_sess i (x\<lparr>ps_connectingSocket := rest, ps_upstream := Some c\<rparr>) s1) = Inr s'"
  let ?y = "x\<lparr>ps_connectingSocket := rest, ps_upstream := Some c\<rparr>"
  have c: "c = nw_nextConn s" "s1 = snd (Connection_new k s)" using s1 Connection_new_effect(2) [of k s] by simp_all
  have fresh: "nw_conns s c = None" using wd c by (auto simp: world_ok_def)
  have s1: "px_sessions s1 = px_sessions s" "tn_conns s1 = tn_conns s" "outside s1 = outside s"
      "nw_nextConn s1 = Suc c" "tn_nextTls s1 = tn_nextTls s"
    using c Connection_new_effect(3) [of k s] by simp_all
  have "px_sessions s' = (px_sessions s)(i \<mapsto> ?y) \<and> tn_conns s' = tn_conns s \<and> outside s' = outside s \<and>
      nw_nextConn s' = Suc c \<and> tn_nextTls s' = tn_nextTls s \<and>
      nw_conns s' = (\<lambda>d. if ps_upstream x = Some d then None else nw_conns s1 d)"
  proof (cases "ps_upstream x")
    case None
    then show ?thesis using run s1 by auto
  next
    case (Some u)
    then have "Connection_destroy u (put_sess i ?y s1) = Inr s'" using run by simp
    from Connection_destroy_effect [OF this] show ?thesis using Some s1 by (auto simp: fun_eq_iff)
  qed
  then have s': "px_sessions s' = (px_sessions s)(i \<mapsto> ?y)" "tn_conns s' = tn_conns s" "outside s' = outside s"
      "nw_nextConn s' = Suc c" "tn_nextTls s' = tn_nextTls s"
      "nw_conns s' = (\<lambda>d. if ps_upstream x = Some d then None else nw_conns s1 d)" by blast+
  have conn: "d = c \<or> nw_conns s d = Some z" "nw_conns s' d = Some z \<Longrightarrow> conn_cbs z = {} \<or> nw_conns s d = Some z"
    if "nw_conns s' d = Some z" for d z
    using that s'(6) c Connection_new_effect(1) [of k s] by (auto simp: conn_cbs_def split: if_splits)
  note refs = world_refs [OF wd x]
  show "world_ok g s'"
  proof (rule world_change [OF wd x s'(1)])
    show "dom (nw_conns s) - conn_refs (sess_refs x) \<subseteq> dom (nw_conns s')" "conn_refs (sess_refs ?y) \<subseteq> dom (nw_conns s')"
      using s'(6) c Connection_new_effect(1) [of k s] fresh refs(1,2,5)
      by (auto simp: conn_refs_def sess_refs_def split: if_splits)
    show "tls_refs (sess_refs ?y) \<subseteq> dom (tn_conns s')" using s'(2) refs(3,4) by (simp add: tls_refs_def sess_refs_def)
    show "d \<in> conn_refs (sess_refs x) \<or> d \<notin> dom (nw_conns s)" if "d \<in> conn_refs (sess_refs ?y)" for d
      using that fresh by (auto simp: conn_refs_def sess_refs_def)
    show "ps_client ?y = Some d \<Longrightarrow> ps_upstream ?y \<noteq> Some d" for d using refs(1) fresh by auto
    show "ps_tlsClient ?y = Some t \<Longrightarrow> ps_tlsUpstream ?y \<noteq> Some t" for t using refs(6) by auto
    show "cbs_ok (dom (px_sessions s)) (ran (nw_conns s')) conn_cbs"
      by (rule cbs_ok_sub [of _ "nw_conns s"]) (use wd conn(2) in \<open>auto simp: world_ok_def\<close>)
    show "d < nw_nextConn s'" if "d \<in> dom (nw_conns s')" for d
    proof -
      have "d = c \<or> d \<in> dom (nw_conns s)" using that conn(1) by blast
      then show ?thesis using wd c(1) s'(4) by (auto simp: world_ok_def less_Suc_eq)
    qed
  qed (use wd s' in \<open>auto simp: world_ok_def\<close>)
qed

end
