(* ===== verification/Session_Steps.thy ===== *)
theory Session_Steps
  imports Session_Heap
begin

text \<open>
  The remaining handlers of a session keep the invariant \<open>world_ok g\<close> of the session heap: the
  upgrade of both sides to TLS (ProxySession.cpp 240--353), the connection to the upstream host
  (359--408), the request and response callbacks of the codecs, the data and close callbacks of the
  connections, the construction of a session and its start. Together they give the step of the
  event loop that a watch of a session's descriptor triggers (\<open>world_sess_io\<close>).
\<close>


text \<open>A TLS connection takes over the socket of a connection of its session.\<close>

lemma tls_takeover:
  fixes s :: "('p, 'a) proxy_scheme"
  assumes wd: "world_ok g s" and x: "px_sessions s i = Some x"
    and rel: "Connection_releaseSocket c s = Inr (k, s1)" and des: "Connection_destroy c s1 = Inr s2"
    and new: "TlsConnection_new lib k ctx srv s2 = (t, s3)"
    and y: "sess_refs y = (if up then ((ps_client x, None), ps_tlsClient x, Some t)
                           else ((None, ps_upstream x), Some t, ps_tlsUpstream x))"
    and c: "if up then ps_upstream x = Some c else ps_client x = Some c"
  shows "world_ok g (put_sess i y s3)"
proof -
  note r1 = Connection_release_effect [OF rel] and r2 = Connection_destroy_effect [OF des]
  have s3: "s3 = snd (TlsConnection_new lib k ctx srv s2)" and t: "t = tn_nextTls s"
    using new Tls_new_effect(4) [of lib k ctx srv s2] r1 r2 by simp_all
  note r3 = Tls_new_effect(1) [where lib = lib and k = k and ctx = ctx and srv = srv and s = s2, folded s3]
    Tls_new_effect(2) [where lib = lib and k = k and ctx = ctx and srv = srv and s = s2, folded s3]
    Tls_new_effect(3) [where lib = lib and k = k and ctx = ctx and srv = srv and s = s2, folded s3]
    Tls_new_effect(4) [where lib = lib and k = k and ctx = ctx and srv = srv and s = s2, folded s3]
    Tls_new_effect(5-9) [where lib = lib and k = k and ctx = ctx and srv = srv and s = s2, folded s3]
  note refs = world_refs [OF wd x]
  have conns: "nw_conns s3 d = (if d = c then None else nw_conns s d)" for d using r1(2) r2(1) r3(6) by simp
  have fresh: "tn_conns s t = None" using wd t by (auto simp: world_ok_def)
  have tls: "dom (tn_conns s3) = insert t (dom (tn_conns s))" "tn_nextTls s3 = Suc t"
    using r1 r2 r3 t by simp_all
  have ycomp: "ps_client y = (if up then ps_client x else None)" "ps_upstream y = (if up then None else ps_upstream x)"
      "ps_tlsClient y = (if up then ps_tlsClient x else Some t)" "ps_tlsUpstream y = (if up then Some t else ps_tlsUpstream x)"
    using y by (auto simp: sess_refs_def split: if_splits)
  have cc: "c \<in> conn_refs (sess_refs x)" "c \<notin> conn_refs (sess_refs y)"
    using c refs(5) by (auto simp: conn_refs_def sess_refs_def ycomp split: if_splits)
  have sub: "conn_refs (sess_refs y) \<subseteq> conn_refs (sess_refs x)" "conn_refs (sess_refs x) \<subseteq> dom (nw_conns s)"
    using refs(1,2) by (auto simp: conn_refs_def sess_refs_def ycomp split: if_splits)
  show ?thesis
  proof (rule world_change [OF wd x, of _ y])
    show "px_sessions (put_sess i y s3) = (px_sessions s)(i \<mapsto> y)" using r1 r2 r3 by simp
    show "dom (nw_conns s) - conn_refs (sess_refs x) \<subseteq> dom (nw_conns (put_sess i y s3))"
      using conns cc(1) by (auto split: if_splits)
    show "conn_refs (sess_refs y) \<subseteq> dom (nw_conns (put_sess i y s3))"
    proof
      fix d assume "d \<in> conn_refs (sess_refs y)"
      then have "d \<in> dom (nw_conns s)" "d \<noteq> c" using sub cc(2) by blast+
      then show "d \<in> dom (nw_conns (put_sess i y s3))" using conns by (simp add: domIff)
    qed
    show "tls_refs (sess_refs y) \<subseteq> dom (tn_conns (put_sess i y s3))"
      using tls(1) refs(3,4) by (auto simp: tls_refs_def sess_refs_def ycomp split: if_splits)
    show "d \<in> conn_refs (sess_refs y) \<Longrightarrow> d \<in> conn_refs (sess_refs x) \<or> d \<notin> dom (nw_conns s)" for d using sub(1) by blast
    show "ps_client y = Some d \<Longrightarrow> ps_upstream y \<noteq> Some d" for d by (simp add: ycomp split: if_splits)
    show "ps_tlsClient y = Some u \<Longrightarrow> ps_tlsUpstream y \<noteq> Some u" for u
      using fresh refs(3,4) by (auto simp: ycomp split: if_splits)
    show "cbs_ok (dom (px_sessions s)) (ran (nw_conns (put_sess i y s3))) conn_cbs"
      by (rule cbs_ok_sub [of _ "nw_conns s"]) (use wd conns in \<open>auto simp: world_ok_def split: if_splits\<close>)
    show "cbs_ok (dom (px_sessions s)) (ran (tn_conns (put_sess i y s3))) tls_cbs"
    proof (rule cbs_ok_sub [of _ "tn_conns s"])
      show "cbs_ok (dom (px_sessions s)) (ran (tn_conns s)) tls_cbs" using wd by (simp add: world_ok_def)
      fix u z assume "tn_conns (put_sess i y s3) u = Some z"
      then show "tn_conns s u = Some z \<or> tls_cbs z = {}"
        using r3(1,3) r1(4,6) r2(3,5) t by (cases "u = t") auto
    qed
    show "d \<in> dom (nw_conns (put_sess i y s3)) \<Longrightarrow> d < nw_nextConn (put_sess i y s3)" for d
      using conns wd r1(3) r2(2) r3(8) by (auto simp: world_ok_def split: if_splits)
    show "u \<in> dom (tn_conns (put_sess i y s3)) \<Longrightarrow> u < tn_nextTls (put_sess i y s3)" for u
      using tls wd t by (auto simp: world_ok_def less_Suc_eq)
  qed (use r1 r2 r3 tls(1) in auto)
qed

lemma frozen_same_refs:
  "frozen g r s \<Longrightarrow> frozen g r s' \<Longrightarrow> px_sessions s i = Some x \<Longrightarrow> \<exists>x'. px_sessions s' i = Some x' \<and> sess_refs x' = sess_refs x"
  by (auto simp: frozen_def refs_def dest!: fun_cong [where x = i])

lemma sess_refs_eq:
  "sess_refs x' = sess_refs x \<longleftrightarrow> ps_client x' = ps_client x \<and> ps_upstream x' = ps_upstream x \<and>
     ps_tlsClient x' = ps_tlsClient x \<and> ps_tlsUpstream x' = ps_tlsUpstream x"
  by (auto simp: sess_refs_def)

lemma case_prod_Inr: "(case p of (a, b) \<Rightarrow> f a b) = Inr v \<longleftrightarrow> (\<exists>a b. p = (a, b) \<and> f a b = Inr v)"
  by (cases p) simp

lemma start_tls_world:
  fixes s :: "('p, 'a) proxy_scheme"
  assumes wd: "world_ok g s" and x: "px_sessions s i = Some x"
  shows "ps_client x = Some c \<Longrightarrow> post (world_ok g) (start_client_tls env i cctx uctx c s)"
    "ps_upstream x = Some c \<Longrightarrow> (\<And>cb s. world_ok g s \<Longrightarrow> post (world_ok g) (hs_done env cb (s :: ('p, 'a) proxy_scheme))) \<Longrightarrow>
       post (world_ok g) (start_upstream_tls env i uctx h c s)"
proof -
  have st: "world_ok g (put_sess i y s3) \<and> i \<in> dom (px_sessions (put_sess i y s3)) \<and> tn_conns (put_sess i y s3) t \<noteq> None"
    if "Connection_releaseSocket c s = Inr (k, s1)" "Connection_destroy c s1 = Inr s2"
      "TlsConnection_new lib k ctx up' s2 = (t, s3)"
      "sess_refs y = (if up then ((ps_client x, None), ps_tlsClient x, Some t)
                      else ((None, ps_upstream x), Some t, ps_tlsUpstream x))"
      "if up then ps_upstream x = Some c else ps_client x = Some c" for k s1 s2 s3 lib ctx t y up up'
    using tls_takeover [OF wd x that] Tls_new_effect(2,4) [of lib k ctx up' s2] that(3) by auto
  have z: "px_sessions s3 i = Some x" if "Connection_releaseSocket c s = Inr (k, s1)" "Connection_destroy c s1 = Inr s2"
      "TlsConnection_new lib k ctx up' s2 = (t, s3)" for k s1 s2 s3 lib ctx t up'
    using Connection_release_effect(5) [OF that(1)] Connection_destroy_effect(4) [OF that(2)]
      Tls_new_effect(7) [of lib k ctx up' s2] that(3) x by simp
  show "post (world_ok g) (start_client_tls env i cctx uctx c s)" if c: "ps_client x = Some c"
  proof (rule postI)
    fix s' assume "start_client_tls env i cctx uctx c s = Inr s'"
    then obtain k s1 s2 t s3 where run: "Connection_releaseSocket c s = Inr (k, s1)" "Connection_destroy c s1 = Inr s2"
        "TlsConnection_new (ev_lib env) k cctx True s2 = (t, s3)"
        "rbind (upd_sess i (\<lambda>x. x\<lparr>ps_client := None, ps_tlsClient := Some t\<rparr>) s3)
           (TlsConnection_startHandshake (ev_lib env) (client_hs_done env) sess_error (ScClientTls i cctx uctx)
             (ScClientTlsError i cctx uctx) t) = Inr s'"
      by (auto simp: start_client_tls_def rbind_Inr_iff case_prod_Inr)
    let ?y = "x\<lparr>ps_client := None, ps_tlsClient := Some t\<rparr>"
    have "world_ok g (put_sess i ?y s3)" "i \<in> dom (px_sessions (put_sess i ?y s3))"
      using st [OF run(1-3), where y = ?y and up = False] c by (simp_all add: sess_refs_def)
    then have "post (world_ok g) (TlsConnection_startHandshake (ev_lib env) (client_hs_done env) sess_error
        (ScClientTls i cctx uctx) (ScClientTlsError i cctx uctx) t (put_sess i ?y s3))"
      using frozen_world [OF frozen_client_hs_done [OF world_frozen]] by (intro world_startHandshake) simp_all
    then show "world_ok g s'" using run(4) z [OF run(1-3)] by (auto simp: res_iff dest: postD)
  qed
  show "post (world_ok g) (start_upstream_tls env i uctx h c s)" if c: "ps_upstream x = Some c"
    and hs: "\<And>cb s. world_ok g s \<Longrightarrow> post (world_ok g) (hs_done env cb (s :: ('p, 'a) proxy_scheme))"
  proof (rule postI)
    fix s' assume "start_upstream_tls env i uctx h c s = Inr s'"
    then obtain k s1 s2 t s3 s4 where run: "Connection_releaseSocket c s = Inr (k, s1)" "Connection_destroy c s1 = Inr s2"
        "TlsConnection_new (ev_lib env) k uctx False s2 = (t, s3)"
        "rbind (upd_sess i (\<lambda>x. x\<lparr>ps_upstream := None, ps_tlsUpstream := Some t\<rparr>) s3)
           (TlsConnection_setSni h t) = Inr s4"
        "TlsConnection_startHandshake (ev_lib env) (hs_done env) sess_error (ScUpstreamTls i uctx h)
             (ScUpstreamTlsError i uctx) t s4 = Inr s'"
      by (auto simp: start_upstream_tls_def rbind_Inr_iff case_prod_Inr)
    let ?y = "x\<lparr>ps_upstream := None, ps_tlsUpstream := Some t\<rparr>"
    have "world_ok g (put_sess i ?y s3)"
      using st [OF run(1-3), where y = ?y and up = True] c by (simp add: sess_refs_def)
    moreover have "\<exists>k. s4 = sys k (put_sess i ?y s3)"
      using run(4) z [OF run(1-3)] by (auto simp: res_iff TlsConnection_setSni_def)
    ultimately have "world_ok g s4" "i \<in> dom (px_sessions s4)" by auto
    then have "post (world_ok g) (TlsConnection_startHandshake (ev_lib env) (hs_done env) sess_error
        (ScUpstreamTls i uctx h) (ScUpstreamTlsError i uctx) t s4)"
      by (intro world_startHandshake hs) simp_all
    then show "world_ok g s'" using run(5) by (auto dest: postD)
  qed
qed

lemma world_upstream_tls_done:
  fixes s :: "('p, 'a) proxy_scheme"
  assumes "world_ok g s"
  shows "post (world_ok g) (upstream_tls_done env i uctx h s)"
proof -
  have "post (world_ok g) (rbind (cache_put b h ctx s1) (\<lambda>s. deref (ps_client x) (\<lambda>c. start_client_tls env i ctx uctx c s)))"
    if x: "px_sessions s i = Some x" and s1: "frozen g (refs s) s1"
    for x b ctx and s1 :: "('p, 'a) proxy_scheme"
  proof (intro post_bind [OF frozen_cache_put [OF s1]] post_deref)
    fix s2 :: "('p, 'a) proxy_scheme" and c assume s2: "frozen g (refs s) s2" and c: "ps_client x = Some c"
    obtain y where y: "px_sessions s2 i = Some y" "sess_refs y = sess_refs x"
      using frozen_same_refs [OF world_frozen [OF assms] s2 x] by blast
    show "post (world_ok g) (start_client_tls env i ctx uctx c s2)"
      by (rule start_tls_world(1) [OF _ y(1)]) (use s2 c y(2) in \<open>auto simp: frozen_def sess_refs_eq\<close>)
  qed
  moreover have "frozen g (refs s) (snd (CertGenerator_generate (ev_x509 env) gen h s))" for gen
    using world_frozen [OF assms] by (simp add: frozen_generate)
  ultimately show ?thesis unfolding upstream_tls_done_def
    by (intro post_intros; simp add: frozen_world [OF frozen_ops(6) [of _ "refs s"]] Let_def)
qed

section \<open>Every handler keeps the invariant\<close>

lemma world_hs_done: "world_ok g s \<Longrightarrow> post (world_ok g) (hs_done env cb s)"
  by (cases cb) (simp_all add: post_Inr world_upstream_tls_done frozen_world [OF frozen_client_tls_done [OF world_frozen]])

lemma world_startTlsMitm:
  fixes s :: "('p, 'a) proxy_scheme"
  assumes "world_ok g s"
  shows "post (world_ok g) (startTlsMitm env h i s)"
  unfolding startTlsMitm_def
proof (intro post_bind [OF post_upd [OF world_frozen [OF assms]]] post_with_sess post_deref)
  fix s1 :: "('p, 'a) proxy_scheme" and x c assume s1: "frozen g (refs s) s1" and x: "px_sessions s1 i = Some x"
  have up: "post (world_ok g) (start_upstream_tls env i uctx h u s2)"
    if s2: "frozen g (refs s) s2" and u: "ps_upstream x = Some u" for s2 :: "('p, 'a) proxy_scheme" and uctx u
  proof -
    obtain y where y: "px_sessions s2 i = Some y" "sess_refs y = sess_refs x" using frozen_same_refs [OF s1 s2 x] by blast
    show ?thesis
      by (rule start_tls_world(2) [OF _ y(1)]) (use s2 u y(2) world_hs_done in \<open>auto simp: frozen_def sess_refs_eq\<close>)
  qed
  show "post (world_ok g) (rbind (Connection_write_string (ev_os env) sess_error established c s1) (\<lambda>s.
       rbind (Connection_stopRead c s) (\<lambda>s.
       let upstreamCtx = tls_ctxNew (ev_lib env) (pf_calls s);
           s = sys (CCtxVerifyNone upstreamCtx) (sys (CCtxNew upstreamCtx) s)
       in deref (ps_upstream x) (\<lambda>u. start_upstream_tls env i upstreamCtx h u s))))"
    by (intro post_bind [OF frozen_ops(3) [OF s1]] post_bind [OF frozen_ops(2)] post_Let post_deref up) simp_all
qed simp

lemma world_startTunnel:
  assumes "world_ok g s"
  shows "post (world_ok g) (startTunnel env i s)"
  unfolding startTunnel_def
proof (intro post_with_sess post_if world_startTlsMitm [OF assms] frozen_world)
  fix x
  show "post (frozen g (refs s)) (rbind (upd_sess i (\<lambda>x. x\<lparr>ps_isTunnel := True\<rparr>) s) (\<lambda>s.
         deref (ps_client x) (\<lambda>c.
         rbind (Connection_write_string (ev_os env) sess_error established c s) (\<lambda>s.
         rbind (setupUpstreamCallbacks i s) (\<lambda>s.
         deref (ps_upstream x) (\<lambda>u. Connection_startRead u s))))))"
    by (intro post_bind [OF post_upd] post_deref post_bind [OF frozen_ops(3)] post_bind [OF frozen_setupUpstreamCallbacks]
        frozen_ops(1)) (simp_all add: world_frozen [OF assms])
qed

lemma world_onUpstreamConnected:
  assumes "world_ok g s"
  shows "post (world_ok g) (onUpstreamConnected env i s)"
  unfolding onUpstreamConnected_def
proof (intro post_with_sess post_if post_Inr assms)
  fix x assume x: "px_sessions s i = Some x"
  obtain c s1 where n: "Connection_new (fst (Socket_move (ps_connectingSocket x))) s = (c, s1)" by fastforce
  have nxt: "post (world_ok g) (if b then startTunnel env i s2 else forwardRequest env i s2)" if "world_ok g s2" for b s2
    using world_startTunnel [OF that] frozen_world [OF frozen_forwardRequest [OF world_frozen [OF that]]] by simp
  show "post (world_ok g) (let (k, rest) = Socket_move (ps_connectingSocket x); (c, s) = Connection_new k s;
              s = put_sess i (x\<lparr>ps_connectingSocket := rest, ps_upstream := Some c\<rparr>) s
          in rbind (if_set (ps_upstream x) Connection_destroy s) (\<lambda>s.
             if ps_isConnect x then startTunnel env i s else forwardRequest env i s))"
    using post_bind [OF upstream_replaced [OF assms x n] nxt] by (simp add: n case_prod_beta Let_def)
qed

lemma Address_fromHostPort_frozen [simp]: "frozen g r (snd (Address_fromHostPort os h p s)) = frozen g r s"
  by (auto simp: Address_fromHostPort_def Let_def split: sum.splits prod.splits)

lemma Socket_calls_frozen [simp]:
  "frozen g r (snd (Socket_createSocket os a s)) = frozen g r s" "frozen g r (snd (Socket_setNonblocking os k s)) = frozen g r s"
  "frozen g r (snd (Socket_connect os a k s)) = frozen g r s" "frozen g r (snd (Socket_assign k1 k2 s)) = frozen g r s"
  by (auto simp: Socket_createSocket_def Socket_setNonblocking_def Socket_connect_def Socket_assign_def Socket_destroy_def
      suppressSigpipe_def Let_def case_prod_beta split: sum.splits option.splits)

lemma Socket_calls_sessions [simp]:
  "px_sessions (snd (Socket_setNonblocking os k s)) = px_sessions s" "px_sessions (snd (Socket_assign k1 k2 s)) = px_sessions s"
  by (auto simp: Socket_setNonblocking_def Socket_assign_def Socket_destroy_def Socket_close_def
      Let_def case_prod_beta split: option.splits)

lemma world_connectUpstream:
  fixes s :: "('p, 'a) proxy_scheme"
  assumes "world_ok g s"
  shows "post (world_ok g) (connectUpstream env host port i s)"
proof -
  have err: "post (world_ok g) (ProxySession_sendError env st re i s1)" and conn: "post (world_ok g) (onUpstreamConnected env i s1)"
    and wat: "post (world_ok g) (Inr (KqueueLoop_watch f ev cb s1))"
    if "frozen g (refs s) s1" for st re f ev cb and s1 :: "('p, 'a) proxy_scheme"
    using frozen_world [OF frozen_sendError [OF that]] world_onUpstreamConnected that by (auto simp: frozen_def intro: post_Inr)
  have put: "frozen g (refs s) (put_sess i (x\<lparr>ps_connectingSocket := k\<rparr>) (snd (Socket_assign k1 k2 s1)))"
    if "frozen g (refs s) s1" "px_sessions s1 i = Some x" for x k k1 k2 and s1 :: "('p, 'a) proxy_scheme"
    by (rule frozen_put_sess [where y = x]) (use that in simp_all)
  have sk: "post (world_ok g) (connect_socket env a k i s1)" if "frozen g (refs s) s1" for a k and s1 :: "('p, 'a) proxy_scheme"
    using err conn wat that Socket_calls_frozen(3) [of g "refs s" "ev_os env" a k s1]
    by (cases "Socket_connect (ev_os env) a k s1") (auto simp: connect_socket_def split: sum.splits bool.splits)
  show ?thesis unfolding connectUpstream_def
    by (intro post_intros; simp add: err sk put world_frozen [OF assms] Let_def case_prod_beta)
qed

lemma world_onRequest:
  assumes "world_ok g s"
  shows "post (world_ok g) (onRequest env i req s)"
proof -
  have hc: "post (world_ok g) (handleConnect env q i s1)" if "world_ok g s1" for q s1
    unfolding handleConnect_def
    by (intro post_bind [OF post_any] post_prod post_bind [OF post_upd [OF world_frozen [OF that]]] world_connectUpstream)
      (simp_all add: frozen_def)
  have put: "world_ok g (put_sess i y s)" if "px_sessions s i = Some x" "sess_refs y = sess_refs x" for x y
    using world_put_sess [OF assms that] .
  have fw: "post (world_ok g) (forwardRequest env i s1)" if "world_ok g s1" for s1
    using frozen_world [OF frozen_forwardRequest [OF world_frozen [OF that]]] .
  show ?thesis unfolding onRequest_def
    by (intro post_with_sess post_if post_Let hc fw world_connectUpstream put) simp_all
qed

lemma world_of_frozen: "(\<And>r. frozen g r s \<Longrightarrow> post (frozen g r) m) \<Longrightarrow> world_ok g s \<Longrightarrow> post (world_ok g) m"
  using frozen_world world_frozen by blast

lemma world_codec_callbacks:
  assumes "world_ok g s"
  shows "post (world_ok g) (onRequestBody env i body b s)" "post (world_ok g) (onResponse env i resp s)"
    "post (world_ok g) (onResponseBody env i body b s)" "post (world_ok g) (onResponseComplete i s)"
  using assms by (blast intro: world_of_frozen frozen_onRequestBody frozen_onResponse frozen_onResponseBody
      frozen_onResponseComplete)+

interpretation cl: codec_owner "client_callbacks env i :: ('p, 'a) proxy_scheme CodecCallbacks" "world_ok g" for g env i
  by unfold_locales (auto simp: client_callbacks_def intro: postD [OF world_onRequest] postD [OF world_codec_callbacks(1)])

interpretation up: codec_owner "upstream_callbacks env i :: ('p, 'a) proxy_scheme CodecCallbacks" "world_ok g" for g env i
  by unfold_locales (auto simp: upstream_callbacks_def intro: postD [OF world_codec_callbacks(2)]
      postD [OF world_codec_callbacks(3)] postD [OF world_codec_callbacks(4)])

interpretation no: codec_owner "no_callbacks :: ('p, 'a) proxy_scheme CodecCallbacks" "world_ok g" for g
  by unfold_locales (simp_all add: no_callbacks_def)

lemma world_decode:
  fixes s :: "('p, 'a) proxy_scheme"
  assumes wd: "world_ok g s"
  shows "post (\<lambda>v. world_ok g (snd v)) (decode_client env i d s)" "post (\<lambda>v. world_ok g (snd v)) (decode_upstream env i d s)"
proof -
  have put: "world_ok g (put_sess i y s)" if "px_sessions s i = Some x" "sess_refs y = sess_refs x" for x y
    using world_put_sess [OF wd that] .
  have post_dec: "post (\<lambda>v. world_ok g (snd (snd (fst v)))) (HttpCodec_decode_buffer ll (client_callbacks env i) d (c, s1))"
    "post (\<lambda>v. world_ok g (snd (snd (fst v)))) (HttpCodec_decode_buffer ll (upstream_callbacks env i) d (c, s1))"
    "post (\<lambda>v. world_ok g (snd (snd (fst v)))) (HttpCodec_decode_buffer ll no_callbacks d (c, s1))"
    if "world_ok g s1" for s1 :: "('p, 'a) proxy_scheme" and ll c
    using that by (auto intro!: postI dest: cl.decode_keeps up.decode_keeps no.decode_keeps)
  have fin: "post (\<lambda>v. world_ok g (snd v)) (rbind (upd_sess i u s1) (\<lambda>s. Inr (r, s)))"
    if "world_ok g s1" "\<And>x. sess_refs (u x) = sess_refs x" for u r and s1 :: "('p, 'a) proxy_scheme"
    by (intro post_bind [OF post_upd [OF world_frozen [OF that(1)] that(2)]] post_Inr) (simp add: frozen_def)
  show "post (\<lambda>v. world_ok g (snd v)) (decode_client env i d s)"
    unfolding decode_client_def
    by (intro post_with_sess post_option post_Inl post_bind [where P = "\<lambda>v. world_ok g (snd (snd (fst v)))"])
      (auto simp: post_dec put case_prod_beta fin)
  show "post (\<lambda>v. world_ok g (snd v)) (decode_upstream env i d s)"
    unfolding decode_upstream_def
    by (intro post_with_sess post_option post_Inl post_bind [where P = "\<lambda>v. world_ok g (snd (snd (fst v)))"])
      (auto simp: post_dec put case_prod_beta fin)
qed

lemma world_close: "world_ok g s \<Longrightarrow> post (world_ok g) (ProxySession_close i s)"
  by (rule world_of_frozen [OF frozen_ops(6)])

lemma world_sess_data:
  assumes "world_ok g s"
  shows "post (world_ok g) (sess_data env cb d s)"
proof -
  have res: "post (world_ok g) (case r of Inr u \<Rightarrow> Inr s1 | Inl e \<Rightarrow> ProxySession_close i s1)" if "world_ok g s1"
    for r :: "Error + unit" and s1 i using that by (auto intro: post_Inr world_close split: sum.splits)
  have wr: "post (world_ok g) (rbind (Connection_write os sess_error d c s) (\<lambda>(x, s). Inr s))" for os c
    by (intro post_bind [OF frozen_writes(1) [OF world_frozen [OF assms]]] post_prod post_Inr) (simp add: frozen_def)
  have wc: "post (world_ok g) (rbind (writeToClient env d i s) (\<lambda>(x, s). Inr s))" for i
    by (rule frozen_world [OF frozen_write_and_drop [OF world_frozen [OF assms]]])
  have bad: "post (world_ok g) (rbind (ProxySession_sendError env st re i s1) (ProxySession_close i))" if "world_ok g s1" for st re i s1
    by (intro post_bind [OF world_of_frozen [OF frozen_sendError that]] world_close)
  have "post (world_ok g) (onClientData env i d s)" for i
    unfolding onClientData_def
    by (intro post_with_sess) (auto simp: wr case_prod_beta split: bool.splits option.splits sum.splits
        intro!: post_bind [OF world_decode(1) [OF assms]] post_Inr bad)
  moreover have "post (world_ok g) (onUpstreamData env i d s)" for i
    unfolding onUpstreamData_def
    by (intro post_with_sess post_if wc post_bind [OF world_decode(2) [OF assms]] post_prod res)
  moreover have "post (world_ok g) (rbind (decode_client env i d s) (\<lambda>(r, s). case r of Inr u \<Rightarrow> Inr s | Inl e \<Rightarrow> ProxySession_close i s))"
      "post (world_ok g) (rbind (decode_upstream env i d s) (\<lambda>(r, s). case r of Inr u \<Rightarrow> Inr s | Inl e \<Rightarrow> ProxySession_close i s))" for i
    by (intro post_bind [OF world_decode(1) [OF assms]] post_bind [OF world_decode(2) [OF assms]] post_prod res; simp)+
  ultimately show ?thesis using assms by (cases cb) (simp_all add: post_Inr)
qed

lemma world_sess_call: "world_ok g s \<Longrightarrow> post (world_ok g) (sess_call env cb s)"
  by (cases cb) (simp_all add: world_close onClientClose_def onUpstreamClose_def world_hs_done post_Inr
      world_upstream_tls_done world_of_frozen [OF frozen_client_tls_done])

lemma world_sess_io:
  assumes "world_ok g s"
  shows "post (world_ok g) (sess_io env cb ev s)"
proof (cases cb)
  case (IoConnection c)
  then show ?thesis
    by (auto intro!: postI elim: wd.io_keeps [OF assms] dest: postD [OF world_sess_data] postD [OF world_sess_call])
next
  case (IoTls t)
  then show ?thesis
    by (auto intro!: postI elim: wd.handleIo_keeps [OF assms] dest: postD [OF world_sess_data] postD [OF world_sess_call])
next
  case (App q)
  then show ?thesis using assms by (cases q) (simp_all add: post_Inr world_onUpstreamConnected)
qed (use assms in \<open>simp_all add: post_Inr\<close>)

section \<open>New sessions\<close>

lemma world_new:
  fixes s :: "('p, 'a) proxy_scheme"
  assumes wd: "world_ok g s" and new: "ProxySession_new env k gen has s = (i, s')"
  shows "world_ok (surroundings s') s'" "dom (px_sessions s') = insert i (dom (px_sessions s))" "i = px_nextSession s"
    "outside s' = (Suc i, snd (outside s))" "\<exists>x c. px_sessions s' i = Some x \<and> ps_client x = Some c \<and> c \<in> dom (nw_conns s')"
proof -
  let ?s1 = "snd (Socket_setNonblocking (ev_os env) k s)"
  have s1: "nw_conns ?s1 = nw_conns s" "tn_conns ?s1 = tn_conns s" "nw_nextConn ?s1 = nw_nextConn s"
      "tn_nextTls ?s1 = tn_nextTls s" "px_nextSession ?s1 = px_nextSession s" "px_sessions ?s1 = px_sessions s"
      "outside ?s1 = outside s"
    by (auto simp: Socket_setNonblocking_def split: option.splits)
  let ?c = "nw_nextConn s"
  note eff = Connection_new_effect [of k ?s1]
  have s': "nw_conns s' = nw_conns (snd (Connection_new k ?s1))" "tn_conns s' = tn_conns s" "nw_nextConn s' = Suc ?c"
      "tn_nextTls s' = tn_nextTls s" "i = px_nextSession s" "px_nextSession s' = Suc i"
    using new s1 eff by (auto simp: ProxySession_new_def Let_def case_prod_beta put_sess_def)
  obtain x where x: "px_sessions s' = (px_sessions s)(i \<mapsto> x)" "sess_refs x = ((Some ?c, None), None, None)" "ps_client x = Some ?c"
    using new s1 eff by (auto simp: ProxySession_new_def Let_def case_prod_beta put_sess_def sess_refs_def)
  have fresh: "nw_conns s ?c = None" "px_sessions s i = None"
    using wd s'(5) by (auto simp: world_ok_def)
  have dom: "dom (nw_conns s') = insert ?c (dom (nw_conns s))" using s'(1) eff s1 by auto
  have refs: "refs s' = (refs s)(i \<mapsto> ((Some ?c, None), None, None))" using x by (auto simp: refs_def)
  have old: "refs_ok (refs s) (nw_conns s) (tn_conns s)" and bnd: "\<forall>c \<in> dom (nw_conns s). c < ?c"
      "\<forall>j \<in> dom (px_sessions s). j < i"
    using wd s'(5) by (simp_all add: world_ok_def)
  have cr: "conn_refs ((Some ?c, None), None, None) = {?c}" "tls_refs ((Some ?c, None), None, None) = {}"
    by (simp_all add: conn_refs_def tls_refs_def)
  have notin: "?c \<notin> conn_refs p" if "refs s j = Some p" for j p
    using old that fresh(1) unfolding refs_ok_def by blast
  have "refs_ok (refs s') (nw_conns s') (tn_conns s')"
    unfolding refs_ok_def refs
  proof (rule conjI; intro allI impI)
    fix j p assume "((refs s)(i \<mapsto> ((Some ?c, None), None, None))) j = Some p"
    then have "p = ((Some ?c, None), None, None) \<or> refs s j = Some p" by (auto split: if_splits)
    then show "conn_refs p \<subseteq> dom (nw_conns s') \<and> tls_refs p \<subseteq> dom (tn_conns s') \<and>
        (\<forall>c. fst (fst p) = Some c \<longrightarrow> snd (fst p) \<noteq> Some c) \<and> (\<forall>t. fst (snd p) = Some t \<longrightarrow> snd (snd p) \<noteq> Some t)"
    proof
      assume "refs s j = Some p"
      then show ?thesis using old dom s'(2) unfolding refs_ok_def by (metis subset_insertI2)
    qed (simp add: cr dom)
  next
    fix j l p q c
    assume a: "((refs s)(i \<mapsto> ((Some ?c, None), None, None))) j = Some p"
      "((refs s)(i \<mapsto> ((Some ?c, None), None, None))) l = Some q" "c \<in> conn_refs p" "c \<in> conn_refs q"
    have "j = i \<and> p = ((Some ?c, None), None, None) \<or> refs s j = Some p" "l = i \<and> q = ((Some ?c, None), None, None) \<or> refs s l = Some q"
      using a(1,2) by (auto split: if_splits)
    then show "j = l" using a(3,4) notin cr(1) old unfolding refs_ok_def by (metis singletonD)
  qed
  moreover have "cbs_ok (dom (px_sessions s')) (ran (nw_conns s')) conn_cbs"
  proof (rule cbs_ok_sub [of _ "nw_conns s"])
    show "cbs_ok (dom (px_sessions s')) (ran (nw_conns s)) conn_cbs"
      using wd x(1) unfolding world_ok_def cbs_ok_def by (metis dom_fun_upd option.discI subset_insertI2)
    show "nw_conns s' c = Some z \<Longrightarrow> nw_conns s c = Some z \<or> conn_cbs z = {}" for c z
      using s'(1) eff(1) s1 by (auto simp: conn_cbs_def split: if_splits)
  qed
  moreover have "cbs_ok (dom (px_sessions s')) (ran (tn_conns s')) tls_cbs"
    using wd x(1) s'(2) unfolding world_ok_def cbs_ok_def by (metis dom_fun_upd option.discI subset_insertI2)
  ultimately show "world_ok (surroundings s') s'"
    using bnd dom s' x(1) wd by (auto simp: world_ok_def less_Suc_eq)
  show "i = px_nextSession s" "dom (px_sessions s') = insert i (dom (px_sessions s))"
    "\<exists>x c. px_sessions s' i = Some x \<and> ps_client x = Some c \<and> c \<in> dom (nw_conns s')"
    using x dom s' by auto
  show "outside s' = (Suc i, snd (outside s))"
    using new s1(7) by (auto simp: ProxySession_new_def Let_def case_prod_beta put_sess_def Connection_new_def put_conn_def outside_def)
qed

lemma world_start:
  assumes "world_ok g s"
  shows "post (world_ok g) (ProxySession_start i s)"
  unfolding ProxySession_start_def
  by (intro post_with_sess post_deref post_bind [OF frozen_install(1) [OF world_frozen [OF assms]]] post_bind [OF frozen_install(2)]
      post_bind [OF frozen_install(3)] post_bind [OF post_upd] frozen_world [OF frozen_ops(1)])
    (simp_all, (use session_in_refs [OF world_frozen [OF assms]] in blast)+)

end
