(* ===== verification/Codec_Trace.thy ===== *)
theory Codec_Trace
  imports Http1_Codec
begin

text \<open>
  What a response codec tells its owner, as a list: the heads, the body pieces and the ends of messages,
  computed from the callbacks of the parser alone. The codec is thereby split into a machine of its own
  and the calls it makes, so that the two can be followed separately over many pieces of input.
\<close>

datatype codec_out = OutResponse HttpResponse | OutBody "byte list" | OutEnd

fun response_step :: "ll_view \<times> ll_callback \<Rightarrow> 'p Http1Codec \<Rightarrow> 'p Http1Codec \<times> codec_out list" where
  "response_step (v, LlMessageBegin) c = (Codec_onMessageBegin c, [])"
| "response_step (v, LlUrl u) c = (Codec_onUrl u c, [])"
| "response_step (v, LlStatus t) c = (Codec_onStatus t c, [])"
| "response_step (v, LlHeaderField t) c = (Codec_onHeaderField v t c, [])"
| "response_step (v, LlHeaderValue t) c = (Codec_onHeaderValue t c, [])"
| "response_step (v, LlHeadersComplete) c =
     (let c1 = finishHeader v c; resp = complete_response v (cd_currentResponse c1)
      in (c1\<lparr>cd_buildingRequest := False, cd_currentResponse := resp\<rparr>, [OutResponse resp]))"
| "response_step (v, LlBody bs) c = (c, [OutBody bs])"
| "response_step (v, LlMessageComplete) c = (c, [OutEnd])"

fun response_steps :: "(ll_view \<times> ll_callback) list \<Rightarrow> 'p Http1Codec \<Rightarrow> 'p Http1Codec \<times> codec_out list" where
  "response_steps [] c = (c, [])"
| "response_steps (e # es) c =
     (let (c1, outs1) = response_step e c; (c2, outs2) = response_steps es c1 in (c2, outs1 @ outs2))"

text \<open>The calls the owner gets for them.\<close>

fun tell :: "'s CodecCallbacks \<Rightarrow> codec_out \<Rightarrow> 's \<Rightarrow> fault + 's" where
  "tell cbs (OutResponse r) s = (case cb_onResponse cbs of None \<Rightarrow> Inr s | Some f \<Rightarrow> f r s)"
| "tell cbs (OutBody b) s =
     (case cb_onBody cbs of None \<Rightarrow> Inr s | Some f \<Rightarrow> rbind (Buffer_add b Buffer_new) (\<lambda>buf. f buf False s))"
| "tell cbs OutEnd s = deliver_end cbs s"

fun tell_all :: "'s CodecCallbacks \<Rightarrow> codec_out list \<Rightarrow> 's \<Rightarrow> fault + 's" where
  "tell_all cbs [] s = Inr s"
| "tell_all cbs (x # xs) s = rbind (tell cbs x s) (tell_all cbs xs)"

lemma tell_all_append: "tell_all cbs (xs @ ys) s = rbind (tell_all cbs xs s) (tell_all cbs ys)"
proof (induction xs arbitrary: s)
  case (Cons x xs)
  then have "tell_all cbs (xs @ ys) = (\<lambda>s. rbind (tell_all cbs xs s) (tell_all cbs ys))" by (intro ext)
  then show ?case by (simp add: rbind_assoc)
qed simp

lemma codec_settings_tell:
  assumes "ll_type (fst e) \<noteq> HTTP_REQUEST"
  shows "codec_settings cbs e (c, s) = rbind (tell_all cbs (snd (response_step e c)) s) (\<lambda>s. Inr (fst (response_step e c), s))"
proof (cases e)
  case (Pair v k)
  then show ?thesis using assms
    by (cases k) (auto simp: Codec_onHeadersComplete_def Codec_onBody_def Codec_onMessageComplete_def deliver_end_def
        Let_def rbind_assoc split: option.splits)
qed

lemma run_callbacks_tell:
  assumes "list_all (\<lambda>e. ll_type (fst e) \<noteq> HTTP_REQUEST) es"
  shows "run_callbacks cbs es (c, s) = rbind (tell_all cbs (snd (response_steps es c)) s) (\<lambda>s. Inr (fst (response_steps es c), s))"
  using assms
proof (induction es arbitrary: c s)
  case (Cons e es)
  then have e: "ll_type (fst e) \<noteq> HTTP_REQUEST" and es: "list_all (\<lambda>e. ll_type (fst e) \<noteq> HTTP_REQUEST) es" by simp_all
  show ?case
    using Cons.IH [OF es, of "fst (response_step e c)"]
    by (simp add: codec_settings_tell [OF e] case_prod_beta tell_all_append rbind_assoc)
qed simp

text \<open>A recorder of the calls: an owner whose state is the list of what it was told.\<close>

definition recorder :: "(codec_out list) CodecCallbacks" where
  "recorder = \<lparr>cb_onRequest = None, cb_onResponse = Some (\<lambda>r s. Inr (s @ [OutResponse r])),
     cb_onBody = Some (\<lambda>b fin s. Inr (if fin then s else s @ [OutBody (Buffer_linearize b)])),
     cb_onMessageComplete = Some (\<lambda>s. Inr (s @ [OutEnd]))\<rparr>"

lemma add_new: "\<exists>b. Buffer_add bs Buffer_new = Inr b \<and> write_queue b \<and> Buffer_linearize b = bs"
  using wq.add_ok [OF Buffer_new_write_queue, of bs] by (auto simp: Buffer_new_def Buffer_linearize_def)

lemma tell_recorder: "tell recorder x s = Inr (s @ [x])"
proof (cases x)
  case (OutBody b)
  then show ?thesis using add_new [of b] by (auto simp: recorder_def)
qed (simp_all add: recorder_def deliver_end_def)

lemma tell_all_recorder: "tell_all recorder xs s = Inr (s @ xs)"
  by (induction xs arbitrary: s) (simp_all add: tell_recorder)

text \<open>One whole response, however the parser cuts it into pieces, is told as head, body pieces, end.\<close>

lemma response_told:
  assumes v: "ll_type v = HTTP_RESPONSE" and "list_all header_ok hs"
  shows "snd (response_steps (response_events v reasons hs chunks) c) =
    OutResponse (complete_response v (response_head reasons hs)) # map OutBody chunks @ [OutEnd]"
proof -
  let ?es = "response_events v reasons hs chunks"
  have chunks: "deliver_chunks recorder bs s = Inr (s @ map OutBody bs)" for bs s
    using tell_recorder [of "OutBody _"] by (induction bs arbitrary: s) simp_all
  have types: "list_all (\<lambda>e. ll_type (fst e) \<noteq> HTTP_REQUEST) ?es"
    using v by (auto simp: response_events_def header_events_def body_events_def list_all_iff)
  have "Inr (snd (response_steps ?es c)) = owner_state (run_callbacks recorder ?es (c, []))"
    by (simp add: run_callbacks_tell [OF types] tell_all_recorder owner_state_def)
  also have "\<dots> = Inr (OutResponse (complete_response v (response_head reasons hs)) # map OutBody chunks @ [OutEnd])"
    using tell_recorder [of OutEnd] by (simp add: response_delivered [OF assms] deliver_response_def chunks) (simp add: recorder_def)
  finally show ?thesis by simp
qed

end
