(* ===== verification/Session_Relay.thy ===== *)
theory Session_Relay
  imports Session_Behaviour Codec_Trace
begin

text \<open>
  What a session that parses HTTP passes on: a request to the upstream connection, the response of the
  upstream to the client, whatever the sizes of the pieces that are read and the order of events; and how
  the end of a response is signalled, by closing the client connection. The steps are those of Proxy_Session.
\<close>

section \<open>Forwarding a request\<close>

lemma setupUpstreamCallbacks_eq:
  assumes "px_sessions s i = Some x" and "ps_upstream x = Some u" and "nw_conns s u = Some y"
  shows "\<exists>y'. setupUpstreamCallbacks i s = Inr (put_conn u y' s) \<and> co_closed y' = co_closed y \<and> co_socket y' = co_socket y \<and>
    co_writeBuf y' = co_writeBuf y"
  using assms by (intro exI [of _ "y\<lparr>co_onData := Some (ScUpstreamData i), co_onClose := Some (ScUpstreamClose i),
        co_onError := Some (ScUpstreamError i)\<rparr>"])
    (simp add: setupUpstreamCallbacks_def with_sess_def Connection_onData_def Connection_onClose_def
      Connection_onError_def with_conn_def put_conn_def)

lemma startRead_sessions: "Connection_startRead c s = Inr s' \<Longrightarrow> px_sessions s' = px_sessions s"
  by (auto simp: Connection_startRead_def Connection_updateEvents_def res_iff Let_def split: if_splits)

lemma writeToUpstream_call:
  assumes "px_sessions s i = Some x" and "\<not> ps_isTlsMitm x" and "ps_upstream x = Some u" and "nw_conns s u = Some y"
  shows "rbind (writeToUpstream env d i s) (\<lambda>(r, s). Inr s) = conn_call (ev_os env) sess_error u (WriteBuffer d) s"
  using assms by (auto simp: writeToUpstream_def with_sess_def Connection_connected_def with_conn_def Connection_write_def)

lemma write_pendingBody_ok:
  fixes s :: "('p, 'a) proxy_scheme"
  assumes "send_ok (ev_os env)" and ok: "steady g (\<lambda>x. \<not> ps_isTlsMitm x \<and> ps_upstream x = Some u \<and> ps_pendingBody x = b) i s"
    and "write_queue b" and st: "streams u h D s"
  shows "\<exists>s'. write_pendingBody env i s = Inr s' \<and> streams u h (D @ Buffer_linearize b) s'"
proof -
  obtain x where x: "px_sessions s i = Some x" "\<not> ps_isTlsMitm x" "ps_upstream x = Some u" "ps_pendingBody x = b"
    using ok by (auto simp: steady_def session_has_def closed_session_def)
  obtain y where y: "nw_conns s u = Some y" using st by (auto simp: streams_def)
  obtain s1 where s1: "conn_call (ev_os env) sess_error u (WriteBuffer b) s = Inr s1"
      "steady g (\<lambda>x. \<not> ps_isTlsMitm x \<and> ps_upstream x = Some u \<and> ps_pendingBody x = b) i s1"
      "streams u h (D @ Buffer_linearize b) s1"
    using st.conn_call_ok [OF ok st assms(1), of "WriteBuffer b"] assms(3) by auto
  obtain r where r: "writeToUpstream env b i s = Inr (r, s1)"
    using writeToUpstream_call [OF x(1-3) y, of env b] s1(1) by (auto simp: res_iff simp del: conn_call.simps)
  obtain x1 where x1: "px_sessions s1 i = Some x1" using s1(2) by (auto simp: steady_def session_has_def)
  then show ?thesis using x r s1(3) by (simp add: write_pendingBody_def with_sess_def upd_sess_def streams_def)
qed



section \<open>Relaying a response\<close>

text \<open>
  A session that parses HTTP for the client connection \<open>c\<close>, with the codec \<open>k\<close> of the upstream side
  (\<open>None\<close> while it is decoding).
\<close>

definition relaying :: "nat \<Rightarrow> 'p Http1Codec option \<Rightarrow> 'p ProxySession \<Rightarrow> bool" where
  "relaying c k x \<longleftrightarrow> \<not> ps_isTunnel x \<and> \<not> ps_isTlsMitm x \<and> ps_client x = Some c \<and> ps_upstreamCallbacks x \<and>
     ps_upstreamCodec x = k \<and> buffer_wf (ps_responseBody x)"

abbreviation relay_ok :: "'a surroundings \<Rightarrow> nat \<Rightarrow> nat \<Rightarrow> 'p Http1Codec option \<Rightarrow> ('p, 'a) proxy_scheme \<Rightarrow> bool" where
  "relay_ok g i c k \<equiv> steady g (relaying c k) i"

lemma relaying_closed [simp]: "relaying c k (closed_session x) = relaying c k x"
  by (simp add: relaying_def closed_session_def)

lemma relay_okD:
  assumes "relay_ok g i c k s" obtains x where "px_sessions s i = Some x" "relaying c k x"
  using assms by (auto simp: steady_def session_has_def)

lemma relay_ok_put:
  assumes "relay_ok g i c k s" and "px_sessions s i = Some x" and "sess_refs y = sess_refs x" and "relaying c k' y"
  shows "relay_ok g i c k' (put_sess i y s)"
  using world_put_sess [of g s i x y] assms by (simp add: steady_def session_has_def)

text \<open>The bytes the client gets for what the codec tells.\<close>

fun out_bytes :: "codec_out \<Rightarrow> byte list" where
  "out_bytes (OutResponse r) = bytes_of_string (response_head_string (strip_framing False r))"
| "out_bytes (OutBody b) = b"
| "out_bytes OutEnd = []"

text \<open>Neither the session nor its client connection is closed; and no bytes wait to be sent.\<close>

definition open_to :: "nat \<Rightarrow> nat \<Rightarrow> ('p, 'a) proxy_scheme \<Rightarrow> bool" where
  "open_to i c s \<longleftrightarrow> (\<exists>x y. px_sessions s i = Some x \<and> \<not> ps_closed x \<and> nw_conns s c = Some y \<and> \<not> co_closed y)"

definition drained_to :: "nat \<Rightarrow> nat \<Rightarrow> ('p, 'a) proxy_scheme \<Rightarrow> bool" where
  "drained_to i c s \<longleftrightarrow> open_to i c s \<and> (\<forall>y. nw_conns s c = Some y \<longrightarrow> Buffer_empty (co_writeBuf y))"

interpretation same: conn_invariant "\<lambda>s :: ('p, 'a) proxy_scheme. px_sessions s = X" for X
  by unfold_locales simp_all

lemma writeToClient_call:
  assumes "px_sessions s i = Some x" and "\<not> ps_isTlsMitm x" and "ps_client x = Some c" and "nw_conns s c = Some y"
  shows "rbind (writeToClient env d i s) (\<lambda>(r, s). Inr s) = conn_call (ev_os env) sess_error c (WriteBuffer d) s"
  using assms by (auto simp: writeToClient_def with_sess_def Connection_connected_def with_conn_def Connection_write_def)

lemma client_write:
  fixes s :: "('p, 'a) proxy_scheme"
  assumes send: "send_ok (ev_os env)" and ok: "relay_ok g i c k s" and st: "streams c f B s" and d: "write_queue d"
  shows "\<exists>r s'. writeToClient env d i s = Inr (r, s') \<and> relay_ok g i c k s' \<and> streams c f (B @ Buffer_linearize d) s' \<and>
    (send_progress (ev_os env) \<longrightarrow> open_to i c s \<longrightarrow> drained_to i c s')"
proof -
  obtain x where x: "px_sessions s i = Some x" "relaying c k x" using ok by (rule relay_okD)
  obtain y where y: "nw_conns s c = Some y" using st by (auto simp: streams_def)
  obtain s1 where s1: "conn_call (ev_os env) sess_error c (WriteBuffer d) s = Inr s1" "relay_ok g i c k s1"
      "streams c f (B @ Buffer_linearize d) s1"
    using st.conn_call_ok [OF ok st send, of "WriteBuffer d"] d by auto
  have "drained_to i c s1" if p: "send_progress (ev_os env)" and o: "open_to i c s"
  proof -
    have y': "\<not> co_closed y" "write_queue (co_writeBuf y)" using o y st by (auto simp: open_to_def streams_def)
    show ?thesis using same.write_progress [OF refl y y' d send p, of sess_error] s1(1) o x y
      by (auto simp: drained_to_def open_to_def simp del: conn_call.simps)
  qed
  moreover obtain r where "writeToClient env d i s = Inr (r, s1)"
    using writeToClient_call [OF x(1) _ _ y, of env d] x(2) s1(1) by (auto simp: relaying_def res_iff simp del: conn_call.simps)
  ultimately show ?thesis using s1 by blast
qed

lemma sess_frame [simp]:
  "streams c f B (put_sess i y s) = streams c f B s" "nw_conns (put_sess i y s) = nw_conns s"
  by (simp_all add: streams_def)

lemma inspect_body_wf: "buffer_wf acc \<Longrightarrow> \<exists>acc'. inspect_body insp b acc = Inr acc' \<and> buffer_wf acc'"
  using inspect_body_ok [of acc b] by (cases insp; cases "Buffer_length acc < kMaxInspectBytes") (auto simp: inspect_body_def)

lemma onResponseBody_ok:
  fixes s :: "('p, 'a) proxy_scheme"
  assumes send: "send_ok (ev_os env)" and ok: "relay_ok g i c k s" and st: "streams c f B s" and b: "write_queue b"
  shows "\<exists>s'. onResponseBody env i b e s = Inr s' \<and> relay_ok g i c k s' \<and> streams c f (B @ Buffer_linearize b) s' \<and>
    (send_progress (ev_os env) \<longrightarrow> drained_to i c s \<longrightarrow> drained_to i c s') \<and> (Buffer_empty b \<longrightarrow> pf_calls s' = pf_calls s \<and>
       (open_to i c s \<longrightarrow> open_to i c s'))"
proof -
  obtain x where x: "px_sessions s i = Some x" "relaying c k x" using ok by (rule relay_okD)
  obtain acc where acc: "inspect_body (ps_payloadInspector x) b (ps_responseBody x) = Inr acc" "buffer_wf acc"
    using inspect_body_wf x(2) unfolding relaying_def by blast
  let ?s = "put_sess i (x\<lparr>ps_responseBody := acc\<rparr>) s"
  have ok1: "relay_ok g i c k ?s" by (rule relay_ok_put [OF ok x(1)]) (use x(2) acc in \<open>simp_all add: sess_refs_def relaying_def\<close>)
  have st1: "streams c f B ?s" using st by simp
  have o: "open_to i c ?s = open_to i c s" "drained_to i c ?s = drained_to i c s" using x(1) by (simp_all add: open_to_def drained_to_def)
  have "Buffer_empty b \<Longrightarrow> Buffer_linearize b = []" using b by (simp add: Buffer_empty_iff write_queue_def)
  then show ?thesis using client_write [OF send ok1 st1 b] ok1 st1 x acc o
    by (cases "Buffer_empty b") (auto simp: onResponseBody_def with_sess_def upd_sess_def drained_to_def)
qed

lemma onResponse_ok:
  fixes s :: "('p, 'a) proxy_scheme"
  assumes send: "send_ok (ev_os env)" and ok: "relay_ok g i c k s" and st: "streams c f B s"
  shows "\<exists>s'. onResponse env i r s = Inr s' \<and> relay_ok g i c k s' \<and> streams c f (B @ out_bytes (OutResponse r)) s' \<and>
    (send_progress (ev_os env) \<longrightarrow> open_to i c s \<longrightarrow> drained_to i c s')"
proof -
  obtain x where x: "px_sessions s i = Some x" "relaying c k x" using ok by (rule relay_okD)
  obtain out where out: "encodeResponse (strip_framing False r) Buffer_new = Inr out" "write_queue out"
      "Buffer_linearize out = out_bytes (OutResponse r)"
    using encodeResponse_ok [OF Buffer_new_write_queue, of "strip_framing False r"] by (auto simp: Buffer_linearize_def Buffer_new_def)
  show ?thesis using client_write [OF send ok st out(2)] x out(1,3)
    by (auto simp: onResponse_def with_sess_def relaying_def)
qed

text \<open>The end of a response closes the session; nothing more is sent.\<close>

lemma closing_conn: "closing (conn_refs p) T F s s' \<Longrightarrow> fst (fst p) = Some c \<Longrightarrow> conn_closed c s'"
  by (auto simp: closing_def conn_refs_def)

lemma sent_on_inspect [simp]: "sent_on f [CInspect bs url] = []"
  by (simp add: sent_on_def)

lemma sent_on_shutdown [simp]: "sent_on f [CSslShutdown k, CClose g] = []"
  by (simp add: sent_on_def)

lemma close_sent:
  assumes "ProxySession_close i s = Inr s'" shows "sent_on f (pf_calls s') = sent_on f (pf_calls s)"
proof -
  obtain x where x: "px_sessions s i = Some x" using assms by (auto simp: ProxySession_close_def res_iff)
  have conn: "sent_on f (pf_calls t') = sent_on f (pf_calls t)" if "if_set p Connection_close t = Inr t'" for p t t'
    using that by (cases p) (auto simp: Connection_close_def res_iff Socket_close_def Let_def split: if_splits)
  have tls: "sent_on f (pf_calls t') = sent_on f (pf_calls t)" if "if_set p TlsConnection_close t = Inr t'" for p t t'
    using that by (cases p) (auto simp: TlsConnection_close_def res_iff Socket_close_def Let_def split: if_splits)
  show ?thesis using assms ProxySession_close_cases [OF x]
    by (auto simp: res_iff Let_def conn tls split: if_splits)
qed

lemma onResponseComplete_ok:
  fixes s :: "('p, 'a) proxy_scheme"
  assumes ok: "relay_ok g i c k s"
  shows "\<exists>s'. onResponseComplete i s = Inr s' \<and> relay_ok g i c k s' \<and> (\<forall>B. streams c f B s \<longrightarrow> streams c f B s') \<and>
    sent_on f (pf_calls s') = sent_on f (pf_calls s) \<and> (open_to i c s \<longrightarrow> conn_closed c s')"
proof -
  obtain x where x: "px_sessions s i = Some x" "relaying c k x" using ok by (rule relay_okD)
  let ?x = "x\<lparr>ps_pendingBody := Buffer_new, ps_responseBody := Buffer_new\<rparr>"
  define s1 where "s1 = put_sess i ?x (if ps_payloadInspector x \<and> \<not> Buffer_empty (ps_responseBody x)
      then sys (CInspect (Buffer_linearize (ps_responseBody x)) (rq_url (ps_currentRequest x))) s else s)"
  have "relay_ok g i c k (put_sess i ?x t)" if "relay_ok g i c k t" "px_sessions t i = Some x" for t :: "('p, 'a) proxy_scheme"
    by (rule relay_ok_put [OF that]) (use x(2) in \<open>simp_all add: sess_refs_def relaying_def\<close>)
  moreover have "relay_ok g i c k (sys (CInspect bs url) s)" for bs url using ok by (rule st.inv_sys)
  ultimately have ok1: "relay_ok g i c k s1" using ok x(1) by (simp add: s1_def)
  have x1: "px_sessions s1 i = Some ?x" by (simp add: s1_def)
  have st1: "streams c f B s \<Longrightarrow> streams c f B s1" for B by (simp add: s1_def streams_sys)
  have wd: "world_ok g s1" using ok1 by (simp add: steady_def)
  have "i \<in> dom (px_sessions s1)" using x1 by auto
  then obtain s2 where s2: "ProxySession_close i s1 = Inr s2"
    using close_total [OF world_frozen [OF wd]] by blast
  have ok2: "relay_ok g i c k s2"
    using close_session_has [OF wd s2] postD [OF world_close [OF wd] s2] ok1 by (simp add: steady_def)
  have "conn_closed c s2" if "open_to i c s"
  proof -
    have "\<not> ps_closed ?x" using that x(1) by (auto simp: open_to_def)
    from close_ok [OF wd x1 this] s2 show ?thesis using x(2)
      by (auto intro!: closing_conn simp: sess_refs_def relaying_def)
  qed
  moreover have "onResponseComplete i s = Inr s2"
    using x s2 by (simp add: onResponseComplete_def with_sess_def relaying_def s1_def Let_def)
  moreover have "sent_on f (pf_calls s2) = sent_on f (pf_calls s)" using close_sent [OF s2, of f] by (simp add: s1_def)
  ultimately show ?thesis using ok2 close_streams [OF s2] st1 by blast
qed

lemma tell_ok:
  fixes s :: "('p, 'a) proxy_scheme"
  assumes send: "send_ok (ev_os env)" and ok: "relay_ok g i c k s" and st: "streams c f B s"
  shows "\<exists>s'. tell (upstream_callbacks env i) z s = Inr s' \<and> relay_ok g i c k s' \<and> streams c f (B @ out_bytes z) s' \<and>
    (send_progress (ev_os env) \<longrightarrow> (case z of
       OutResponse r \<Rightarrow> open_to i c s \<longrightarrow> drained_to i c s'
     | OutBody b \<Rightarrow> drained_to i c s \<longrightarrow> drained_to i c s'
     | OutEnd \<Rightarrow> open_to i c s \<longrightarrow> conn_closed c s' \<and> sent_on f (pf_calls s') = sent_on f (pf_calls s)))"
proof (cases z)
  case (OutResponse r)
  then show ?thesis using onResponse_ok [OF assms, of r] by (simp add: upstream_callbacks_def)
next
  case (OutBody b)
  obtain buf where buf: "Buffer_add b Buffer_new = Inr buf" "write_queue buf" "Buffer_linearize buf = b"
    using add_new by blast
  then show ?thesis using onResponseBody_ok [OF assms buf(2), of False] OutBody
    by (auto simp: upstream_callbacks_def)
next
  case OutEnd
  obtain s1 where s1: "onResponseBody env i Buffer_new True s = Inr s1" "relay_ok g i c k s1" "streams c f B s1"
      "open_to i c s \<longrightarrow> open_to i c s1" "pf_calls s1 = pf_calls s"
    using onResponseBody_ok [OF assms Buffer_new_write_queue, of True] by (auto simp: Buffer_empty_def Buffer_new_def Buffer_linearize_def)
  then show ?thesis using onResponseComplete_ok [OF s1(2), of f] OutEnd
    by (auto simp: upstream_callbacks_def deliver_end_def)
qed

text \<open>
  Data of the upstream and moments at which the client can take more bytes, with the handlers of the two; and
  what the parser reports, and hence what the codec tells, of a sequence of such events.
\<close>

datatype relay_event = RelayData buffer | RelayReady

fun run_events ::
  "(buffer \<Rightarrow> 's \<Rightarrow> fault + 's) \<Rightarrow> ('s \<Rightarrow> fault + 's) \<Rightarrow> relay_event list \<Rightarrow> 's \<Rightarrow> fault + 's" where
  "run_events data ready [] s = Inr s"
| "run_events data ready (RelayData d # evs) s = rbind (data d s) (run_events data ready evs)"
| "run_events data ready (RelayReady # evs) s = rbind (ready s) (run_events data ready evs)"

abbreviation relay_steps :: "'p env \<Rightarrow> nat \<Rightarrow> nat \<Rightarrow> relay_event list \<Rightarrow> ('p, 'a) proxy_scheme \<Rightarrow> fault + ('p, 'a) proxy_scheme" where
  "relay_steps env i c \<equiv> run_events (onUpstreamData env i) (Connection_handleWrite (ev_os env) sess_error c)"

fun parsed :: "'p llhttp \<Rightarrow> 'p \<Rightarrow> relay_event list \<Rightarrow> (ll_view \<times> ll_callback) list" where
  "parsed ll p [] = []"
| "parsed ll p (RelayReady # evs) = parsed ll p evs"
| "parsed ll p (RelayData d # evs) = (case ll_execute ll p (Buffer_linearize d) of (p', es, err) \<Rightarrow> es @ parsed ll p' evs)"

definition told :: "'p llhttp \<Rightarrow> 'p Http1Codec \<Rightarrow> relay_event list \<Rightarrow> codec_out list" where
  "told ll cd evs = snd (response_steps (parsed ll (cd_parser cd) evs) cd)"

fun relay_event_ok :: "relay_event \<Rightarrow> bool" where
  "relay_event_ok (RelayData d) = write_queue d"
| "relay_event_ok RelayReady = True"

text \<open>A parser for responses never reports a request.\<close>

definition parses_responses :: "'p llhttp \<Rightarrow> bool" where
  "parses_responses ll \<longleftrightarrow> (\<forall>p d. list_all (\<lambda>e. ll_type (fst e) \<noteq> HTTP_REQUEST) (fst (snd (ll_execute ll p d))))"

text \<open>The callbacks of the codec neither read nor change the parser.\<close>

lemma response_step_parser:
  "response_step e (c\<lparr>cd_parser := p\<rparr>) = map_prod (\<lambda>c. c\<lparr>cd_parser := p\<rparr>) id (response_step e c)"
  "cd_parser (fst (response_step e c)) = cd_parser c"
  by (cases e; cases "snd e"; simp add: codec_defs Let_def split: if_splits)+

lemma response_steps_parser:
  "response_steps es (c\<lparr>cd_parser := p\<rparr>) = map_prod (\<lambda>c. c\<lparr>cd_parser := p\<rparr>) id (response_steps es c) \<and>
   cd_parser (fst (response_steps es c)) = cd_parser c"
  by (induction es arbitrary: c) (simp_all add: response_step_parser case_prod_beta)

lemma response_steps_append:
  "response_steps (es @ fs) c = (fst (response_steps fs (fst (response_steps es c))),
     snd (response_steps es c) @ snd (response_steps fs (fst (response_steps es c))))"
  by (induction es arbitrary: c) (simp_all add: case_prod_beta)

lemma told_simps:
  "told ll cd [] = []" "told ll cd (RelayReady # evs) = told ll cd evs"
  "ll_execute ll (cd_parser cd) (Buffer_linearize d) = (p', es, err) \<Longrightarrow>
     response_steps es (cd\<lparr>cd_parser := p'\<rparr>) = (cd', zs) \<Longrightarrow> told ll cd (RelayData d # evs) = zs @ told ll cd' evs"
proof -
  show "told ll cd [] = []" "told ll cd (RelayReady # evs) = told ll cd evs" by (simp_all add: told_def)
  assume run: "ll_execute ll (cd_parser cd) (Buffer_linearize d) = (p', es, err)" and cd': "response_steps es (cd\<lparr>cd_parser := p'\<rparr>) = (cd', zs)"
  have c: "cd' = (fst (response_steps es cd))\<lparr>cd_parser := p'\<rparr>" "zs = snd (response_steps es cd)"
    using cd' response_steps_parser [where es = es and c = cd and p = p'] by (auto simp: map_prod_def case_prod_beta)
  show "told ll cd (RelayData d # evs) = zs @ told ll cd' evs"
    using response_steps_parser [where es = "parsed ll p' evs" and c = "fst (response_steps es cd)" and p = p']
    by (simp add: told_def run response_steps_append c)
qed
text \<open>
  Decoding splits into the codec, the calls it makes, and the end, which closes the session after an
  error of the parser.
\<close>

abbreviation upstream_data :: "'p env \<Rightarrow> nat \<Rightarrow> buffer \<Rightarrow> ('p, 'a) proxy_scheme \<Rightarrow> fault + ('p, 'a) proxy_scheme" where
  "upstream_data env i d s \<equiv> rbind (decode_upstream env i d s)
     (\<lambda>(r, s). case r of Inr _ \<Rightarrow> Inr s | Inl e \<Rightarrow> ProxySession_close i s)"

lemma upstream_data_eq:
  fixes s :: "('p, 'a) proxy_scheme"
  assumes x: "px_sessions s i = Some x" "ps_upstreamCodec x = Some cd" "ps_upstreamCallbacks x"
    and d: "write_queue d" and "parses_responses (ev_ll env)"
    and run: "ll_execute (ev_ll env) (cd_parser cd) (Buffer_linearize d) = (p', es, err)"
    and cd': "response_steps es (cd\<lparr>cd_parser := p'\<rparr>) = (cd', zs)"
  shows "upstream_data env i d s =
    rbind (tell_all (upstream_callbacks env i) zs (put_sess i (x\<lparr>ps_upstreamCodec := None\<rparr>) s)) (\<lambda>s.
    rbind (upd_sess i (\<lambda>x. x\<lparr>ps_upstreamCodec := Some cd'\<rparr>) s) (\<lambda>s.
    case err of HPE_OTHER a b \<Rightarrow> ProxySession_close i s | _ \<Rightarrow> Inr s))"
proof -
  have "list_all (\<lambda>e. ll_type (fst e) \<noteq> HTTP_REQUEST) (fst (snd (ll_execute (ev_ll env) (cd_parser cd) (Buffer_linearize d))))"
    using assms(5) unfolding parses_responses_def by blast
  then have es: "list_all (\<lambda>e. ll_type (fst e) \<noteq> HTTP_REQUEST) es" by (simp add: run)
  obtain b where b: "Buffer_drain (Buffer_length d) d = Inr b" using wq.drain_ok [OF d] by blast
  show ?thesis using x
    by (cases err) (simp_all add: with_sess_def decode_upstream_def HttpCodec_decode_buffer_def
        Http1Codec_decode_def run run_callbacks_tell [OF es] cd' b rbind_assoc Let_def)
qed

text \<open>
  What relaying asks of a session and its client connection: \<open>ok k\<close>, the session stands with the codec \<open>k\<close>,
  and \<open>gets B\<close>, the client has been sent the bytes \<open>B\<close>, are kept by what the codec tells, which adds
  the bytes \<open>out\<close> makes of it, by the end of the session, and when the client takes bytes.
\<close>

locale response_client =
  fixes env :: "'p env" and i :: nat and out :: "codec_out \<Rightarrow> byte list"
    and ok :: "'p Http1Codec option \<Rightarrow> ('p, 'a) proxy_scheme \<Rightarrow> bool" and gets :: "byte list \<Rightarrow> ('p, 'a) proxy_scheme \<Rightarrow> bool"
    and data :: "buffer \<Rightarrow> ('p, 'a) proxy_scheme \<Rightarrow> fault + ('p, 'a) proxy_scheme"
    and ready :: "('p, 'a) proxy_scheme \<Rightarrow> fault + ('p, 'a) proxy_scheme"
  assumes codec: "ok k s \<Longrightarrow> \<exists>x. px_sessions s i = Some x \<and> ps_upstreamCodec x = k \<and> ps_upstreamCallbacks x"
    and put_codec: "ok k s \<Longrightarrow> px_sessions s i = Some x \<Longrightarrow> ok k' (put_sess i (x\<lparr>ps_upstreamCodec := k'\<rparr>) s)"
    and gets_put: "gets B s \<Longrightarrow> gets B (put_sess i x s)"
    and tells: "ok k s \<Longrightarrow> gets B s \<Longrightarrow>
      \<exists>s'. tell (upstream_callbacks env i) z s = Inr s' \<and> ok k s' \<and> gets (B @ out z) s'"
    and closes: "ok k s \<Longrightarrow> gets B s \<Longrightarrow> \<exists>s'. ProxySession_close i s = Inr s' \<and> ok k s' \<and> gets B s'"
    and data_eq: "ok k s \<Longrightarrow> data d s = upstream_data env i d s"
    and ready_ok: "ok k s \<Longrightarrow> gets B s \<Longrightarrow> \<exists>s'. ready s = Inr s' \<and> ok k s' \<and> gets B s'"
begin

lemma tell_all_gets:
  "ok k s \<Longrightarrow> gets B s \<Longrightarrow> \<exists>s'. tell_all (upstream_callbacks env i) zs s = Inr s' \<and> ok k s' \<and>
    gets (B @ concat (map out zs)) s'"
proof (induction zs arbitrary: s B)
  case (Cons z zs)
  obtain s1 where s1: "tell (upstream_callbacks env i) z s = Inr s1" "ok k s1" "gets (B @ out z) s1"
    using tells [OF Cons.prems, of z] by blast
  then show ?case using Cons.IH [OF s1(2,3)] by simp
qed simp

lemma data_gets:
  assumes k: "ok (Some cd) s" and st: "gets B s" and d: "write_queue d" and ps: "parses_responses (ev_ll env)"
    and run: "ll_execute (ev_ll env) (cd_parser cd) (Buffer_linearize d) = (p', es, err)"
    and cd': "response_steps es (cd\<lparr>cd_parser := p'\<rparr>) = (cd', zs)"
  shows "\<exists>s'. data d s = Inr s' \<and> ok (Some cd') s' \<and> gets (B @ concat (map out zs)) s'"
proof -
  obtain x where x: "px_sessions s i = Some x" "ps_upstreamCodec x = Some cd" "ps_upstreamCallbacks x" using codec [OF k] by blast
  obtain s1 where s1: "tell_all (upstream_callbacks env i) zs (put_sess i (x\<lparr>ps_upstreamCodec := None\<rparr>) s) = Inr s1" "ok None s1"
      "gets (B @ concat (map out zs)) s1"
    using tell_all_gets [OF put_codec [OF k x(1)] gets_put [OF st]] by blast
  obtain x1 where x1: "px_sessions s1 i = Some x1" using codec [OF s1(2)] by blast
  note s2 = put_codec [OF s1(2) x1, of "Some cd'"] gets_put [OF s1(3), of "x1\<lparr>ps_upstreamCodec := Some cd'\<rparr>"]
  show ?thesis using upstream_data_eq [OF x d ps run cd'] data_eq [OF k] s1(1) x1 closes [OF s2] s2
    by (cases err) (simp_all add: upd_sess_def with_sess_def)
qed

lemma events_get:
  assumes ps: "parses_responses (ev_ll env)"
  shows "ok (Some cd) s \<Longrightarrow> gets B s \<Longrightarrow> list_all relay_event_ok evs \<Longrightarrow>
    \<exists>s' k. run_events data ready evs s = Inr s' \<and> ok k s' \<and> gets (B @ concat (map out (told (ev_ll env) cd evs))) s'"
proof (induction evs arbitrary: s cd B)
  case (Cons ev evs)
  show ?case
  proof (cases ev)
    case (RelayData d)
    obtain p' es err where run: "ll_execute (ev_ll env) (cd_parser cd) (Buffer_linearize d) = (p', es, err)" by (metis prod_cases3)
    obtain cd' zs where cd': "response_steps es (cd\<lparr>cd_parser := p'\<rparr>) = (cd', zs)" by fastforce
    obtain s1 where "data d s = Inr s1" "ok (Some cd') s1" "gets (B @ concat (map out zs)) s1"
      using data_gets [OF Cons.prems(1,2) _ ps run cd'] Cons.prems(3) RelayData by auto
    then show ?thesis using Cons.IH [of cd' s1 "B @ concat (map out zs)"] Cons.prems(3) RelayData told_simps(3) [OF run cd']
      by simp
  next
    case RelayReady
    obtain s1 where "ready s = Inr s1" "ok (Some cd) s1" "gets B s1" using ready_ok [OF Cons.prems(1,2)] by blast
    then show ?thesis using Cons.IH [of cd s1 B] Cons.prems(3) RelayReady by (simp add: told_simps(2))
  qed
qed (auto simp: told_simps(1))

end

text \<open>A plain session: its client connection is \<open>c\<close>.\<close>

interpretation pl: response_client env i out_bytes "\<lambda>k (s :: ('p, 'a) proxy_scheme). send_ok (ev_os env) \<and> relay_ok g i c k s" "streams c f"
  "onUpstreamData env i" "Connection_handleWrite (ev_os env) sess_error c" for env :: "'p env" and i g c f
proof
  fix k :: "'p Http1Codec option" and s :: "('p, 'a) proxy_scheme" and B z
  assume a: "send_ok (ev_os env) \<and> relay_ok g i c k s"
  then obtain x where x: "px_sessions s i = Some x" "relaying c k x" by (auto elim: relay_okD)
  then show "\<exists>x. px_sessions s i = Some x \<and> ps_upstreamCodec x = k \<and> ps_upstreamCallbacks x" by (auto simp: relaying_def)
  show "onUpstreamData env i d s = upstream_data env i d s" for d
    using x by (simp add: onUpstreamData_def with_sess_def relaying_def)
  show "send_ok (ev_os env) \<and> relay_ok g i c k' (put_sess i (y\<lparr>ps_upstreamCodec := k'\<rparr>) s)" if "px_sessions s i = Some y" for y k'
    using a x that relay_ok_put [where c = c and k = k and x = x and y = "x\<lparr>ps_upstreamCodec := k'\<rparr>" and k' = k' and i = i and s = s and g = g] by (simp add: sess_refs_def relaying_def)
  assume st: "streams c f B s"
  show "\<exists>s'. tell (upstream_callbacks env i) z s = Inr s' \<and> (send_ok (ev_os env) \<and> relay_ok g i c k s') \<and> streams c f (B @ out_bytes z) s'"
    using tell_ok [where env = env and g = g and i = i and c = c and k = k and f = f and B = B and s = s] a st by blast
  show "\<exists>s'. Connection_handleWrite (ev_os env) sess_error c s = Inr s' \<and> (send_ok (ev_os env) \<and> relay_ok g i c k s') \<and> streams c f B s'"
    using st.conn_call_ok [of g "relaying c k" i s c f B "ev_os env" WritableEvent] a st by auto
  have wd: "world_ok g s" using a by (simp add: steady_def)
  have "i \<in> dom (px_sessions s)" using x by auto
  then obtain s' where s': "ProxySession_close i s = Inr s'" using close_total [OF world_frozen [OF wd]] by blast
  then show "\<exists>s'. ProxySession_close i s = Inr s' \<and> (send_ok (ev_os env) \<and> relay_ok g i c k s') \<and> streams c f B s'"
    using a close_session_has [OF wd s'] postD [OF world_close [OF wd] s'] close_streams [OF s' st] by (simp add: steady_def)
qed simp


section \<open>A whole response\<close>

abbreviation whole :: "HttpResponse \<Rightarrow> byte list list \<Rightarrow> codec_out list" where
  "whole r bs \<equiv> OutResponse r # map OutBody bs @ [OutEnd]"

text \<open>Where a session stands that has been told the part \<open>T\<close> of a whole response, to a kernel that takes all bytes.\<close>

definition phase :: "nat \<Rightarrow> nat \<Rightarrow> fd \<Rightarrow> byte list \<Rightarrow> bool \<Rightarrow> bool \<Rightarrow> ('p, 'a) proxy_scheme \<Rightarrow> bool" where
  "phase i c f msg begun ended s \<longleftrightarrow>
     (if ended then conn_closed c s \<and> sent_on f (pf_calls s) = msg else if begun then drained_to i c s else open_to i c s)"

lemma phase_put [simp]:
  assumes "px_sessions s i = Some x" and "ps_closed y = ps_closed x"
  shows "phase i c f msg b e (put_sess i y s) = phase i c f msg b e s"
  using assms by (simp add: phase_def open_to_def drained_to_def conn_closed_def)

lemma phase_tell:
  fixes s :: "('p, 'a) proxy_scheme"
  assumes send: "send_ok (ev_os env)" "send_progress (ev_os env)" and ok: "relay_ok g i c k s"
    and whole: "T @ z # us = whole r bs" and st: "streams c f (D @ concat (map out_bytes T)) s"
    and ph: "phase i c f (D @ concat (map out_bytes (whole r bs))) (T \<noteq> []) False s"
  shows "\<exists>s'. tell (upstream_callbacks env i) z s = Inr s' \<and> relay_ok g i c k s' \<and>
    streams c f (D @ concat (map out_bytes (T @ [z]))) s' \<and>
    phase i c f (D @ concat (map out_bytes (whole r bs))) True (us = []) s'"
proof -
  obtain s' where s': "tell (upstream_callbacks env i) z s = Inr s'" "relay_ok g i c k s'"
      "streams c f ((D @ concat (map out_bytes T)) @ out_bytes z) s'"
      "case z of OutResponse r \<Rightarrow> open_to i c s \<longrightarrow> drained_to i c s'
     | OutBody b \<Rightarrow> drained_to i c s \<longrightarrow> drained_to i c s'
     | OutEnd \<Rightarrow> open_to i c s \<longrightarrow> conn_closed c s' \<and> sent_on f (pf_calls s') = sent_on f (pf_calls s)"
    using tell_ok [OF send(1) ok st, of z] send(2) by blast
  have "phase i c f (D @ concat (map out_bytes (whole r bs))) True (us = []) s'"
  proof (cases T)
    case Nil
    then show ?thesis using whole s'(4) ph by (auto simp: phase_def)
  next
    case (Cons t ts)
    then have tail: "ts @ z # us = map OutBody bs @ [OutEnd]" using whole by simp
    have dr: "drained_to i c s" using ph Cons by (simp add: phase_def)
    show ?thesis
    proof (cases us rule: rev_cases)
      case Nil
      then have z: "z = OutEnd" "concat (map out_bytes (whole r bs)) = concat (map out_bytes T)"
        using tail whole by (auto simp: append_eq_append_conv2 append_eq_Cons_conv)
      obtain y where y: "nw_conns s c = Some y" "\<not> co_closed y" "Buffer_empty (co_writeBuf y)"
        using dr by (auto simp: drained_to_def open_to_def)
      then have "sent_on f (pf_calls s) = D @ concat (map out_bytes T)"
        using st by (auto simp: streams_def write_queue_def Buffer_empty_iff)
      then show ?thesis using s'(4) z dr Nil by (simp add: phase_def drained_to_def)
    next
      case (snoc vs v)
      then have "z \<in> set (map OutBody bs)" using tail by (metis append.assoc append_Cons butlast_snoc in_set_conv_decomp)
      then show ?thesis using s'(4) dr snoc by (auto simp: phase_def)
    qed
  qed
  then show ?thesis using s' by auto
qed

lemma phase_tell_all:
  fixes s :: "('p, 'a) proxy_scheme"
  assumes send: "send_ok (ev_os env)" "send_progress (ev_os env)"
  shows "relay_ok g i c k s \<Longrightarrow> T @ zs @ us = whole r bs \<Longrightarrow> streams c f (D @ concat (map out_bytes T)) s \<Longrightarrow>
    phase i c f (D @ concat (map out_bytes (whole r bs))) (T \<noteq> []) (zs @ us = []) s \<Longrightarrow>
    \<exists>s'. tell_all (upstream_callbacks env i) zs s = Inr s' \<and> relay_ok g i c k s' \<and>
      streams c f (D @ concat (map out_bytes (T @ zs))) s' \<and>
      phase i c f (D @ concat (map out_bytes (whole r bs))) (T @ zs \<noteq> []) (us = []) s'"
proof (induction zs arbitrary: s T)
  case (Cons z zs)
  obtain s1 where s1: "tell (upstream_callbacks env i) z s = Inr s1" "relay_ok g i c k s1"
      "streams c f (D @ concat (map out_bytes (T @ [z]))) s1"
      "phase i c f (D @ concat (map out_bytes (whole r bs))) True (zs @ us = []) s1"
    using phase_tell [OF send Cons.prems(1) _ Cons.prems(3), of z "zs @ us" r bs] Cons.prems(2,4) by auto
  then show ?case using Cons.IH [OF s1(2) _ s1(3)] Cons.prems(2) by (simp del: map_append concat_append)
qed simp
text \<open>The parser finds no error in the events.\<close>

fun accepted :: "'p llhttp \<Rightarrow> 'p \<Rightarrow> relay_event list \<Rightarrow> bool" where
  "accepted ll p [] \<longleftrightarrow> True"
| "accepted ll p (RelayReady # evs) \<longleftrightarrow> accepted ll p evs"
| "accepted ll p (RelayData d # evs) \<longleftrightarrow>
     (case ll_execute ll p (Buffer_linearize d) of (p', es, err) \<Rightarrow>
        (case err of HPE_OTHER a b \<Rightarrow> False | _ \<Rightarrow> True) \<and> accepted ll p' evs)"

lemma phase_data:
  fixes s :: "('p, 'a) proxy_scheme"
  assumes send: "send_ok (ev_os env)" "send_progress (ev_os env)" and ok: "relay_ok g i c (Some cd) s"
    and d: "write_queue d" and ps: "parses_responses (ev_ll env)"
    and run: "ll_execute (ev_ll env) (cd_parser cd) (Buffer_linearize d) = (p', es, err)"
    and cd': "response_steps es (cd\<lparr>cd_parser := p'\<rparr>) = (cd', zs)" and err: "\<And>a b. err \<noteq> HPE_OTHER a b"
    and whole: "T @ zs @ us = whole r bs" and st: "streams c f (D @ concat (map out_bytes T)) s"
    and ph: "phase i c f (D @ concat (map out_bytes (whole r bs))) (T \<noteq> []) (zs @ us = []) s"
  shows "\<exists>s'. onUpstreamData env i d s = Inr s' \<and> relay_ok g i c (Some cd') s' \<and>
    streams c f (D @ concat (map out_bytes (T @ zs))) s' \<and>
    phase i c f (D @ concat (map out_bytes (whole r bs))) (T @ zs \<noteq> []) (us = []) s'"
proof -
  obtain x where x: "px_sessions s i = Some x" "relaying c (Some cd) x" using ok by (rule relay_okD)
  let ?s = "put_sess i (x\<lparr>ps_upstreamCodec := None\<rparr>) s"
  have ok0: "relay_ok g i c None ?s" by (rule relay_ok_put [OF ok x(1)]) (use x(2) in \<open>simp_all add: sess_refs_def relaying_def\<close>)
  have st0: "streams c f (D @ concat (map out_bytes T)) ?s" using st by simp
  have ph0: "phase i c f (D @ concat (map out_bytes (whole r bs))) (T \<noteq> []) (zs @ us = []) ?s"
    using ph x(1) by (subst phase_put [where x = x]) simp_all
  obtain s1 where s1: "tell_all (upstream_callbacks env i) zs ?s = Inr s1" "relay_ok g i c None s1"
      "streams c f (D @ concat (map out_bytes (T @ zs))) s1"
      "phase i c f (D @ concat (map out_bytes (whole r bs))) (T @ zs \<noteq> []) (us = []) s1"
    using phase_tell_all [OF send ok0 whole st0 ph0] by blast
  obtain x1 where x1: "px_sessions s1 i = Some x1" "relaying c None x1" using s1(2) by (rule relay_okD)
  let ?s2 = "put_sess i (x1\<lparr>ps_upstreamCodec := Some cd'\<rparr>) s1"
  have "relay_ok g i c (Some cd') ?s2"
    by (rule relay_ok_put [OF s1(2) x1(1)]) (use x1(2) in \<open>simp_all add: sess_refs_def relaying_def\<close>)
  moreover have "phase i c f (D @ concat (map out_bytes (whole r bs))) (T @ zs \<noteq> []) (us = []) ?s2"
    using s1(4) x1(1) by (subst phase_put [where x = x1]) simp_all
  moreover have "streams c f (D @ concat (map out_bytes (T @ zs))) ?s2" using s1(3) by simp
  moreover have "onUpstreamData env i d s = Inr ?s2"
    using upstream_data_eq [OF x(1) _ _ d ps run cd'] pl.data_eq [OF conjI [OF send(1) ok]] x(2) s1(1) x1(1) err
    by (cases err) (auto simp: upd_sess_def with_sess_def relaying_def)
  ultimately show ?thesis by blast
qed

lemma phase_ready:
  fixes s :: "('p, 'a) proxy_scheme"
  assumes send: "send_ok (ev_os env)" "send_progress (ev_os env)" and ok: "relay_ok g i c k s" and st: "streams c f B s"
    and ph: "phase i c f msg b e s"
  shows "\<exists>s'. Connection_handleWrite (ev_os env) sess_error c s = Inr s' \<and> relay_ok g i c k s' \<and> streams c f B s' \<and>
    phase i c f msg b e s'"
proof -
  obtain s1 where s1: "Connection_handleWrite (ev_os env) sess_error c s = Inr s1" "relay_ok g i c k s1" "streams c f B s1"
    using st.conn_call_ok [OF ok st send(1), of WritableEvent] by auto
  obtain y where y: "nw_conns s c = Some y" using st by (auto simp: streams_def)
  have "phase i c f msg b e s1"
  proof (cases "co_closed y")
    case True
    then have "s1 = s" using s1(1) y by (simp add: Connection_handleWrite_def with_conn_def)
    then show ?thesis using ph by simp
  next
    case False
    have wb: "write_queue (co_writeBuf y)" using st y False by (auto simp: streams_def)
    have o: "\<not> e" "open_to i c s" using ph y False by (auto simp: phase_def conn_closed_def drained_to_def split: if_splits)
    show ?thesis using same.handleWrite_progress [OF refl y False wb send, of sess_error] s1(1) o
      by (auto simp: phase_def open_to_def drained_to_def)
  qed
  then show ?thesis using s1 by blast
qed

lemma phase_steps:
  fixes s :: "('p, 'a) proxy_scheme"
  assumes send: "send_ok (ev_os env)" "send_progress (ev_os env)" and ps: "parses_responses (ev_ll env)"
  shows "relay_ok g i c (Some k) s \<Longrightarrow> streams c f (D @ concat (map out_bytes T)) s \<Longrightarrow> list_all relay_event_ok evs \<Longrightarrow>
    T @ told (ev_ll env) k evs = whole r bs \<Longrightarrow> accepted (ev_ll env) (cd_parser k) evs \<Longrightarrow>
    phase i c f (D @ concat (map out_bytes (whole r bs))) (T \<noteq> []) (told (ev_ll env) k evs = []) s \<Longrightarrow>
    \<exists>s'. relay_steps env i c evs s = Inr s' \<and> phase i c f (D @ concat (map out_bytes (whole r bs))) True True s'"
proof (induction evs arbitrary: s k T)
  case Nil
  then show ?case by (auto simp: told_simps(1))
next
  case (Cons ev evs)
  show ?case
  proof (cases ev)
    case (RelayData d)
    obtain p' es err where run: "ll_execute (ev_ll env) (cd_parser k) (Buffer_linearize d) = (p', es, err)" by (metis prod_cases3)
    obtain k' zs where k': "response_steps es (k\<lparr>cd_parser := p'\<rparr>) = (k', zs)" by fastforce
    have p': "cd_parser k' = p'" using k' response_steps_parser [where es = es and c = "k\<lparr>cd_parser := p'\<rparr>"] by (simp add: map_prod_def case_prod_beta)
    have told: "told (ev_ll env) k (ev # evs) = zs @ told (ev_ll env) k' evs" using told_simps(3) [OF run k'] RelayData by simp
    have acc: "accepted (ev_ll env) (cd_parser k') evs" using Cons.prems(5) RelayData run p' by simp
    have err: "err \<noteq> HPE_OTHER a b" for a b using Cons.prems(5) RelayData run by auto
    obtain t1 where "onUpstreamData env i d s = Inr t1" "relay_ok g i c (Some k') t1"
        "streams c f (D @ concat (map out_bytes (T @ zs))) t1"
        "phase i c f (D @ concat (map out_bytes (whole r bs))) (T @ zs \<noteq> []) (told (ev_ll env) k' evs = []) t1"
      using phase_data [OF send Cons.prems(1) _ ps run k' err _ Cons.prems(2), of "told (ev_ll env) k' evs" r bs]
        Cons.prems(3,4,6) RelayData told by auto
    then show ?thesis using Cons.IH [of k' t1 "T @ zs"] Cons.prems(3,4) RelayData told acc by simp
  next
    case RelayReady
    obtain t1 where "Connection_handleWrite (ev_os env) sess_error c s = Inr t1" "relay_ok g i c (Some k) t1"
        "streams c f (D @ concat (map out_bytes T)) t1"
        "phase i c f (D @ concat (map out_bytes (whole r bs))) (T \<noteq> []) (told (ev_ll env) k evs = []) t1"
      using phase_ready [OF send Cons.prems(1,2) Cons.prems(6) [unfolded RelayReady told_simps(2)]] by blast
    then show ?thesis using Cons.IH [of k t1 T] Cons.prems(3-5) RelayReady by (simp add: told_simps(2))
  qed
qed

text \<open>The response as a client gets it that finds the end of the body by the end of the connection.\<close>

definition framing_names :: "string list" where
  "framing_names = [''Transfer-Encoding'', ''Content-Length'']"

definition unframed :: "HttpResponse \<Rightarrow> HttpResponse" where
  "unframed r = r\<lparr>rs_headers := filter (\<lambda>(n, v). ci_key n \<notin> set (map ci_key framing_names)) (rs_headers r)\<rparr>"

lemma strip_framing_plain:
  assumes "header_map_wf (rs_headers r)"
  shows "strip_framing False r = unframed r"
proof -
  have "HeaderMap_remove ''Content-Length'' (HeaderMap_remove ''Transfer-Encoding'' (rs_headers r)) =
      filter (\<lambda>(n, v). ci_key n \<notin> set (map ci_key framing_names)) (rs_headers r)"
    using HeaderMap_remove_filter [OF HeaderMap_remove_wf [OF assms]] HeaderMap_remove_filter [OF assms]
    by (auto simp: framing_names_def intro!: filter_cong)
  then show ?thesis by (simp add: strip_framing_def unframed_def)
qed

lemma complete_response_wf: "header_map_wf (rs_headers (complete_response v (response_head reasons hs)))"
  by (simp add: complete_response_def response_head_def set_all_wf)

text \<open>
  C3: a response arrives whole. When the pieces of data that the upstream sends make up one response, as the
  parser reports it, and the kernel keeps taking bytes, then the client gets the head of this response without
  Transfer-Encoding and Content-Length, in whatever case, and the whole body, and the connection is closed behind it, which is how the client
  finds the end of the body.
\<close>

theorem response_completed:
  fixes s :: "('p, 'a) proxy_scheme"
  assumes send: "send_ok (ev_os env)" "send_progress (ev_os env)" and ps: "parses_responses (ev_ll env)"
    and evs: "list_all relay_event_ok evs" and wd: "world_ok (surroundings s) s"
    and x: "px_sessions s i = Some x" "\<not> ps_closed x" "relaying c (Some cd) x"
    and y: "nw_conns s c = Some y" "\<not> co_closed y" and st: "streams c f D s"
    and v: "ll_type v = HTTP_RESPONSE" "list_all header_ok hs"
    and parse: "parsed (ev_ll env) (cd_parser cd) evs = response_events v reasons hs chunks" "accepted (ev_ll env) (cd_parser cd) evs"
  shows "\<exists>s' y'. relay_steps env i c evs s = Inr s' \<and> nw_conns s' c = Some y' \<and> co_closed y' \<and>
    sent_on f (pf_calls s') = D @ bytes_of_string (response_head_string (unframed
      (complete_response v (response_head reasons hs)))) @ concat chunks"
proof -
  let ?r = "complete_response v (response_head reasons hs)"
  have all: "told (ev_ll env) cd evs = whole ?r chunks" using response_told [OF v, of reasons chunks cd] parse(1) by (simp add: told_def)
  have ok: "relay_ok (surroundings s) i c (Some cd) s" using wd x by (simp add: steady_def session_has_def)
  have "phase i c f (D @ concat (map out_bytes (whole ?r chunks))) False False s" using x y by (simp add: phase_def open_to_def)
  then obtain s' where "relay_steps env i c evs s = Inr s'" "phase i c f (D @ concat (map out_bytes (whole ?r chunks))) True True s'"
    using phase_steps [OF send ps ok, of f D "[]" evs ?r chunks] st evs parse(2) all by auto
  moreover have "concat (map out_bytes (map OutBody chunks)) = concat chunks" by (induction chunks) simp_all
  ultimately show ?thesis by (auto simp: phase_def conn_closed_def strip_framing_plain [OF complete_response_wf])
qed
section \<open>Bytes that a close drops\<close>

lemma close_drops:
  fixes s :: "('p, 'a) proxy_scheme"
  assumes wd: "world_ok g s" and x: "px_sessions s i = Some x" "\<not> ps_closed x" "ps_client x = Some c"
    and y: "nw_conns s c = Some y" "\<not> co_closed y" "Buffer_linearize (co_writeBuf y) \<noteq> []" and st: "streams c f B s"
  shows "\<exists>s'. ProxySession_close i s = Inr s' \<and> conn_closed c s' \<and> strict_prefix (sent_on f (pf_calls s')) B"
proof -
  obtain s' where s': "ProxySession_close i s = Inr s'"
      "closing (conn_refs (sess_refs x)) (tls_refs (sess_refs x)) (held_fds x s) (put_sess i (closed_session x) s) s'"
    using close_ok [OF wd x(1,2)] by blast
  have "conn_closed c s'" by (rule closing_conn [OF s'(2)]) (simp add: sess_refs_def x(3))
  have "sent_on f (pf_calls s) @ Buffer_linearize (co_writeBuf y) = B" using st y by (auto simp: streams_def)
  then have "strict_prefix (sent_on f (pf_calls s)) B" using y(3) by (auto simp: strict_prefix_def)
  then show ?thesis using s'(1) close_sent [OF s'(1), of f] \<open>conn_closed c s'\<close> by auto
qed

text \<open>
  C37: the end of a response can cut it off. When the response is complete, or when the upstream closes, the
  session closes the client connection at once; whatever still waits in its write buffer because the
  kernel did not take it yet is dropped: the client has received a proper prefix of the bytes written
  for it, and no later call on the connection sends anything.
\<close>

theorem response_truncated:
  fixes s :: "('p, 'a) proxy_scheme"
  assumes wd: "world_ok (surroundings s) s"
    and x: "px_sessions s i = Some x" "\<not> ps_closed x" "\<not> ps_isTlsMitm x" "ps_client x = Some c"
    and y: "nw_conns s c = Some y" "\<not> co_closed y" "Buffer_linearize (co_writeBuf y) \<noteq> []" and st: "streams c f B s"
    and run: "run = onResponseComplete i s \<or> run = onUpstreamClose i s"
  shows "\<exists>s'. run = Inr s' \<and> strict_prefix (sent_on f (pf_calls s')) B \<and>
    (\<forall>env op. conn_call (ev_os env) sess_error c op s' = Inr s')"
proof -
  let ?x = "x\<lparr>ps_pendingBody := Buffer_new, ps_responseBody := Buffer_new\<rparr>"
  define s1 where "s1 = put_sess i ?x (if ps_payloadInspector x \<and> \<not> Buffer_empty (ps_responseBody x)
      then sys (CInspect (Buffer_linearize (ps_responseBody x)) (rq_url (ps_currentRequest x))) s else s)"
  have wd1: "world_ok (surroundings s) s1"
    unfolding s1_def by (rule world_put_sess [where y = x]) (use wd x(1) in \<open>simp_all add: sess_refs_def\<close>)
  have c1: "px_sessions s1 i = Some ?x" "nw_conns s1 c = Some y" "streams c f B s1"
    using y(1) st by (simp_all add: s1_def streams_sys)
  have "onResponseComplete i s = ProxySession_close i s1"
    using x by (simp add: onResponseComplete_def with_sess_def s1_def Let_def)
  then obtain s' where s': "run = Inr s'" "conn_closed c s'" "strict_prefix (sent_on f (pf_calls s')) B"
    using run close_drops [OF wd x(1,2,4) y st] close_drops [OF wd1 c1(1) _ _ c1(2) y(2,3) c1(3)] x(2,4)
    by (auto simp: onUpstreamClose_def)
  moreover have "conn_call os sess_error c op s' = Inr s'" for os op
    using s'(2) st.closed_call [of s' c _ os op] by (auto simp: conn_closed_def simp del: conn_call.simps)
  ultimately show ?thesis by blast
qed

text \<open>
  An intercepted response that was chunked and has no length reaches the client with neither of the headers
  that delimit its body, and the end of the response closes nothing.
\<close>

lemma mitm_framing_lost:
  assumes "header_map_wf (rs_headers resp)" and "HeaderMap_get ''Content-Length'' (rs_headers resp) = None"
    and "px_sessions s i = Some x" and "ps_isTlsMitm x"
  shows "HeaderMap_get ''Transfer-Encoding'' (rs_headers (strip_framing (ps_isTlsMitm x) resp)) = None \<and>
    HeaderMap_get ''Content-Length'' (rs_headers (strip_framing (ps_isTlsMitm x) resp)) = None \<and>
    (\<exists>s'. onResponseComplete i s = Inr s' \<and> nw_conns s' = nw_conns s \<and> tn_conns s' = tn_conns s)"
proof -
  have "ci_key ''Content-Length'' \<noteq> ci_key ''Transfer-Encoding''" by code_simp
  then show ?thesis using assms HeaderMap_remove_erase [OF assms(1)]
    by (simp add: strip_framing_def HeaderMap_get_find onResponseComplete_def with_sess_def Let_def)
qed
section \<open>Samples\<close>

definition response_view :: ll_view where
  "response_view = \<lparr>ll_type = HTTP_RESPONSE, ll_methodName = [], ll_http_major = 1, ll_http_minor = 1,
     ll_status_code = 200, ll_content_length = 2, ll_chunked = False\<rparr>"

abbreviation length_header :: header_pieces where
  "length_header \<equiv> ([''Content-'', ''Length''], [''2''])"

text \<open>A parser that reports the head and the first byte of the body for one piece of data, the rest for any other.\<close>

definition two_piece_parser :: "unit llhttp" where
  "two_piece_parser = \<lparr>ll_init = (\<lambda>_. ()), ll_execute = (\<lambda>p d. (p,
     (if d = [1] then take 7 else drop 7) (response_events response_view [''OK''] [length_header] [[10], [11]]), HPE_OK))\<rparr>"

definition relay_env :: "unit env" where
  "relay_env = plain_env\<lparr>ev_os := quiet_os\<lparr>os_send := (\<lambda>h f d. Inr (min 2 (length d)))\<rparr>, ev_ll := two_piece_parser\<rparr>"

definition relay_session :: "unit ProxySession" where
  "relay_session = sample_session\<lparr>ps_isTunnel := False,
     ps_upstreamCodec := Some (Http1Codec_new two_piece_parser 1 CtResponse)\<rparr>"

abbreviation relay_world :: "unit proxy" where
  "relay_world \<equiv> put_sess 0 relay_session sample_world"

abbreviation two_pieces :: "relay_event list" where
  "two_pieces \<equiv> [RelayData (sample_body [1]), RelayReady, RelayData (sample_body [2])]"

lemma sample_body_queue: "bs \<noteq> [] \<Longrightarrow> write_queue (sample_body bs)"
  by (simp add: sample_body_def write_queue_def buffer_wf_def buffer_dense_def Buffer_slices_def Slice_data_def
      Slice_copy_def Slice_length_def slice_wf_def)

lemma relay_world_ok: "world_ok (surroundings relay_world) relay_world"
proof -
  have "world_ok (surroundings sample_world) relay_world"
    by (rule world_put_sess [OF sample_world_ok, of 0 sample_session])
      (simp_all add: sample_world_def relay_session_def sess_refs_def)
  then show ?thesis by (simp add: world_ok_def)
qed

lemma relay_facts:
  "send_ok (ev_os relay_env)" "send_progress (ev_os relay_env)" "parses_responses (ev_ll relay_env)"
  "list_all relay_event_ok two_pieces" "px_sessions relay_world 0 = Some relay_session" "\<not> ps_closed relay_session"
  "relaying 0 (Some (Http1Codec_new two_piece_parser 1 CtResponse)) relay_session"
  "nw_conns relay_world 0 = Some (sample_conn 7)" "\<not> co_closed (sample_conn 7)" "streams 0 7 [] relay_world"
proof -
  show "send_ok (ev_os relay_env)" "send_progress (ev_os relay_env)"
    by (simp_all add: send_ok_def send_progress_def relay_env_def)
  let ?es = "response_events response_view [''OK''] [length_header] [[10], [11]]"
  have "list_all (\<lambda>e. ll_type (fst e) \<noteq> HTTP_REQUEST) ?es"
    by (simp add: response_events_def header_events_def body_events_def response_view_def)
  then have "list_all (\<lambda>e. ll_type (fst e) \<noteq> HTTP_REQUEST) (take 7 ?es)" "list_all (\<lambda>e. ll_type (fst e) \<noteq> HTTP_REQUEST) (drop 7 ?es)"
    unfolding list_all_iff by (blast dest: in_set_takeD in_set_dropD)+
  then show "parses_responses (ev_ll relay_env)"
    by (simp add: parses_responses_def relay_env_def two_piece_parser_def del: take_Suc_Cons drop_Suc_Cons)
  have new: "Buffer_linearize Buffer_new = []" by (simp add: Buffer_new_def Buffer_linearize_def)
  show "streams 0 7 [] relay_world" using new by (simp add: streams_def sample_conn_def Socket_of_fd_def sent_on_def)
qed (simp_all add: sample_body_queue relay_session_def relaying_def sample_session_def sample_conn_def)

lemma two_pieces_parsed:
  "parsed (ev_ll relay_env) () two_pieces = response_events response_view [''OK''] [length_header] [[10], [11]]"
  "accepted (ev_ll relay_env) () two_pieces"
  by (simp_all add: relay_env_def two_piece_parser_def sample_body_bytes del: take_Suc_Cons drop_Suc_Cons)

theorem response_completed_witness:
  "\<exists>s' y'. relay_steps relay_env 0 0 two_pieces relay_world = Inr s' \<and> nw_conns s' 0 = Some y' \<and> co_closed y' \<and>
    sent_on 7 (pf_calls s') = bytes_of_string (''HTTP/1.1 200 OK'' @ CRLF @ CRLF) @ [10, 11]"
proof -
  have "response_head_string (unframed (complete_response response_view (response_head [''OK''] [length_header])))
      = ''HTTP/1.1 200 OK'' @ CRLF @ CRLF"
    by code_simp
  moreover have "ll_type response_view = HTTP_RESPONSE" "list_all header_ok [length_header]"
    by (simp_all add: response_view_def header_ok_def)
  ultimately show ?thesis
    using response_completed [OF relay_facts(1-4) relay_world_ok relay_facts(5-10), of response_view "[length_header]" "[''OK'']" "[[10], [11]]"]
      two_pieces_parsed by simp
qed


theorem response_truncated_witness:
  "\<exists>s'. onResponseComplete 0 (put_conn 0 ((sample_conn 7)\<lparr>co_writeBuf := sample_body [1, 2, 3]\<rparr>) sample_world) = Inr s' \<and>
    strict_prefix (sent_on 7 (pf_calls s')) [1, 2, 3]"
proof -
  let ?s = "put_conn 0 ((sample_conn 7)\<lparr>co_writeBuf := sample_body [1, 2, 3]\<rparr>) sample_world"
  have "world_ok (surroundings sample_world) ?s"
    by (rule wd.inv_put [OF sample_world_ok, of 0 "sample_conn 7"]) simp_all
  moreover have "surroundings ?s = surroundings sample_world" by (simp add: put_conn_def surroundings_def)
  ultimately have wd: "world_ok (surroundings ?s) ?s" by simp
  have "streams 0 7 [1, 2, 3] ?s"
    by (rule streams_openI [where x = "(sample_conn 7)\<lparr>co_writeBuf := sample_body [1, 2, 3]\<rparr>"]) (simp_all add: sample_conn_def Socket_of_fd_def sample_body_queue sample_body_bytes sent_on_def)
  moreover have "px_sessions ?s 0 = Some sample_session" "nw_conns ?s 0 = Some ((sample_conn 7)\<lparr>co_writeBuf := sample_body [1, 2, 3]\<rparr>)"
    by (simp_all add: put_conn_def)
  ultimately show ?thesis using response_truncated [OF wd, of 0 sample_session 0 _ 7 "[1, 2, 3]" "onResponseComplete 0 ?s"]
    by (auto simp: sample_session_def sample_conn_def sample_body_bytes)
qed

end
