(* ===== verification/Session_Connect.thy ===== *)
theory Session_Connect
  imports Session_Relay
begin

text \<open>
  The end of the non-blocking connect: the closure \<^verbatim>\<open>connectUpstream\<close> leaves in the event loop, which goes on
  with the tunnel or the request. The steps are those of Proxy_Session.
\<close>

text \<open>The socket of the finished connect becomes the upstream connection.\<close>

lemma adopt_upstream:
  fixes s :: "('p, 'a) proxy_scheme"
  assumes wd: "world_ok g s" and x: "px_sessions s i = Some x" "ps_upstream x = None"
    and n: "Connection_new k s = (d, s1)"
  shows "world_ok g (put_sess i (x\<lparr>ps_connectingSocket := rest, ps_upstream := Some d\<rparr>) s1)" "nw_conns s d = None"
    "px_sessions s1 = px_sessions s" "streams c f B s \<Longrightarrow> streams c f B s1 \<and> c \<noteq> d" "so_fd k = u \<Longrightarrow> streams d u (sent_on u (pf_calls s)) s1"
proof -
  show "world_ok g (put_sess i (x\<lparr>ps_connectingSocket := rest, ps_upstream := Some d\<rparr>) s1)"
    using upstream_replaced [OF wd x(1) n, of rest] x(2) by (simp add: post_def)
  have d: "d = nw_nextConn s" "s1 = snd (Connection_new k s)" using n Connection_new_effect(2) [of k s] by simp_all
  show fresh: "nw_conns s d = None" using wd d by (auto simp: world_ok_def)
  show "px_sessions s1 = px_sessions s" using d by simp
  have calls: "pf_calls s1 = pf_calls s" using n by (auto simp: Connection_new_def Let_def put_conn_def)
  have conns: "nw_conns s1 = (nw_conns s)(d \<mapsto> \<lparr>co_socket = k, co_closed = False, co_reading = False, co_writeBuf = Buffer_new,
      co_onData = None, co_onClose = None, co_onError = None\<rparr>)" using d Connection_new_effect(1) [of k s] by simp
  show "streams c f B s1 \<and> c \<noteq> d" if "streams c f B s" using that fresh conns calls by (auto simp: streams_def)
  show "streams d u (sent_on u (pf_calls s)) s1" if "so_fd k = u"
    using that conns calls by (simp add: streams_def Buffer_linearize_def Buffer_new_def write_queue_def [symmetric])
      (simp add: Buffer_new_write_queue [unfolded Buffer_new_def])
qed

text \<open>
  C39: the outcome of the connect is not asked for. Whatever flags the event on the connecting socket
  carries, an error among them, a session that was asked for a tunnel tells its client that the connection is
  established and starts to pass bytes to the socket.
\<close>

theorem connect_outcome_unchecked:
  fixes s :: "('p, 'a) proxy_scheme"
  assumes send: "send_ok (ev_os env)" and wd: "world_ok (surroundings s) s"
    and x: "px_sessions s i = Some x" "\<not> ps_closed x" "ps_isConnect x" "ps_certGen x = None" "ps_client x = Some c" "ps_upstream x = None"
    and k: "ps_connectingSocket x = Socket_of_fd u" and st: "streams c f B s" and "f \<noteq> u"
  shows "\<exists>s' x' y. sess_io env (App (ScConnected i u)) fired s = Inr s' \<and> px_sessions s' i = Some x' \<and> ps_isTunnel x' \<and>
    ps_upstream x' \<noteq> None \<and> nw_conns s' c = Some y \<and> prefix (sent_on f (pf_calls s')) (B @ bytes_of_string established) \<and>
    (co_closed y \<or> sent_on f (pf_calls s') @ Buffer_linearize (co_writeBuf y) = B @ bytes_of_string established)"
proof -
  let ?g = "surroundings s" and ?s0 = "KqueueLoop_remove u s"
  have wd0: "world_ok ?g ?s0" and x0: "px_sessions ?s0 i = Some x" and st0: "streams c f B ?s0" using wd x(1) st by simp_all
  obtain d s1 where n: "Connection_new (Socket_of_fd u) ?s0 = (d, s1)" by fastforce
  note a = adopt_upstream [OF wd0 x0 x(6) n]
  let ?x = "x\<lparr>ps_connectingSocket := Socket_new, ps_upstream := Some d\<rparr>" and ?P = "\<lambda>x. ps_isTunnel x \<and> ps_upstream x = Some d"
  let ?s2 = "put_sess i ?x s1" and ?s3 = "put_sess i (?x\<lparr>ps_isTunnel := True\<rparr>) (put_sess i ?x s1)"
  have ok3: "steady ?g ?P i ?s3"
    using world_put_sess [OF a(1) [of Socket_new], of i ?x "?x\<lparr>ps_isTunnel := True\<rparr>"]
    by (simp add: steady_def session_has_def closed_session_def sess_refs_def)
  have st3: "streams c f B ?s3" "c \<noteq> d" using a(4) [OF st0] by simp_all
  have ds: "streams d u (sent_on u (pf_calls ?s0)) ?s3" using a(5) by (simp add: Socket_of_fd_def)
  obtain s4 where s4: "Connection_write_string (ev_os env) sess_error established c ?s3 = Inr s4" "steady ?g ?P i s4"
      "streams c f (B @ bytes_of_string established) s4" "streams d u (sent_on u (pf_calls ?s0)) s4"
    using st.conn_call_ok [OF ok3 st3(1) send, of "WriteString established"] ds st3(2) assms(11) unfolding others_stream_def by auto
  obtain x4 where x4: "px_sessions s4 i = Some x4" "ps_isTunnel x4" "ps_upstream x4 = Some d"
    using s4(2) by (auto simp: steady_def session_has_def closed_session_def)
  obtain y4 where y4: "nw_conns s4 d = Some y4" using s4(4) by (auto simp: streams_def)
  obtain y5 where s5: "setupUpstreamCallbacks i s4 = Inr (put_conn d y5 s4)" "co_closed y5 = co_closed y4" "co_socket y5 = co_socket y4"
      "co_writeBuf y5 = co_writeBuf y4" using setupUpstreamCallbacks_eq [OF x4(1,3) y4] by blast
  let ?s5 = "put_conn d y5 s4"
  have wd4: "world_ok ?g s4" using s4(2) by (simp add: steady_def)
  have ok5: "steady ?g ?P i ?s5"
    using postD [OF frozen_setupUpstreamCallbacks [OF world_frozen [OF wd4]] s5(1)] s4(2) by (simp add: steady_def frozen_def)
  have st5: "streams d u (sent_on u (pf_calls ?s0)) ?s5" "streams c f (B @ bytes_of_string established) ?s5"
    using s4(3,4) s5 y4 st3(2) by (simp_all add: streams_def put_conn_def)
  obtain s6 where s6: "Connection_startRead d ?s5 = Inr s6" "steady ?g ?P i s6" "streams c f (B @ bytes_of_string established) s6"
    using st.conn_call_ok [OF ok5 st5(1) send, of StartRead] st5(2) st3(2) assms(11) unfolding others_stream_def by auto
  have mv: "Socket_move (Socket_of_fd u) = (Socket_of_fd u, Socket_new)"
    by (simp add: Socket_move_def Socket_of_fd_def Socket_new_def)
  have "sess_io env (App (ScConnected i u)) fired s = Inr s6"
    using x0 x a(3) k n mv s4(1) s5(1) s6(1)
    by (simp add: onUpstreamConnected_def with_sess_def startTunnel_def upd_sess_def Let_def)
  then show ?thesis using s6(2,3) by (auto simp: steady_def session_has_def closed_session_def streams_def)
qed

text \<open>A connect that ended with an error: the event has both flags.\<close>

theorem connect_outcome_unchecked_witness:
  "\<exists>s' x'. sess_io plain_env (App (ScConnected 0 9)) (Readable OR Writable)
      (put_sess 0 (sample_session\<lparr>ps_isTunnel := False, ps_certGen := None, ps_upstream := None, ps_connectingSocket := Socket_of_fd 9\<rparr>)
        sample_world) = Inr s' \<and> px_sessions s' 0 = Some x' \<and> ps_isTunnel x' \<and>
    prefix (sent_on 7 (pf_calls s')) (bytes_of_string established)"
proof -
  let ?x = "sample_session\<lparr>ps_isTunnel := False, ps_certGen := None, ps_upstream := None, ps_connectingSocket := Socket_of_fd 9\<rparr>"
  let ?s = "put_sess 0 ?x sample_world"
  have cb: "conn_cbs (sample_conn f) = {}" for f by (simp add: conn_cbs_def sample_conn_def)
  have wd: "world_ok (surroundings ?s) ?s"
    by (simp add: world_ok_def refs_ok_def refs_def sess_refs_def conn_refs_def tls_refs_def
        sample_world_def sample_session_def cbs_ok_def put_sess_def cb)
  have new: "Buffer_linearize Buffer_new = []" by (simp add: Buffer_linearize_def Buffer_new_def)
  have "send_ok (ev_os plain_env)" "streams 0 7 [] ?s"
    by (simp_all add: send_ok_def plain_env_def quiet_os_def streams_def sample_conn_def Socket_of_fd_def sent_on_def new)
  then show ?thesis
    using connect_outcome_unchecked [OF _ wd, of plain_env 0 ?x 0 9 7 "[]" "Readable OR Writable"]
    by (force simp: sample_session_def)
qed

end
