(* ===== verification/Session_Intercept.thy ===== *)
theory Session_Intercept
  imports Session_Relay
begin

text \<open>
  What an intercepted session passes on: the requests of the client over the TLS connection to the upstream
  server, the responses over the one to the client, both in the clear for the session in between. The steps are
  those of Proxy_Session; the bytes of a TLS connection are those that OpenSSL was given to encrypt.
\<close>

section \<open>Writing to a TLS connection of a session\<close>

interpretation st: tls_error_handler "steady g P i :: ('p, 'a) proxy_scheme \<Rightarrow> bool" sess_error for g P i
proof
  fix s :: "('p, 'a) proxy_scheme" assume ok: "steady g P i s"
  then have fz: "frozen g (refs s) s" and has: "session_has P i s" and wd: "world_ok g s"
    by (simp_all add: steady_def world_frozen)
  show "steady g P i (put_tls t x s)" if "tn_conns s t = Some y" "same_tls_callbacks x y" for t x y
    using wd.inv_put_tls [OF wd that] has by (simp add: steady_def session_has_def)
  show "\<exists>s'. sess_error cb e s = Inr s' \<and> steady g P i s' \<and> tls_closed t s'"
    if "tn_conns s t = Some x" "tc_closed x" "tc_onError x = Some cb" for t x cb e
    using fz.tls_err_total [OF fz that, of e] sess_error_session_has [OF wd _ has] by (auto simp: steady_def frozen_def)
qed (rule sess_error_encrypted)

text \<open>The bytes \<open>B\<close> were written to TLS connection \<open>t\<close> with session \<open>k\<close>: OpenSSL has taken a prefix, the rest waits.\<close>

definition tls_carries :: "nat \<Rightarrow> ssl \<Rightarrow> byte list \<Rightarrow> ('u, 'a) tnet_scheme \<Rightarrow> bool" where
  "tls_carries t k B s \<longleftrightarrow> tls_ended t k B s \<or> tls_streams t k B s"

lemma tls_carriesD:
  assumes "tls_carries t k B s"
  shows "\<exists>y. tn_conns s t = Some y \<and> prefix (encrypted k (pf_calls s)) B \<and>
    (tc_closed y \<or> encrypted k (pf_calls s) @ Buffer_linearize (tc_writeBuf y) = B)"
  using assms by (auto simp: tls_carries_def tls_ended_def tls_closed_def tls_streams_def)

lemma encrypted_inspect [simp]: "encrypted k [CInspect bs url] = []"
  by (simp add: encrypted_def)

lemma tls_carries_frame [simp]:
  "tls_carries t k B (put_sess i y s) = tls_carries t k B s"
  "tls_carries t k B (sys (CInspect bs url) s) = tls_carries t k B s"
  by (simp_all add: tls_carries_def tls_ended_def tls_closed_def tls_streams_def)

context tls_error_handler
begin

lemma tls_call_carries:
  assumes "inv s" and "tls_carries t k B s" and "tls_write_ok lib" and "tls_op_ok op"
  shows "\<exists>s'. tls_call lib onErr t op s = Inr s' \<and> inv s' \<and> tls_carries t k (B @ tls_op_bytes op) s'"
proof (cases "tls_streams t k B s")
  case True
  then show ?thesis using tls_call_ok [OF assms(1) True assms(3,4)] by (auto simp: tls_carries_def)
next
  case False
  then have "tls_ended t k B s" using assms(2) by (simp add: tls_carries_def)
  then show ?thesis using tls_closed_call [of t s lib op] assms(1)
    by (auto simp: tls_carries_def tls_ended_def intro: prefix_prefix)
qed

end

lemma close_carries:
  fixes s :: "('p, 'a) proxy_scheme"
  assumes wd: "world_ok g s" and s': "ProxySession_close i s = Inr s'" and st: "tls_carries t k B s"
  shows "tls_carries t k B s'"
proof -
  obtain x where x: "px_sessions s i = Some x" using s' by (auto simp: ProxySession_close_def res_iff)
  show ?thesis
  proof (cases "ps_closed x")
    case True
    then show ?thesis using close_closed [OF x True] s' st by simp
  next
    case False
    obtain T F where cl: "closing (conn_refs (sess_refs x)) T F (put_sess i (closed_session x) s) s'"
      using close_ok [OF wd x False] s' by auto
    have enc: "encrypted k (pf_calls s') = encrypted k (pf_calls s)" by (rule close_encrypted [OF s'])
    have pre: "prefix (encrypted k (pf_calls s')) B" using tls_carriesD [OF st] enc by auto
    show ?thesis
    proof (cases "tls_closed t s'")
      case True
      then show ?thesis using pre by (simp add: tls_carries_def tls_ended_def)
    next
      case False
      then have same: "tn_conns s' t = tn_conns s t" and "\<not> tls_closed t s"
        using cl unfolding closing_def by (auto simp: tls_closed_def)
      then have "tls_streams t k B s" using st by (simp add: tls_carries_def tls_ended_def)
      then show ?thesis unfolding tls_carries_def tls_streams_def same enc by blast
    qed
  qed
qed

section \<open>Responses\<close>

text \<open>An intercepted session towards the TLS client \<open>t\<close>, with the codec \<open>k\<close> of the upstream side.\<close>

definition intercepting :: "nat \<Rightarrow> 'p Http1Codec option \<Rightarrow> 'p ProxySession \<Rightarrow> bool" where
  "intercepting t k x \<longleftrightarrow> ps_isTlsMitm x \<and> ps_tlsClient x = Some t \<and> ps_upstreamCallbacks x \<and>
     ps_upstreamCodec x = k \<and> buffer_wf (ps_responseBody x)"

abbreviation intercept_ok :: "'a surroundings \<Rightarrow> nat \<Rightarrow> nat \<Rightarrow> 'p Http1Codec option \<Rightarrow> ('p, 'a) proxy_scheme \<Rightarrow> bool" where
  "intercept_ok g i t k \<equiv> steady g (intercepting t k) i"

lemma intercepting_closed [simp]: "intercepting t k (closed_session x) = intercepting t k x"
  by (simp add: intercepting_def closed_session_def)

lemma intercept_okD:
  assumes "intercept_ok g i t k s" obtains x where "px_sessions s i = Some x" "intercepting t k x"
  using assms by (auto simp: steady_def session_has_def)

lemma intercept_ok_put:
  assumes "intercept_ok g i t k s" and "px_sessions s i = Some x" and "sess_refs y = sess_refs x" and "intercepting t k' y"
  shows "intercept_ok g i t k' (put_sess i y s)"
  using world_put_sess [of g s i x y] assms by (simp add: steady_def session_has_def)

text \<open>The bytes the client gets for what the codec tells: only Transfer-Encoding is taken from the head.\<close>

fun intercept_bytes :: "codec_out \<Rightarrow> byte list" where
  "intercept_bytes (OutResponse r) = bytes_of_string (response_head_string (strip_framing True r))"
| "intercept_bytes (OutBody b) = b"
| "intercept_bytes OutEnd = []"

lemma tls_client_write:
  fixes s :: "('p, 'a) proxy_scheme"
  assumes lib: "tls_write_ok (ev_lib env)" and ok: "intercept_ok g i t k s" and st: "tls_carries t q B s" and d: "write_queue d"
  shows "\<exists>r s'. writeToClient env d i s = Inr (r, s') \<and> intercept_ok g i t k s' \<and> tls_carries t q (B @ Buffer_linearize d) s'"
proof -
  obtain x where x: "px_sessions s i = Some x" "intercepting t k x" using ok by (rule intercept_okD)
  obtain s1 where s1: "tls_call (ev_lib env) sess_error t (TlsWriteBuffer d) s = Inr s1" "intercept_ok g i t k s1"
      "tls_carries t q (B @ Buffer_linearize d) s1"
    using st.tls_call_carries [OF ok st lib, of "TlsWriteBuffer d"] d by auto
  then show ?thesis using x by (auto simp: writeToClient_def with_sess_def intercepting_def res_iff)
qed

lemma intercept_body:
  fixes s :: "('p, 'a) proxy_scheme"
  assumes lib: "tls_write_ok (ev_lib env)" and ok: "intercept_ok g i t k s" and st: "tls_carries t q B s" and b: "write_queue b"
  shows "\<exists>s'. onResponseBody env i b e s = Inr s' \<and> intercept_ok g i t k s' \<and> tls_carries t q (B @ Buffer_linearize b) s'"
proof -
  obtain x where x: "px_sessions s i = Some x" "intercepting t k x" using ok by (rule intercept_okD)
  obtain acc where acc: "inspect_body (ps_payloadInspector x) b (ps_responseBody x) = Inr acc" "buffer_wf acc"
    using inspect_body_wf x(2) unfolding intercepting_def by blast
  let ?s = "put_sess i (x\<lparr>ps_responseBody := acc\<rparr>) s"
  have ok1: "intercept_ok g i t k ?s"
    by (rule intercept_ok_put [OF ok x(1)]) (use x(2) acc in \<open>simp_all add: sess_refs_def intercepting_def\<close>)
  have st1: "tls_carries t q B ?s" using st by simp
  have "Buffer_empty b \<Longrightarrow> Buffer_linearize b = []" using b by (simp add: Buffer_empty_iff write_queue_def)
  then show ?thesis using tls_client_write [OF lib ok1 st1 b] ok1 st1 x acc
    by (cases "Buffer_empty b") (auto simp: onResponseBody_def with_sess_def upd_sess_def)
qed

lemma intercept_head:
  fixes s :: "('p, 'a) proxy_scheme"
  assumes lib: "tls_write_ok (ev_lib env)" and ok: "intercept_ok g i t k s" and st: "tls_carries t q B s"
  shows "\<exists>s'. onResponse env i r s = Inr s' \<and> intercept_ok g i t k s' \<and> tls_carries t q (B @ intercept_bytes (OutResponse r)) s'"
proof -
  obtain x where x: "px_sessions s i = Some x" "intercepting t k x" using ok by (rule intercept_okD)
  obtain out where out: "encodeResponse (strip_framing True r) Buffer_new = Inr out" "write_queue out"
      "Buffer_linearize out = intercept_bytes (OutResponse r)"
    using encodeResponse_ok [OF Buffer_new_write_queue, of "strip_framing True r"] by (auto simp: Buffer_linearize_def Buffer_new_def)
  show ?thesis using tls_client_write [OF lib ok st out(2)] x out(1,3)
    by (auto simp: onResponse_def with_sess_def intercepting_def)
qed

text \<open>The end of a response leaves an intercepted session open for the next request.\<close>

lemma intercept_end:
  fixes s :: "('p, 'a) proxy_scheme"
  assumes ok: "intercept_ok g i t k s" and st: "tls_carries t q B s"
  shows "\<exists>s'. onResponseComplete i s = Inr s' \<and> intercept_ok g i t k s' \<and> tls_carries t q B s'"
proof -
  obtain x where x: "px_sessions s i = Some x" "intercepting t k x" using ok by (rule intercept_okD)
  let ?x = "x\<lparr>ps_pendingBody := Buffer_new, ps_responseBody := Buffer_new\<rparr>"
  define s1 where "s1 = (if ps_payloadInspector x \<and> \<not> Buffer_empty (ps_responseBody x)
      then sys (CInspect (Buffer_linearize (ps_responseBody x)) (rq_url (ps_currentRequest x))) s else s)"
  have ok1: "intercept_ok g i t k s1" using ok st.inv_sys [OF ok] by (simp add: s1_def)
  have "intercept_ok g i t k (put_sess i ?x s1)"
    by (rule intercept_ok_put [OF ok1, of x]) (use x in \<open>simp_all add: s1_def sess_refs_def intercepting_def\<close>)
  moreover have "tls_carries t q B (put_sess i ?x s1)" using st by (simp add: s1_def)
  moreover have "onResponseComplete i s = Inr (put_sess i ?x s1)"
    using x by (simp add: onResponseComplete_def with_sess_def intercepting_def s1_def Let_def)
  ultimately show ?thesis by blast
qed

lemma intercept_tell:
  fixes s :: "('p, 'a) proxy_scheme"
  assumes lib: "tls_write_ok (ev_lib env)" and ok: "intercept_ok g i t k s" and st: "tls_carries t q B s"
  shows "\<exists>s'. tell (upstream_callbacks env i) z s = Inr s' \<and> intercept_ok g i t k s' \<and> tls_carries t q (B @ intercept_bytes z) s'"
proof (cases z)
  case (OutResponse r)
  then show ?thesis using intercept_head [OF assms, of r] by (simp add: upstream_callbacks_def)
next
  case (OutBody b)
  obtain buf where "Buffer_add b Buffer_new = Inr buf" "write_queue buf" "Buffer_linearize buf = b" using add_new by blast
  then show ?thesis using intercept_body [OF assms, of buf False] OutBody by (auto simp: upstream_callbacks_def)
next
  case OutEnd
  obtain s1 where "onResponseBody env i Buffer_new True s = Inr s1" "intercept_ok g i t k s1" "tls_carries t q B s1"
    using intercept_body [OF assms Buffer_new_write_queue, of True] by (auto simp: Buffer_new_def Buffer_linearize_def)
  then show ?thesis using intercept_end [where s = s1] OutEnd by (auto simp: upstream_callbacks_def deliver_end_def)
qed

abbreviation intercept_steps :: "'p env \<Rightarrow> nat \<Rightarrow> nat \<Rightarrow> relay_event list \<Rightarrow> ('p, 'a) proxy_scheme \<Rightarrow> fault + ('p, 'a) proxy_scheme" where
  "intercept_steps env i t \<equiv> run_events (sess_data env (ScMitmUpstreamData i)) (TlsConnection_doWrite (ev_lib env) sess_error t)"

interpretation tl: response_client env i intercept_bytes "\<lambda>k (s :: ('p, 'a) proxy_scheme). tls_write_ok (ev_lib env) \<and> intercept_ok g i t k s"
  "tls_carries t q" "sess_data env (ScMitmUpstreamData i)" "TlsConnection_doWrite (ev_lib env) sess_error t" for env :: "'p env" and i g t q
proof
  fix k :: "'p Http1Codec option" and s :: "('p, 'a) proxy_scheme" and B z
  assume a: "tls_write_ok (ev_lib env) \<and> intercept_ok g i t k s"
  then obtain x where x: "px_sessions s i = Some x" "intercepting t k x" by (auto elim: intercept_okD)
  then show "\<exists>x. px_sessions s i = Some x \<and> ps_upstreamCodec x = k \<and> ps_upstreamCallbacks x" by (auto simp: intercepting_def)
  show "tls_write_ok (ev_lib env) \<and> intercept_ok g i t k' (put_sess i (y\<lparr>ps_upstreamCodec := k'\<rparr>) s)" if "px_sessions s i = Some y" for y k'
    using a x that intercept_ok_put [where g = g and i = i and t = t and k = k and s = s and x = x and k' = k'
        and y = "x\<lparr>ps_upstreamCodec := k'\<rparr>"] by (simp add: sess_refs_def intercepting_def)
  assume st: "tls_carries t q B s"
  show "\<exists>s'. tell (upstream_callbacks env i) z s = Inr s' \<and> (tls_write_ok (ev_lib env) \<and> intercept_ok g i t k s') \<and>
      tls_carries t q (B @ intercept_bytes z) s'"
    using intercept_tell a st by blast
  show "\<exists>s'. TlsConnection_doWrite (ev_lib env) sess_error t s = Inr s' \<and> (tls_write_ok (ev_lib env) \<and> intercept_ok g i t k s') \<and>
      tls_carries t q B s'"
    using st.tls_call_carries [where P = "intercepting t k" and t = t and k = q and B = B and s = s and lib = "ev_lib env" and op = TlsWritable and g = g and i = i] a st by auto
  have wd: "world_ok g s" using a by (simp add: steady_def)
  have "i \<in> dom (px_sessions s)" using x by auto
  then obtain s' where s': "ProxySession_close i s = Inr s'" using close_total [OF world_frozen [OF wd]] by blast
  then show "\<exists>s'. ProxySession_close i s = Inr s' \<and> (tls_write_ok (ev_lib env) \<and> intercept_ok g i t k s') \<and> tls_carries t q B s'"
    using a close_session_has [OF wd s'] postD [OF world_close [OF wd] s'] close_carries [OF wd s' st] by (simp add: steady_def)
qed simp_all


section \<open>Requests\<close>

text \<open>An intercepted session towards the TLS connection \<open>u\<close> to the upstream server.\<close>

abbreviation upstream_ok :: "'a surroundings \<Rightarrow> nat \<Rightarrow> nat \<Rightarrow> buffer \<Rightarrow> ('p, 'a) proxy_scheme \<Rightarrow> bool" where
  "upstream_ok g i u b \<equiv> steady g (\<lambda>x. ps_isTlsMitm x \<and> ps_tlsUpstream x = Some u \<and> ps_pendingBody x = b) i"

lemma tls_upstream_write:
  fixes s :: "('p, 'a) proxy_scheme"
  assumes lib: "tls_write_ok (ev_lib env)" and ok: "upstream_ok g i u b s" and st: "tls_carries u k B s" and d: "write_queue d"
  shows "\<exists>r s'. writeToUpstream env d i s = Inr (r, s') \<and> upstream_ok g i u b s' \<and> tls_carries u k (B @ Buffer_linearize d) s'"
proof -
  obtain x where x: "px_sessions s i = Some x" "ps_isTlsMitm x" "ps_tlsUpstream x = Some u"
    using ok by (auto simp: steady_def session_has_def closed_session_def)
  obtain s1 where "tls_call (ev_lib env) sess_error u (TlsWriteBuffer d) s = Inr s1" "upstream_ok g i u b s1"
      "tls_carries u k (B @ Buffer_linearize d) s1"
    using st.tls_call_carries [OF ok st lib, of "TlsWriteBuffer d"] d by auto
  then show ?thesis using x by (auto simp: writeToUpstream_def with_sess_def res_iff)
qed


section \<open>Samples\<close>

definition sample_tls :: "fd \<Rightarrow> ssl \<Rightarrow> sess_cb TlsConnection" where
  "sample_tls f k = \<lparr>tc_socket = Socket_of_fd f, tc_ssl = k, tc_isServer = True, tc_closed = False, tc_handshakeDone = True,
     tc_reading = True, tc_writeBuf = Buffer_new, tc_onData = None, tc_onClose = None, tc_onError = None,
     tc_onHandshakeComplete = None, tc_onHandshakeError = None\<rparr>"

definition mitm_session :: "unit ProxySession" where
  "mitm_session = relay_session\<lparr>ps_isTlsMitm := True, ps_client := None, ps_upstream := None, ps_tlsClient := Some 0, ps_tlsUpstream := Some 1\<rparr>"

definition mitm_world :: "unit proxy" where
  "mitm_world = put_sess 0 mitm_session (sample_world
     \<lparr>nw_conns := Map.empty, tn_conns := [0 \<mapsto> sample_tls 7 20, 1 \<mapsto> sample_tls 8 21], tn_nextTls := 2\<rparr>)"

text \<open>OpenSSL takes at most two bytes at a time.\<close>

definition mitm_env :: "unit env" where
  "mitm_env = relay_env\<lparr>ev_lib := quiet_ssl\<lparr>tls_write := (\<lambda>h k d. Inr (min 2 (length d)))\<rparr>\<rparr>"

lemma mitm_world_ok: "world_ok (surroundings mitm_world) mitm_world"
proof -
  have "tls_cbs (sample_tls f k) = {}" for f k by (simp add: tls_cbs_def sample_tls_def)
  then show ?thesis
    by (simp add: world_ok_def refs_ok_def refs_def sess_refs_def conn_refs_def tls_refs_def mitm_world_def mitm_session_def
        sample_world_def relay_session_def sample_session_def cbs_ok_def put_sess_def)
qed

lemma mitm_facts:
  "tls_write_ok (ev_lib mitm_env)" "ev_ll mitm_env = ev_ll relay_env" "px_sessions mitm_world 0 = Some mitm_session"
  "intercepting 0 (Some (Http1Codec_new two_piece_parser 1 CtResponse)) mitm_session"
  "tls_streams 0 20 [] mitm_world" "tls_streams 1 21 [] mitm_world"
proof -
  have "Buffer_linearize Buffer_new = []" by (simp add: Buffer_new_def Buffer_linearize_def)
  then show "tls_streams 0 20 [] mitm_world" "tls_streams 1 21 [] mitm_world"
    by (simp_all add: tls_streams_def mitm_world_def sample_tls_def encrypted_def put_sess_def)
qed (simp_all add: tls_write_ok_def mitm_env_def mitm_world_def mitm_session_def relay_session_def intercepting_def sample_session_def put_sess_def)



end
