(* ===== verification/Server.thy ===== *)
theory Server
  imports Session_Behaviour
begin

text \<open>
  \<^verbatim>\<open>Server/Server.hpp\<close>, \<^verbatim>\<open>Server/Server.cpp\<close> and \<^verbatim>\<open>Source/main.cpp\<close>: the server owns the event loop, the listener,
  the certificate cache and the sessions; \<^verbatim>\<open>run()\<close> builds them, runs the loop on the callbacks of the
  listener and the sessions, and closes everything when the loop returns. The events the loop
  receives are an argument, so a run of the server is a run of all the components on one state. Log output
  is not modelled.
\<close>

section \<open>State\<close>

text \<open>
  The member \<^verbatim>\<open>loop_\<close> is the part of the state below the connections, \<^verbatim>\<open>listener_\<close> is \<open>nw_listener\<close> and
  \<^verbatim>\<open>certCache_\<close> is \<open>px_certCache\<close>; the two flags say whether the pointers are set. A null pointer among
  the sessions is \<open>None\<close>.
\<close>

record 'p server = "'p proxy" +
  sv_listenAddr :: Address
  sv_caCertPath :: string
  sv_caKeyPath :: string
  sv_hasLoop :: bool
  sv_hasListener :: bool
  sv_certGen :: "CertGenerator option"
  sv_sessions :: "nat option list"
  sv_payloadInspector :: bool

text \<open>What the operating system answers when the event loop is made.\<close>

record loop_fds =
  lf_kqueue :: "errno + fd"
  lf_pipe :: "errno + fd \<times> fd"

section \<open>Operations\<close>

definition Server_new :: "Address \<Rightarrow> string \<Rightarrow> string \<Rightarrow> 'p server" where
  "Server_new listenAddr caCertPath caKeyPath =
     \<lparr>pf_calls = [], el_kqFd = -1, el_running = False, el_wakeReadFd = -1, el_wakeWriteFd = -1,
      el_fdEntries = Map.empty, el_timerHeap = [], el_timers = Map.empty, el_nextTimerId = 1, el_posted = [],
      nw_conns = Map.empty, nw_nextConn = 0, nw_listener = Listener_new listenAddr,
      tn_conns = Map.empty, tn_nextTls = 0,
      px_sessions = Map.empty, px_nextSession = 0, px_certCache = CertCache_new 1024,
      sv_listenAddr = listenAddr, sv_caCertPath = caCertPath, sv_caKeyPath = caKeyPath,
      sv_hasLoop = False, sv_hasListener = False, sv_certGen = None, sv_sessions = [], sv_payloadInspector = False\<rparr>"

definition Server_setPayloadInspector :: "'p server \<Rightarrow> 'p server" where
  "Server_setPayloadInspector s = s\<lparr>sv_payloadInspector := True\<rparr>"

definition Server_onNewConnection :: "'p env \<Rightarrow> Socket \<Rightarrow> Address \<Rightarrow> 'p server \<Rightarrow> fault + 'p server" where
  "Server_onNewConnection env client addr s0 =
     (let s = s0\<lparr>sv_sessions := filter (\<lambda>p. p \<noteq> None) (sv_sessions s0)\<rparr>;
          (i, s) = ProxySession_new env client (sv_certGen s) True s
      in rbind (if sv_payloadInspector s then ProxySession_setPayloadInspector i s else Inr s) (\<lambda>s.
         ProxySession_start i (s\<lparr>sv_sessions := sv_sessions s @ [Some i]\<rparr>)))"

text \<open>The callbacks that the event loop runs: those of the listener, and those of the sessions.\<close>

fun server_io :: "'p env \<Rightarrow> sess_cb net_cb \<Rightarrow> u32 \<Rightarrow> 'p server \<Rightarrow> fault + 'p server" where
  "server_io env IoListener fired s = Listener_onReadable (ev_os env) (Server_onNewConnection env) (ev_fuel env) s"
| "server_io env cb fired s = sess_io env cb fired s"

fun server_task :: "sess_cb net_cb \<Rightarrow> 'p server \<Rightarrow> fault + 'p server" where
  "server_task TmResume s = Inr (Listener_resumeAccepting s)"
| "server_task cb s = Inr s"

text \<open>\<^verbatim>\<open>loop_ = EventLoop::create()\<close>: the new loop is made, then the loop held before is destroyed.\<close>

definition EventLoop_create :: "os \<Rightarrow> loop_fds \<Rightarrow> syscall list \<Rightarrow> fault + sess_cb net_cb KqueueLoop" where
  "EventLoop_create os fds calls = KqueueLoop_new os (lf_kqueue fds) (lf_pipe fds) calls"

definition set_loop :: "'p env \<Rightarrow> loop_fds \<Rightarrow> 'p server \<Rightarrow> fault + 'p server" where
  "set_loop env fds s =
     rbind (EventLoop_create (ev_os env) fds (pf_calls s)) (\<lambda>l.
       Inr ((KqueueLoop.extend l (KqueueLoop.more s))
              \<lparr>pf_calls := pf_calls l @ (if sv_hasLoop s
                 then map CClose (filter (\<lambda>f. 0 \<le> f) [el_kqFd s, el_wakeReadFd s, el_wakeWriteFd s]) else []),
               sv_hasLoop := True\<rparr>))"

text \<open>
  \<^verbatim>\<open>listener_ = make_unique<Listener>(...)\<close>: a listener held before is destroyed after its loop was, so
  that stopping it follows a dangling reference when its socket is still open.
\<close>

definition set_listener :: "'p server \<Rightarrow> fault + 'p server" where
  "set_listener s =
     (if sv_hasListener s \<and> Socket_valid (li_socket (nw_listener s)) then Inl UndefinedBehaviour
      else Inr (s\<lparr>nw_listener := Listener_new (sv_listenAddr s), sv_hasListener := True\<rparr>))"

definition load_ca :: "'p env \<Rightarrow> 'p server \<Rightarrow> Error + 'p server" where
  "load_ca env s =
     (if sv_caCertPath s \<noteq> [] \<and> sv_caKeyPath s \<noteq> [] then
        (case CertGenerator_create (ev_x509 env) (sv_caCertPath s) (sv_caKeyPath s) of
           Inl e \<Rightarrow> Inl e
         | Inr gen \<Rightarrow> Inr (s\<lparr>sv_certGen := Some gen\<rparr>))
      else Inr s)"

fun close_all :: "nat option list \<Rightarrow> ('p, 'a) proxy_scheme \<Rightarrow> fault + ('p, 'a) proxy_scheme" where
  "close_all [] s = Inr s"
| "close_all (p # ps) s = rbind (deref p (\<lambda>i. ProxySession_close i s)) (close_all ps)"

definition shut_down :: "'p server \<Rightarrow> fault + 'p server" where
  "shut_down s =
     (let s1 = Listener_stop s
      in rbind (close_all (sv_sessions s1) s1) (\<lambda>s2. Inr (s2\<lparr>sv_sessions := []\<rparr>)))"

text \<open>\<open>Blocked\<close>: the call has not returned, its loop waits in \<^verbatim>\<open>kevent\<close>.\<close>

datatype run_result = Returned "Error + unit" | Blocked

definition Server_run ::
  "'p env \<Rightarrow> loop_fds \<Rightarrow> sess_cb net_cb kwait list \<Rightarrow> 'p server \<Rightarrow> fault + run_result \<times> 'p server" where
  "Server_run env fds ws s0 =
     rbind (set_loop env fds s0) (\<lambda>s.
       case load_ca env s of
         Inl e \<Rightarrow> Inr (Returned (Inl e), s)
       | Inr s \<Rightarrow>
           rbind (set_listener s) (\<lambda>s.
             case Listener_start (ev_os env) s of
               (Inl e, s) \<Rightarrow> Inr (Returned (Inl e), s)
             | (Inr _, s) \<Rightarrow>
                 rbind (KqueueLoop_run (server_io env) server_task ws s) (\<lambda>((exit, _), s).
                   if exit = LoopWaiting then Inr (Blocked, s)
                   else rbind (shut_down s) (\<lambda>s. Inr (Returned (Inr ()), s)))))"

definition Server_stop :: "'p server \<Rightarrow> 'p server" where
  "Server_stop s = (if sv_hasLoop s then KqueueLoop_stop s else s)"

section \<open>The program\<close>

record main_config =
  mc_port :: u16
  mc_caCert :: string
  mc_caKey :: string
  mc_modelPath :: string

definition default_config :: main_config where
  "default_config = \<lparr>mc_port = 8080, mc_caCert = [], mc_caKey = [], mc_modelPath = []\<rparr>"

text \<open>The option loop of \<^verbatim>\<open>main\<close>; \<open>None\<close> when \<^verbatim>\<open>--version\<close> ends the program.\<close>

fun parse_args :: "string list \<Rightarrow> main_config \<Rightarrow> fault + main_config option" where
  "parse_args [] c = Inr (Some c)"
| "parse_args [arg] c = Inr (if arg = ''--version'' then None else Some c)"
| "parse_args (arg # v # rest) c =
     (if arg = ''--version'' then Inr None
      else if arg = ''--port'' then rbind (throws (stoi v)) (\<lambda>n. parse_args rest (c\<lparr>mc_port := word_of_int n\<rparr>))
      else if arg = ''--ca-cert'' then parse_args rest (c\<lparr>mc_caCert := v\<rparr>)
      else if arg = ''--ca-key'' then parse_args rest (c\<lparr>mc_caKey := v\<rparr>)
      else if arg = ''--model'' then parse_args rest (c\<lparr>mc_modelPath := v\<rparr>)
      else parse_args (v # rest) c)"

datatype main_exit = ExitCode int | StillRunning

text \<open>\<open>modelLoads\<close> is whether \<^verbatim>\<open>MagikaEngine::create\<close> succeeds on the given path.\<close>

definition main ::
  "'p env \<Rightarrow> loop_fds \<Rightarrow> (string \<Rightarrow> bool) \<Rightarrow> sess_cb net_cb kwait list \<Rightarrow> string list \<Rightarrow> fault + main_exit" where
  "main env fds modelLoads ws args =
     rbind (parse_args args default_config) (\<lambda>conf.
       case conf of
         None \<Rightarrow> Inr (ExitCode 0)
       | Some c \<Rightarrow>
           (case Address_fromHostPort (ev_os env) ''0.0.0.0'' (mc_port c) \<lparr>pf_calls = []\<rparr> of
              (Inl e, _) \<Rightarrow> Inr (ExitCode 1)
            | (Inr addr, p) \<Rightarrow>
                (let s = (Server_new addr (mc_caCert c) (mc_caKey c))\<lparr>pf_calls := pf_calls p\<rparr>;
                     s = (if mc_modelPath c \<noteq> [] \<and> modelLoads (mc_modelPath c)
                          then Server_setPayloadInspector s else s)
                 in rbind (Server_run env fds ws s) (\<lambda>(r, s).
                      Inr (case r of Blocked \<Rightarrow> StillRunning | Returned (Inl e) \<Rightarrow> ExitCode 1
                                   | Returned (Inr _) \<Rightarrow> ExitCode 0)))))"
section \<open>The invariant of a running server\<close>

text \<open>
  The heap of sessions is sound, and the server's list holds every session it ever made, in order.
\<close>

definition server_ok :: "'p server \<Rightarrow> bool" where
  "server_ok s \<longleftrightarrow> world_ok (surroundings s) s \<and> dom (px_sessions s) = {..<px_nextSession s} \<and>
     sv_sessions s = map Some [0..<px_nextSession s]"

text \<open>The fields that the invariant reads.\<close>

definition same_heap :: "'p server \<Rightarrow> 'p server \<Rightarrow> bool" where
  "same_heap s s' \<longleftrightarrow> px_sessions s' = px_sessions s \<and> px_nextSession s' = px_nextSession s \<and>
     nw_conns s' = nw_conns s \<and> nw_nextConn s' = nw_nextConn s \<and> tn_conns s' = tn_conns s \<and>
     tn_nextTls s' = tn_nextTls s \<and> sv_sessions s' = sv_sessions s"

lemma same_heap_ok: "same_heap s s' \<Longrightarrow> server_ok s' = server_ok s"
  unfolding server_ok_def world_ok_def same_heap_def by (simp add: refs_cong [of s' s])

lemma same_heap_refl [simp]: "same_heap s s"
  by (simp add: same_heap_def)

lemma same_heap_trans: "same_heap s t \<Longrightarrow> same_heap t u \<Longrightarrow> same_heap s u"
  by (simp add: same_heap_def)

lemma more_sessions: "proxy.more s = proxy.more t \<Longrightarrow> sv_sessions s = sv_sessions (t :: 'p server)"
  by (cases s; cases t) simp

lemma server_ok_step:
  assumes "server_ok s" and "world_ok (surroundings s) s'"
  shows "server_ok s'"
proof -
  have "surroundings s' = surroundings s" using assms(2) by (simp add: world_ok_def)
  then show ?thesis using assms more_sessions [of s' s]
    by (simp add: server_ok_def surroundings_def outside_def)
qed

lemma same_heap_ops [simp]:
  "same_heap s (sys call s)" "same_heap s (put_socket k s)" "same_heap s (Socket_destroy k s)"
  "same_heap s (KqueueLoop_remove f s)" "same_heap s (KqueueLoop_watch f ev cb s)" "same_heap s (Listener_resumeAccepting s)"
  "same_heap s (Listener_pauseAccepting s)" "same_heap s (snd (Socket_close k s))"
  "same_heap s (foreign_call c s)" "same_heap s (s\<lparr>el_running := b\<rparr>)" "same_heap s (s\<lparr>el_timers := m\<rparr>)"
  "same_heap s (s\<lparr>nw_listener := l\<rparr>)"
  by (auto simp: same_heap_def put_socket_def Socket_destroy_def Socket_close_def Listener_resumeAccepting_def
      Listener_pauseAccepting_def watch_listener_def set_resumeTimer_def TimerHandle_cancel_def KqueueLoop_addTimer_def
      KqueueLoop_remove_def KqueueLoop_watch_def KqueueLoop_post_def KqueueLoop_stop_def KqueueLoop_wake_def sys_def
      Let_def foreign_as_op split: option.splits foreign.splits)
lemma same_heap_calls [simp]:
  "same_heap s (snd (Socket_accept os k s))" "same_heap s (snd (Socket_setNonblocking os k s))"
  by (auto simp: Socket_accept_def Socket_setNonblocking_def suppressSigpipe_def Let_def
      intro!: same_heap_trans [OF same_heap_ops(1) same_heap_ops(1)] split: sum.splits option.splits)

lemma server_ok_new: "server_ok (Server_new a c k)"
  by (simp add: Server_new_def server_ok_def world_ok_def refs_ok_def refs_def cbs_ok_def lessThan_def)

lemma onNewConnection_ok:
  assumes "server_ok s" and "Server_onNewConnection env k a s = Inr s'"
  shows "server_ok s'"
proof -
  have "filter (\<lambda>p. p \<noteq> None) (sv_sessions s) = sv_sessions s"
    using assms(1) by (simp add: server_ok_def)
  moreover obtain i s1 where new: "ProxySession_new env k (sv_certGen s) True s = (i, s1)"
    by (cases "ProxySession_new env k (sv_certGen s) True s")
  ultimately have run: "rbind (if sv_payloadInspector s1 then ProxySession_setPayloadInspector i s1 else Inr s1)
      (\<lambda>s. ProxySession_start i (s\<lparr>sv_sessions := sv_sessions s @ [Some i]\<rparr>)) = Inr s'"
    using assms(2) by (simp add: Server_onNewConnection_def)
  have wd: "world_ok (surroundings s) s" using assms(1) by (simp add: server_ok_def)
  note eff = world_new [OF wd new]
  have same: "sv_sessions s1 = sv_sessions s"
    using eff(4) more_sessions [of s1 s] by (simp add: outside_def)
  have insp: "post (world_ok (surroundings s1)) (if sv_payloadInspector s1 then ProxySession_setPayloadInspector i s1 else Inr s1)"
    using frozen_world [OF post_upd [OF world_frozen [OF eff(1)]]] eff(1)
    by (simp add: ProxySession_setPayloadInspector_def post_Inr)
  obtain s2 where s2: "(if sv_payloadInspector s1 then ProxySession_setPayloadInspector i s1 else Inr s1) = Inr s2"
      "ProxySession_start i (s2\<lparr>sv_sessions := sv_sessions s2 @ [Some i]\<rparr>) = Inr s'"
    using run by (auto simp: res_iff)
  have wd2: "world_ok (surroundings s1) s2" using postD [OF insp s2(1)] .
  then have sur: "surroundings s2 = surroundings s1" by (simp add: world_ok_def)
  let ?s3 = "s2\<lparr>sv_sessions := sv_sessions s2 @ [Some i]\<rparr>"
  have "sv_sessions s2 = sv_sessions s" "px_nextSession s2 = Suc i" "dom (px_sessions s2) = insert i (dom (px_sessions s))"
    using sur more_sessions [of s2 s1] same eff(2,4) by (auto simp: surroundings_def outside_def)
  then have "server_ok ?s3"
    using assms(1) eff(3) wd2 refs_cong [of ?s3 s2] by (auto simp: server_ok_def world_ok_def)
  moreover from this have "world_ok (surroundings ?s3) s'"
    unfolding server_ok_def by (blast intro: postD [OF world_start s2(2)])
  ultimately show ?thesis by (rule server_ok_step)
qed

lemma onReadable_ok: "server_ok s \<Longrightarrow> post server_ok (Listener_onReadable os (Server_onNewConnection env) n s)"
proof (induction n arbitrary: s)
  case (Suc n)
  obtain r s1 where a: "Socket_accept os (li_socket (nw_listener s)) s = (r, s1)" by fastforce
  have s1: "server_ok s1" using Suc.prems same_heap_ok [OF same_heap_calls(1)] a by (metis snd_conv)
  have pause: "server_ok (Listener_pauseAccepting s1)" using s1 same_heap_ok [OF same_heap_ops(7)] by blast
  have drop: "server_ok (Socket_destroy k t)" if "server_ok t" for k t
    using that same_heap_ok [OF same_heap_ops(3)] by blast
  have acc: "post server_ok (if li_hasAccept (nw_listener t) then Server_onNewConnection env k b t
      else Inr (Socket_destroy k t))" if "server_ok t" for k b t
    using that drop by (auto intro!: post_Inr intro: postI onNewConnection_ok)
  show ?case
  proof (cases r)
    case (Inl e)
    then show ?thesis using a pause s1 Suc.IH [OF s1] by (auto intro: post_Inr)
  next
    case (Inr v)
    obtain k b where v: "v = (k, b)" by fastforce
    obtain r2 s2 where nb: "Socket_setNonblocking os k s1 = (r2, s2)" by fastforce
    have s2: "server_ok s2" using s1 same_heap_ok [OF same_heap_calls(2)] nb by (metis snd_conv)
    note rest = post_bind [OF acc [OF s2] Suc.IH, of "\<lambda>t. t"] Suc.IH [OF drop [OF s2]]
    show ?thesis using a Inr v nb rest by (cases r2) simp_all
  qed
qed (simp add: post_def)

lemma server_io_ok: "server_ok s \<Longrightarrow> post server_ok (server_io env cb ev s)"
proof (cases "cb = IoListener")
  case False
  assume "server_ok s"
  moreover have "post (world_ok (surroundings s)) (sess_io env cb ev s)"
    using \<open>server_ok s\<close> by (intro world_sess_io) (simp add: server_ok_def)
  ultimately show ?thesis using False server_ok_step by (cases cb) (auto simp: post_def)
qed (simp add: onReadable_ok)

interpretation sv: loop_run_invariant "server_io env" server_task server_ok for env
proof
  show "server_ok s \<Longrightarrow> server_io env cb ev s = Inr s' \<Longrightarrow> server_ok s'" for s s' cb ev
    using server_io_ok by (blast dest: postD)
  show "server_ok s \<Longrightarrow> server_task cb s = Inr s' \<Longrightarrow> server_ok s'" for s s' cb
    using same_heap_ok [OF same_heap_ops(6)] by (cases cb) auto
  show "server_ok s \<Longrightarrow> server_ok ((sys CWakeDrain s)\<lparr>el_posted := []\<rparr>)" for s
    by (subst same_heap_ok [of s]) (simp_all add: same_heap_def sys_def)
  show "server_ok s \<Longrightarrow> server_ok (s\<lparr>el_timers := (el_timers s)(i := None)\<rparr>)" for s i
    using same_heap_ok [OF same_heap_ops(11)] by blast
  show "server_ok s \<Longrightarrow> server_ok (foreign_call c s)" for s c
    using same_heap_ok [OF same_heap_ops(9)] by blast
qed
section \<open>Shutting down\<close>

lemma close_all_ok:
  fixes s :: "('p, 'a) proxy_scheme"
  assumes "world_ok g s" and "set ids \<subseteq> dom (px_sessions s)"
  shows "\<exists>s'. close_all (map Some ids) s = Inr s' \<and> world_ok g s' \<and>
    (\<forall>i \<in> set ids. \<not> open_session i s' \<and> (open_session i s \<longrightarrow> released i s')) \<and>
    (\<forall>j. open_session j s' \<longrightarrow> open_session j s) \<and> (\<forall>j. released j s \<longrightarrow> released j s')"
  using assms
proof (induction ids arbitrary: s)
  case (Cons i ids)
  obtain s1 where s1: "ProxySession_close i s = Inr s1" "world_ok g s1" "open_session i s \<longrightarrow> released i s1"
      "\<not> open_session i s1" "\<forall>j. open_session j s1 \<longrightarrow> open_session j s" "\<forall>j. released j s \<longrightarrow> released j s1"
      "\<forall>j. j \<noteq> i \<longrightarrow> open_session j s \<longrightarrow> open_session j s1"
    using close_one [OF Cons.prems(1), of i] Cons.prems(2) by auto
  have "dom (px_sessions s1) = dom (px_sessions s)"
    using s1(2) Cons.prems(1) unfolding world_ok_def surroundings_def by (metis surroundings.inject)
  then obtain s2 where s2: "close_all (map Some ids) s1 = Inr s2" "world_ok g s2"
      "\<forall>i \<in> set ids. \<not> open_session i s2 \<and> (open_session i s1 \<longrightarrow> released i s2)"
      "\<forall>j. open_session j s2 \<longrightarrow> open_session j s1" "\<forall>j. released j s1 \<longrightarrow> released j s2"
    using Cons.IH [OF s1(2)] Cons.prems(2) by auto
  then show ?case using s1 by auto
qed simp
lemma run_loop_append:
  "run_loop io task ws s = Inr ((LoopWaiting, r), s1) \<Longrightarrow> run_loop io task (ws @ vs) s = run_loop io task vs s1"
proof (induction ws arbitrary: s)
  case (Cons w ws)
  then show ?case by (auto simp: Let_def res_iff split: sum.splits if_splits)
qed (simp split: if_splits)

lemma run_loop_waiting: "run_loop io task ws s = Inr ((LoopWaiting, r), s1) \<Longrightarrow> el_running s1"
proof (induction ws arbitrary: s)
  case (Cons w ws)
  then show ?case by (auto simp: Let_def res_iff split: sum.splits if_splits)
qed (simp split: if_splits)

lemma stop_listener:
  "same_heap s (Listener_stop s)" "\<not> Socket_valid (li_socket (nw_listener (Listener_stop s)))"
proof -
  show "same_heap s (Listener_stop s)"
    by (auto simp: Listener_stop_def Let_def case_prod_beta
        intro!: same_heap_trans [OF same_heap_ops(4) same_heap_trans [OF same_heap_ops(8) same_heap_ops(2)]])
  show "\<not> Socket_valid (li_socket (nw_listener (Listener_stop s)))"
    by (simp add: Listener_stop_def Let_def case_prod_beta put_socket_def Socket_close_def Socket_valid_def)
qed

lemma shut_down_ok:
  assumes "server_ok s"
  shows "\<exists>s'. shut_down s = Inr s' \<and> sv_sessions s' = [] \<and> \<not> Socket_valid (li_socket (nw_listener s')) \<and>
    dom (px_sessions s') = dom (px_sessions s) \<and> (\<forall>i. \<not> open_session i s') \<and> (\<forall>i. open_session i s \<longrightarrow> released i s')"
proof -
  define s1 where "s1 = Listener_stop s"
  have heap: "same_heap s s1" and inval: "\<not> Socket_valid (li_socket (nw_listener s1))"
    using stop_listener by (simp_all add: s1_def)
  have ok: "server_ok s1" using assms same_heap_ok [OF heap] by blast
  have wd: "world_ok (surroundings s1) s1" and ids: "sv_sessions s1 = map Some [0..<px_nextSession s1]"
      "dom (px_sessions s1) = {..<px_nextSession s1}"
    using ok by (simp_all add: server_ok_def)
  obtain s2 where s2: "close_all (sv_sessions s1) s1 = Inr s2" "world_ok (surroundings s1) s2"
      "\<forall>i \<in> {..<px_nextSession s1}. \<not> open_session i s2 \<and> (open_session i s1 \<longrightarrow> released i s2)"
    using close_all_ok [OF wd, of "[0..<px_nextSession s1]"] ids by (auto simp: atLeast0LessThan)
  have sur: "surroundings s2 = surroundings s1" using s2(2) by (simp add: world_ok_def)
  then have "dom (px_sessions s2) = {..<px_nextSession s1}" "nw_listener s2 = nw_listener s1"
    using ids by (simp_all add: surroundings_def outside_def)
  moreover have opn: "open_session i (s\<lparr>sv_sessions := l\<rparr>) = open_session i s" "released i (s\<lparr>sv_sessions := l\<rparr>) = released i s"
    for i l and s :: "'a server"
    by (simp_all add: open_session_def released_def held_fds_def conn_fds_def tls_fds_def)
  moreover have "\<not> open_session i s2" "open_session i s1 \<Longrightarrow> released i s2" for i
    using s2(3) ids \<open>dom (px_sessions s2) = _\<close> unfolding open_session_def by blast+
  moreover have "open_session i s = open_session i s1" for i using heap by (simp add: open_session_def same_heap_def)
  moreover have "dom (px_sessions s1) = dom (px_sessions s)" using heap by (simp add: same_heap_def)
  ultimately show ?thesis using s2(1) inval ids(2) by (simp add: shut_down_def s1_def [symmetric] Let_def)
qed

lemma same_heap_setup [simp]:
  "same_heap s (snd (Socket_createSocket os a s))" "same_heap s (snd (Socket_assign k l s))"
  "same_heap s (snd (Socket_setReuseAddr os k s))" "same_heap s (snd (Socket_bindAndListen os a n k s))"
  by (auto simp: Socket_createSocket_def Socket_assign_def Socket_setReuseAddr_def Socket_bindAndListen_def
      suppressSigpipe_def Let_def case_prod_beta intro!: same_heap_trans [OF same_heap_ops(1) same_heap_ops(1)]
      split: sum.splits option.splits)

lemma same_heap_start: "same_heap s (snd (Listener_start os s))"
proof -
  let ?s = "s\<lparr>nw_listener := (nw_listener s)\<lparr>li_hasAccept := True\<rparr>\<rparr>" and ?a = "li_bindAddr (nw_listener s)"
  obtain r1 s1 where c1: "Socket_createSocket os ?a ?s = (r1, s1)" by fastforce
  have h1: "same_heap s s1" using same_heap_trans [OF same_heap_ops(12) same_heap_setup(1)] c1 by (metis snd_conv)
  show ?thesis
  proof (cases r1)
    case (Inr k)
    obtain k1 k2 s2 where c2: "Socket_assign (li_socket (nw_listener s1)) k s1 = ((k1, k2), s2)" by (metis surj_pair)
    obtain r3 s3 where c3: "Socket_setReuseAddr os k1 (put_socket k1 s2) = (r3, s3)" by fastforce
    obtain r4 s4 where c4: "Socket_setNonblocking os k1 s3 = (r4, s4)" by fastforce
    obtain r5 s5 where c5: "Socket_bindAndListen os ?a SOMAXCONN k1 s4 = (r5, s5)" by fastforce
    have h3: "same_heap s s3"
      using same_heap_trans [OF h1 same_heap_trans [OF same_heap_setup(2) same_heap_trans [OF same_heap_ops(2) same_heap_setup(3)]]]
        c2 c3 by (metis snd_conv)
    have h4: "same_heap s s4" using same_heap_trans [OF h3 same_heap_calls(2)] c4 by (metis snd_conv)
    have h5: "same_heap s s5" using same_heap_trans [OF h4 same_heap_setup(4)] c5 by (metis snd_conv)
    show ?thesis using c1 Inr c2 c3 c4 c5 h3 h4 h5 same_heap_trans [OF h5 same_heap_ops(5)]
      by (cases r3; cases r4; cases r5) (simp_all add: Listener_start_def watch_listener_def)
  qed (use c1 h1 in \<open>simp add: Listener_start_def\<close>)
qed
lemma same_heap_members:
  "set_loop env fds s = Inr s' \<Longrightarrow> same_heap s s'" "load_ca env s = Inr s' \<Longrightarrow> same_heap s s'"
  "set_listener s = Inr s' \<Longrightarrow> same_heap s s'"
proof -
  have "same_heap s ((KqueueLoop.extend l (KqueueLoop.more s))\<lparr>pf_calls := cs, sv_hasLoop := b\<rparr>)" for l cs b
    by (cases s) (simp add: same_heap_def KqueueLoop.defs)
  then show "set_loop env fds s = Inr s' \<Longrightarrow> same_heap s s'" by (auto simp: set_loop_def res_iff)
  show "load_ca env s = Inr s' \<Longrightarrow> same_heap s s'" "set_listener s = Inr s' \<Longrightarrow> same_heap s s'"
    by (auto simp: load_ca_def set_listener_def same_heap_def split: if_splits sum.splits)
qed

text \<open>The state in which the loop of a server starts.\<close>

definition server_started :: "'p env \<Rightarrow> loop_fds \<Rightarrow> 'p server \<Rightarrow> 'p server \<Rightarrow> bool" where
  "server_started env fds s0 s3 \<longleftrightarrow>
     (\<exists>s1 s2 s. set_loop env fds s0 = Inr s1 \<and> load_ca env s1 = Inr s2 \<and> set_listener s2 = Inr s \<and>
        Listener_start (ev_os env) s = (Inr (), s3))"

lemma started_ok: "server_started env fds s0 s3 \<Longrightarrow> server_ok s0 \<Longrightarrow> server_ok s3"
proof -
  assume "server_started env fds s0 s3"
  then obtain s1 s2 s where st: "set_loop env fds s0 = Inr s1" "load_ca env s1 = Inr s2" "set_listener s2 = Inr s"
      "Listener_start (ev_os env) s = (Inr (), s3)" by (auto simp: server_started_def)
  have "same_heap s s3" using same_heap_start [of s "ev_os env"] st(4) by simp
  then have "same_heap s0 s3" using same_heap_members(1) [OF st(1)] same_heap_members(2) [OF st(2)] same_heap_members(3) [OF st(3)]
    by (blast intro: same_heap_trans)
  then show "server_ok s0 \<Longrightarrow> server_ok s3" using same_heap_ok by blast
qed

lemma run_started:
  assumes "server_started env fds s0 s3"
  shows "Server_run env fds ws s0 = rbind (KqueueLoop_run (server_io env) server_task ws s3) (\<lambda>((exit, _), s).
     if exit = LoopWaiting then Inr (Blocked, s) else rbind (shut_down s) (\<lambda>s. Inr (Returned (Inr ()), s)))"
  using assms by (auto simp: server_started_def Server_run_def)

lemma run_reached:
  assumes "Server_run env fds ws s0 = Inr (r, s)" and "\<forall>e. r \<noteq> Returned (Inl e)"
  obtains s3 where "server_started env fds s0 s3"
proof -
  obtain s1 where s1: "set_loop env fds s0 = Inr s1" using assms(1) by (auto simp: Server_run_def res_iff)
  obtain s2 where s2: "load_ca env s1 = Inr s2"
    using assms s1 by (cases "load_ca env s1") (auto simp: Server_run_def)
  obtain t where t: "set_listener s2 = Inr t" using assms(1) s1 s2 by (auto simp: Server_run_def res_iff)
  obtain r3 s3 where l: "Listener_start (ev_os env) t = (r3, s3)" by fastforce
  then have "r3 = Inr ()" using assms s1 s2 t by (cases r3) (auto simp: Server_run_def)
  then show thesis using that s1 s2 t l by (auto simp: server_started_def)
qed

lemma run_keeps_ok:
  assumes "server_started env fds s0 s3" and "server_ok s0"
    and "KqueueLoop_run (server_io env) server_task ws s3 = Inr (x, s)"
  shows "server_ok s"
proof -
  have "server_ok (s3\<lparr>el_running := True\<rparr>)"
    using started_ok [OF assms(1,2)] same_heap_ok [OF same_heap_ops(10)] by blast
  then show ?thesis using sv.loop_inv assms(3) unfolding KqueueLoop_run_def by blast
qed


text \<open>
  C9: \<^verbatim>\<open>stop()\<close> from a signal handler ends the server. Whatever a server has done so far, when a signal
  interrupts its wait and the handler calls \<^verbatim>\<open>stop()\<close>, then \<^verbatim>\<open>run()\<close> returns successfully: the listening
  socket is closed, no session is open any more, and every session that was open has closed its
  connections and all the descriptors it held.
\<close>

theorem stop_shuts_down:
  assumes "Server_run env fds ws s0 = Inr (Blocked, s)"
    and "s0 = Server_new a c k \<or> s0 = Server_setPayloadInspector (Server_new a c k)"
  shows "\<exists>s'. Server_run env fds (ws @ [\<lparr>kw_foreign = [FStop], kw_result = Inl EINTR\<rparr>]) s0 = Inr (Returned (Inr ()), s') \<and>
    sv_sessions s' = [] \<and> \<not> Socket_valid (li_socket (nw_listener s')) \<and>
    (\<forall>i x. px_sessions s' i = Some x \<longrightarrow> ps_closed x) \<and>
    (\<forall>i x. px_sessions s i = Some x \<longrightarrow> \<not> ps_closed x \<longrightarrow> (\<exists>x'. px_sessions s' i = Some x' \<and> held_fds x' s' = {#}))"
proof -
  have ok0: "server_ok s0" using assms(2) server_ok_new [of a c k] same_heap_ok [of "Server_new a c k" s0]
    by (auto simp: same_heap_def Server_setPayloadInspector_def)
  obtain s3 where st: "server_started env fds s0 s3" using run_reached [OF assms(1)] by auto
  obtain r where run: "KqueueLoop_run (server_io env) server_task ws s3 = Inr ((LoopWaiting, r), s)"
    using assms(1) run_started [OF st, of ws] by (auto simp: res_iff split: if_splits)
  have ok: "server_ok s" by (rule run_keeps_ok [OF st ok0 run])
  let ?w = "\<lparr>kw_foreign = [FStop], kw_result = Inl EINTR\<rparr> :: sess_cb net_cb kwait"
  have "KqueueLoop_run (server_io env) server_task (ws @ [?w]) s3 = Inr ((LoopStopped, []), KqueueLoop_stop s)"
    using run_loop_append [of "server_io env" server_task ws _ r s "[?w]"] run_loop_waiting run
    by (fastforce simp: KqueueLoop_run_def KqueueLoop_stop_def KqueueLoop_wake_def sys_def)
  moreover have "server_ok (KqueueLoop_stop s)"
    using ok same_heap_ok [OF same_heap_ops(9) [of s FStop]] by simp
  moreover have "open_session i (KqueueLoop_stop s) = open_session i s" for i
    using same_heap_ops(9) [of s FStop] by (simp add: open_session_def same_heap_def)
  ultimately show ?thesis
    using shut_down_ok [of "KqueueLoop_stop s"] run_started [OF st, of "ws @ [?w]"]
    unfolding open_session_def released_def by fastforce
qed
section \<open>Accepting clients\<close>

text \<open>Session \<open>i\<close> reads its client on the descriptor \<open>f\<close>.\<close>

definition reads_client :: "nat \<Rightarrow> fd \<Rightarrow> ('p, 'a) proxy_scheme \<Rightarrow> bool" where
  "reads_client i f s \<longleftrightarrow> (\<exists>x c y. px_sessions s i = Some x \<and> \<not> ps_closed x \<and> ps_client x = Some c \<and>
     nw_conns s c = Some y \<and> co_socket y = Socket_of_fd f \<and> co_reading y \<and> \<not> co_closed y \<and>
     co_onData y = Some (ScClientData i) \<and> c < nw_nextConn s \<and>
     el_fdEntries s f = Some \<lparr>fe_events = Readable, fe_callback = IoConnection c\<rparr>)"

lemma Buffer_new_empty [simp]: "Buffer_empty Buffer_new"
  by (simp add: Buffer_new_def Buffer_empty_def Buffer_length_def)

text \<open>What one new connection changes, and what it leaves alone.\<close>

definition accepted :: "fd \<Rightarrow> 'p server \<Rightarrow> 'p server \<Rightarrow> bool" where
  "accepted f s s' \<longleftrightarrow> accepts (pf_calls s') = accepts (pf_calls s) \<and> nw_listener s' = nw_listener s \<and>
     el_running s' = el_running s \<and> px_nextSession s' = Suc (px_nextSession s) \<and> reads_client (px_nextSession s) f s' \<and>
     sv_sessions s' = filter (\<lambda>p. p \<noteq> None) (sv_sessions s) @ [Some (px_nextSession s)] \<and>
     nw_nextConn s \<le> nw_nextConn s' \<and>
     (\<forall>j. j < px_nextSession s \<longrightarrow> px_sessions s' j = px_sessions s j) \<and>
     (\<forall>c. c < nw_nextConn s \<longrightarrow> nw_conns s' c = nw_conns s c) \<and> (\<forall>g. g \<noteq> f \<longrightarrow> el_fdEntries s' g = el_fdEntries s g)"

lemma onNewConnection_effect: "\<exists>s'. Server_onNewConnection env (Socket_of_fd f) a s = Inr s' \<and> accepted f s s'"
  by (cases "el_fdEntries s f"; cases "os_nonblock (ev_os env) (pf_calls s) f")
    (simp_all add: accepted_def Server_onNewConnection_def ProxySession_new_def Socket_setNonblocking_def Let_def
      Connection_new_def put_conn_def put_sess_def ProxySession_setPayloadInspector_def upd_sess_def with_sess_def ProxySession_start_def
      Connection_onData_def Connection_onClose_def Connection_onError_def with_conn_def Connection_startRead_def
      Connection_updateEvents_def wanted_events_def reads_client_def Socket_of_fd_def KqueueLoop_watch_def
      KqueueLoop_remove_def sys_def)

lemma reads_client_frame:
  assumes "accepted f s s'" and "reads_client i g s" and "g \<noteq> f" and "i < px_nextSession s"
  shows "reads_client i g s'"
  using assms unfolding accepted_def reads_client_def by fastforce
interpretation svacc: accept_owner "Server_onNewConnection env" for env
  by unfold_locales (use onNewConnection_effect accepted_def in metis)

lemma accept_calls_frame [simp]:
  "sv_sessions (sys c (s :: 'p server)) = sv_sessions s"
  "el_fdEntries (sys c t) = el_fdEntries t" "el_running (sys c t) = el_running t" "el_wakeReadFd (sys c t) = el_wakeReadFd t"
  by (simp_all add: sys_def)

lemma reads_client_sys [simp]: "reads_client i f (sys c s) = reads_client i f s"
  by (simp add: reads_client_def)

lemma serve_clients_sessions:
  assumes "distinct (map fst cs)" and "None \<notin> set (sv_sessions s)" and "serve_clients (Server_onNewConnection env) cs s = Inr s'"
  shows "el_running s' = el_running s \<and> px_nextSession s' = px_nextSession s + length cs \<and>
    sv_sessions s' = sv_sessions s @ map Some [px_nextSession s..<px_nextSession s + length cs] \<and>
    (\<forall>j < length cs. reads_client (px_nextSession s + j) (fst (cs ! j)) s') \<and>
    (\<forall>i g. i < px_nextSession s \<longrightarrow> g \<notin> fst ` set cs \<longrightarrow> reads_client i g s \<longrightarrow> reads_client i g s')"
  using assms
proof (induction cs arbitrary: s)
  case (Cons c cs)
  obtain f sa len where c: "c = (f, sa, len)" by (cases c)
  let ?s = "sys (CFcntl f) (sys (CNoSigpipe f) (sys (CAccept (listener_fd s) (Inr f)) s))"
  obtain s1 where s1: "Server_onNewConnection env (Socket_of_fd f) (Address_fromSockaddr sa len) ?s = Inr s1" "accepted f ?s s1"
    using onNewConnection_effect by blast
  have rest: "serve_clients (Server_onNewConnection env) cs s1 = Inr s'" using Cons.prems(3) c s1(1) by simp
  have fil: "filter (\<lambda>p. p \<noteq> None) (sv_sessions s) = sv_sessions s"
    using Cons.prems(2) by (intro filter_True) metis
  let ?n = "px_nextSession s"
  have eff: "px_nextSession s1 = Suc ?n" "sv_sessions s1 = sv_sessions s @ [Some ?n]" "reads_client ?n f s1"
    using s1(2) fil by (simp_all add: accepted_def)
  have IH: "px_nextSession s' = Suc ?n + length cs"
      "sv_sessions s' = sv_sessions s1 @ map Some [Suc ?n..<Suc ?n + length cs]"
      "\<And>j. j < length cs \<Longrightarrow> reads_client (Suc ?n + j) (fst (cs ! j)) s'"
      "\<And>i g. i < Suc ?n \<Longrightarrow> g \<notin> fst ` set cs \<Longrightarrow> reads_client i g s1 \<Longrightarrow> reads_client i g s'"
      "el_running s' = el_running s1"
    using Cons.IH [OF _ _ rest] Cons.prems(1,2) eff by (auto simp: add.commute)
  have f: "f \<notin> fst ` set cs" using Cons.prems(1) c by auto
  have "reads_client (?n + j) (fst ((c # cs) ! j)) s'" if "j < length (c # cs)" for j
    using that IH(3) IH(4) [OF _ f eff(3)] c by (cases j) auto
  moreover have "reads_client i g s'" if "i < ?n" "g \<notin> fst ` set (c # cs)" "reads_client i g s" for i g
    using that IH(4) [of i g] reads_client_frame [OF s1(2), of i g] c by auto
  moreover have "sv_sessions s' = sv_sessions s @ map Some [?n..<?n + length (c # cs)]"
    using IH(2) eff(2) upt_conv_Cons [of ?n "?n + length (c # cs)"] by (simp del: upt_Suc)
  ultimately show ?case using IH(1,5) s1(2) by (simp add: accepted_def)
qed simp

text \<open>
  C11: when the listener is readable, the server accepts every client in the backlog and starts a
  session for each, in the order in which they arrived: the session is open, watches the client's
  descriptor for reading, and its data callback is the session's.
\<close>

theorem server_accepts:
  assumes "answers (ev_os env) answer" and "li_hasAccept (nw_listener s)" and "None \<notin> set (sv_sessions s)"
    and "\<And>i. i < length cs \<Longrightarrow> answer (accepts (pf_calls s) + i) = Inr (cs ! i)"
    and "answer (accepts (pf_calls s) + length cs) = Inl EAGAIN" and "length cs < ev_fuel env"
    and "distinct (map fst cs)"
  shows "\<exists>s'. server_io env IoListener fired s = Inr s' \<and>
     sv_sessions s' = sv_sessions s @ map Some [px_nextSession s..<px_nextSession s + length cs] \<and>
     (\<forall>j < length cs. reads_client (px_nextSession s + j) (fst (cs ! j)) s')"
proof -
  obtain s' where s': "serve_clients (Server_onNewConnection env) cs s = Inr s'"
      "Listener_onReadable (ev_os env) (Server_onNewConnection env) (ev_fuel env) s = Inr (sys (CAccept (listener_fd s) (Inl EAGAIN)) s')"
    using svacc.onReadable_serves [OF assms(1,2) _ assms(5,6)] assms(4) by blast
  from serve_clients_sessions [OF assms(7,3) s'(1)] show ?thesis using s'(2) by simp
qed
section \<open>A sample run\<close>

text \<open>A kernel with one client in its backlog, and a loop that is told that the listener is readable.\<close>

abbreviation sample_client :: "fd \<times> sockaddr \<times> nat" where
  "sample_client \<equiv> (10, \<lparr>ss_family = 2, ss_port = 0, ss_host = []\<rparr>, 16)"

definition sample_answer :: "nat \<Rightarrow> errno + fd \<times> sockaddr \<times> nat" where
  "sample_answer n = (if n = 0 then Inr sample_client else Inl EAGAIN)"

definition sample_env :: "unit env" where
  "sample_env = \<lparr>ev_os = quiet_os\<lparr>os_accept := (\<lambda>h f. sample_answer (accepts h))\<rparr>, ev_lib = quiet_ssl, ev_x509 = sample_x509,
     ev_ll = \<lparr>ll_init = (\<lambda>_. ()), ll_execute = (\<lambda>_ _. ((), [], HPE_OK))\<rparr>, ev_fuel = 5\<rparr>"

definition sample_fds :: loop_fds where
  "sample_fds = \<lparr>lf_kqueue = Inr 3, lf_pipe = Inr (4, 5)\<rparr>"

definition client_arrives :: "sess_cb net_cb kwait list" where
  "client_arrives = [\<lparr>kw_foreign = [], kw_result = Inr [\<lparr>ke_filter = EVFILT_READ, ke_ident = uintptr 9, ke_eof = False\<rparr>]\<rparr>]"

abbreviation sample_server :: "unit server" where
  "sample_server \<equiv> Server_new Address_new [] []"

lemma start_listens:
  assumes "\<And>h a. os_socket os h a = Inr f" and "\<And>h k. os_reuseaddr os h k = None" and "\<And>h k. os_nonblock os h k = None"
    and "\<And>h k a. os_bind os h k a = None" and "\<And>h k n. os_listen os h k n = None"
    and "\<not> Socket_valid (li_socket (nw_listener s))"
  obtains s' where "Listener_start os s = (Inr (), s')" "li_hasAccept (nw_listener s')"
    "accepts (pf_calls s') = accepts (pf_calls s)" "el_wakeReadFd s' = el_wakeReadFd s"
    "el_fdEntries s' f = Some \<lparr>fe_events = Readable, fe_callback = IoListener\<rparr>"
proof -
  have "accepts (pf_calls (KqueueLoop_watch k ev cb t)) = accepts (pf_calls t)" for k ev cb and t :: "('a, 'b) net_scheme"
    by (simp add: KqueueLoop_watch_def KqueueLoop_remove_def Let_def sys_def split: option.splits)
  moreover have "nw_listener (KqueueLoop_watch k ev cb t) = nw_listener t" for k ev cb and t :: "('a, 'b) net_scheme"
    by (simp add: KqueueLoop_watch_def KqueueLoop_remove_def Let_def sys_def split: option.splits)
  ultimately have "\<exists>s'. Listener_start os s = (Inr (), s') \<and> li_hasAccept (nw_listener s') \<and>
    accepts (pf_calls s') = accepts (pf_calls s) \<and> el_wakeReadFd s' = el_wakeReadFd s \<and>
    el_fdEntries s' f = Some \<lparr>fe_events = Readable, fe_callback = IoListener\<rparr>"
    using assms(6)
    by (simp add: assms(1-5) Listener_start_def Socket_createSocket_def Let_def suppressSigpipe_def Socket_of_fd_def
      Socket_assign_def Socket_move_def Socket_swap_def Socket_destroy_def Socket_close_def Socket_valid_def put_socket_def
      Socket_setReuseAddr_def Socket_setNonblocking_def Socket_bindAndListen_def watch_listener_def listener_fd_def)
  then show thesis using that by blast
qed

lemma sample_started:
  obtains s where "server_started sample_env sample_fds sample_server s" "li_hasAccept (nw_listener s)"
    "accepts (pf_calls s) = 0" "sv_sessions s = []" "px_nextSession s = 0" "el_wakeReadFd s = 4"
    "el_fdEntries s 9 = Some \<lparr>fe_events = Readable, fe_callback = IoListener\<rparr>"
proof -
  obtain s1 where s1: "set_loop sample_env sample_fds sample_server = Inr s1" "el_wakeReadFd s1 = 4" "accepts (pf_calls s1) = 0"
      "sv_caCertPath s1 = []" "\<not> sv_hasListener s1"
    by (simp add: set_loop_def EventLoop_create_def KqueueLoop_new_def sample_fds_def Server_new_def KqueueLoop.defs)
  let ?s = "s1\<lparr>nw_listener := Listener_new (sv_listenAddr s1), sv_hasListener := True\<rparr>"
  have s2: "load_ca sample_env s1 = Inr s1" "set_listener s1 = Inr ?s" using s1(4,5) by (simp_all add: load_ca_def set_listener_def)
  obtain s3 where s3: "Listener_start (ev_os sample_env) ?s = (Inr (), s3)" "li_hasAccept (nw_listener s3)"
    "accepts (pf_calls s3) = accepts (pf_calls ?s)" "el_wakeReadFd s3 = el_wakeReadFd ?s"
    "el_fdEntries s3 9 = Some \<lparr>fe_events = Readable, fe_callback = IoListener\<rparr>"
    by (rule start_listens [of "ev_os sample_env" 9 ?s])
      (simp_all add: sample_env_def quiet_os_def Listener_new_def Socket_new_def Socket_valid_def)
  have "same_heap ?s s3" using same_heap_start [of ?s "ev_os sample_env"] s3(1) by simp
  moreover have "same_heap sample_server s1" by (rule same_heap_members(1) [OF s1(1)])
  ultimately have "px_nextSession s3 = 0" "sv_sessions s3 = []" by (simp_all add: same_heap_def Server_new_def)
  then show thesis using that [of s3] s1 s2 s3 by (auto simp: server_started_def)
qed

lemma sample_kernel: "answers (ev_os sample_env) sample_answer" "ev_fuel sample_env = 5"
  by (simp_all add: answers_def sample_env_def quiet_os_def)

lemma sample_run:
  obtains s where "Server_run sample_env sample_fds client_arrives sample_server = Inr (Blocked, s)" "open_session 0 s"
proof -
  obtain s3 where s3: "server_started sample_env sample_fds sample_server s3" "li_hasAccept (nw_listener s3)"
    "accepts (pf_calls s3) = 0" "sv_sessions s3 = []" "px_nextSession s3 = 0" "el_wakeReadFd s3 = 4"
    "el_fdEntries s3 9 = Some \<lparr>fe_events = Readable, fe_callback = IoListener\<rparr>" by (rule sample_started)
  let ?s = "s3\<lparr>el_running := True\<rparr>"
  obtain s' where s': "serve_clients (Server_onNewConnection sample_env) [sample_client] ?s = Inr s'"
      "Listener_onReadable (ev_os sample_env) (Server_onNewConnection sample_env) 5 ?s = Inr (sys (CAccept (listener_fd ?s) (Inl EAGAIN)) s')"
    using svacc.onReadable_serves [OF sample_kernel(1), of ?s "[sample_client]" 5 sample_env] s3 by (auto simp: sample_answer_def)
  have "distinct (map fst [sample_client])" "None \<notin> set (sv_sessions ?s)" using s3(4) by simp_all
  from serve_clients_sessions [OF this s'(1)] have rd: "reads_client 0 10 s'" "el_running s'" using s3(5) by simp_all
  have fd: "fd_of (uintptr 9) = 9" by (simp add: fd_ok_def)
  have "KqueueLoop_run (server_io sample_env) server_task client_arrives s3
      = Inr ((LoopWaiting, []), sys (CAccept (listener_fd ?s) (Inl EAGAIN)) s')"
    using s'(2) s3 fd rd(2) by (simp add: KqueueLoop_run_def client_arrives_def KqueueLoop_event_def sample_kernel(2) sys_def)
  then show thesis using that rd(1) run_started [OF s3(1), of client_arrives] by (auto simp: open_session_def reads_client_def)
qed
section \<open>Command line\<close>

datatype main_option = OptPort nat | OptCaCert string | OptCaKey string | OptModel string

fun print_option :: "main_option \<Rightarrow> string list" where
  "print_option (OptPort n) = [''--port'', dec n]"
| "print_option (OptCaCert p) = [''--ca-cert'', p]"
| "print_option (OptCaKey p) = [''--ca-key'', p]"
| "print_option (OptModel p) = [''--model'', p]"

fun set_option_of :: "main_option \<Rightarrow> main_config \<Rightarrow> main_config" where
  "set_option_of (OptPort n) c = c\<lparr>mc_port := of_nat n\<rparr>"
| "set_option_of (OptCaCert p) c = c\<lparr>mc_caCert := p\<rparr>"
| "set_option_of (OptCaKey p) c = c\<lparr>mc_caKey := p\<rparr>"
| "set_option_of (OptModel p) c = c\<lparr>mc_modelPath := p\<rparr>"

text \<open>
  The options of the program are read back as they are given, in any number and order, the last one
  winning; an argument of an option is taken as it is, even when it looks like an option.
\<close>

theorem parse_args_options:
  assumes "\<And>n. OptPort n \<in> set opts \<Longrightarrow> n < 2 ^ 31"
  shows "parse_args (concat (map print_option opts)) c = Inr (Some (fold set_option_of opts c))"
  using assms
proof (induction opts arbitrary: c)
  case (Cons opt opts)
  show ?case
  proof (cases opt)
    case (OptPort n)
    then have "n < 2 ^ 31" using Cons.prems by simp
    then show ?thesis using OptPort Cons by (simp add: stoi_dec)
  qed (use Cons in simp_all)
qed simp

theorem parse_args_options_witness:
  "parse_args [''--port'', dec 80, ''--ca-key'', ''--port''] default_config
    = Inr (Some (default_config\<lparr>mc_port := 80, mc_caKey := ''--port''\<rparr>))"
  using parse_args_options [of "[OptPort 80, OptCaKey ''--port'']" default_config] by auto

section \<open>Witnesses\<close>


theorem stop_shuts_down_witness:
  "\<exists>s s' x'. Server_run sample_env sample_fds client_arrives sample_server = Inr (Blocked, s) \<and> open_session 0 s \<and>
    Server_run sample_env sample_fds (client_arrives @ [\<lparr>kw_foreign = [FStop], kw_result = Inl EINTR\<rparr>]) sample_server
      = Inr (Returned (Inr ()), s') \<and> px_sessions s' 0 = Some x' \<and> ps_closed x' \<and> held_fds x' s' = {#}"
proof (rule sample_run)
  fix s assume s: "Server_run sample_env sample_fds client_arrives sample_server = Inr (Blocked, s)" "open_session 0 s"
  from stop_shuts_down [OF s(1) disjI1 [OF refl]] s show ?thesis unfolding open_session_def by blast
qed

theorem server_accepts_witness:
  "\<exists>s s'. server_started sample_env sample_fds sample_server s \<and> server_io sample_env IoListener Readable s = Inr s' \<and>
    sv_sessions s' = [Some 0] \<and> reads_client 0 10 s'"
proof (rule sample_started)
  fix s assume s: "server_started sample_env sample_fds sample_server s" "li_hasAccept (nw_listener s)"
    "accepts (pf_calls s) = 0" "sv_sessions s = []" "px_nextSession s = 0"
  have "\<exists>s'. server_io sample_env IoListener Readable s = Inr s' \<and>
     sv_sessions s' = sv_sessions s @ map Some [px_nextSession s..<px_nextSession s + length [sample_client]] \<and>
     (\<forall>j < length [sample_client]. reads_client (px_nextSession s + j) (fst ([sample_client] ! j)) s')"
    by (rule server_accepts [OF sample_kernel(1)]) (use s in \<open>simp_all add: sample_answer_def sample_kernel(2)\<close>)
  then show ?thesis using s by auto
qed

end
