(* ===== verification/Magika_Model.thy ===== *)
theory Magika_Model
  imports DS_Prelude
begin

text \<open>
  The content-type classifier (\<^verbatim>\<open>SeerLib/src/Magika/MagikaModel.cpp\<close>, \<^verbatim>\<open>MagikaEngine.cpp\<close>): loading the
  weight file, turning a payload into input tokens and the forward pass. Every \<^verbatim>\<open>v[i]\<close> of the code is a
  checked access of the model, with the index in \<^verbatim>\<open>uint32_t\<close> where the code computes it there. The type of
  floats and its operations are a parameter: the lemmas are about indices, sizes and bytes and hold for
  any arithmetic. The theorems: the tokens are the documented features, no access leaves an array when
  the weights have the documented sizes, a file written by the extraction tool loads back, and the sizes
  are not validated at loading.
\<close>

section \<open>Memory and loops\<close>

text \<open>\<^verbatim>\<open>v[i]\<close> as a value and as a target: outside of the vector it is undefined behaviour.\<close>

definition load_at :: "'a list \<Rightarrow> nat \<Rightarrow> fault + 'a" where
  "load_at xs i = (if i < length xs then Inr (xs ! i) else Inl UndefinedBehaviour)"

definition store_at :: "nat \<Rightarrow> 'a \<Rightarrow> 'a list \<Rightarrow> fault + 'a list" where
  "store_at i v xs = (if i < length xs then Inr (xs[i := v]) else Inl UndefinedBehaviour)"

fun for_each :: "('i \<Rightarrow> 's \<Rightarrow> fault + 's) \<Rightarrow> 'i list \<Rightarrow> 's \<Rightarrow> fault + 's" where
  "for_each f [] s = Inr s"
| "for_each f (i # is) s = rbind (f i s) (for_each f is)"

abbreviation for_upto :: "nat \<Rightarrow> (nat \<Rightarrow> 's \<Rightarrow> fault + 's) \<Rightarrow> 's \<Rightarrow> fault + 's" where
  "for_upto n f \<equiv> for_each f [0..<n]"

text \<open>Arithmetic on \<^verbatim>\<open>uint32_t\<close>.\<close>

definition w32 :: "nat \<Rightarrow> nat" where
  "w32 n = n mod 2 ^ 32"

text \<open>
  The single-precision operations of the language and of \<^verbatim>\<open>cmath\<close>. \<open>fp_lit m e\<close> is the literal
  \<open>m / 10 ^ e\<close>, \<open>fp_bytes\<close> reads the object representation.
\<close>

record 'f fp =
  fp_lit :: "nat \<Rightarrow> nat \<Rightarrow> 'f"
  fp_neg_inf :: 'f
  fp_add :: "'f \<Rightarrow> 'f \<Rightarrow> 'f"
  fp_sub :: "'f \<Rightarrow> 'f \<Rightarrow> 'f"
  fp_mul :: "'f \<Rightarrow> 'f \<Rightarrow> 'f"
  fp_div :: "'f \<Rightarrow> 'f \<Rightarrow> 'f"
  fp_less :: "'f \<Rightarrow> 'f \<Rightarrow> bool"
  fp_sqrt :: "'f \<Rightarrow> 'f"
  fp_exp :: "'f \<Rightarrow> 'f"
  fp_tanh :: "'f \<Rightarrow> 'f"
  fp_nat :: "nat \<Rightarrow> 'f"
  fp_bytes :: "byte list \<Rightarrow> 'f"

text \<open>\<^verbatim>\<open>std::max(a, b)\<close>\<close>

definition fp_max :: "'f fp \<Rightarrow> 'f \<Rightarrow> 'f \<Rightarrow> 'f" where
  "fp_max F a b = (if fp_less F a b then b else a)"

section \<open>The model\<close>

definition kBegSize :: nat where "kBegSize = 1024"
definition kEndSize :: nat where "kEndSize = 1024"
definition kInputLen :: nat where "kInputLen = kBegSize + kEndSize"
definition kVocabSize :: nat where "kVocabSize = 257"
definition kPaddingToken :: nat where "kPaddingToken = 256"
definition kEmbedDim :: nat where "kEmbedDim = 64"
definition kReshapedSeq :: nat where "kReshapedSeq = 512"
definition kReshapedDim :: nat where "kReshapedDim = 256"
definition kConvOut :: nat where "kConvOut = 512"
definition kKernelSize :: nat where "kKernelSize = 5"

definition kLnEps :: "'f fp \<Rightarrow> 'f" where
  "kLnEps F = fp_lit F 1 6"

record MagikaModelError =
  me_message :: string

record 'f MagikaModel =
  mm_embedWeight :: "'f list"
  mm_embedBias :: "'f list"
  mm_ln0Scale :: "'f list"
  mm_ln0Bias :: "'f list"
  mm_convWeight :: "'f list"
  mm_convBias :: "'f list"
  mm_ln1Scale :: "'f list"
  mm_ln1Bias :: "'f list"
  mm_outputWeight :: "'f list"
  mm_outputBias :: "'f list"
  mm_numClasses :: nat
  mm_labels :: "string list"

section \<open>Loading\<close>

text \<open>
  An \<^verbatim>\<open>ifstream\<close>: the bytes that are left and whether no read has failed. A read that runs into the end
  delivers what there is and fails; after that reads deliver nothing.
\<close>

record ifstream =
  is_rest :: "byte list"
  is_good :: bool

definition stream_read :: "nat \<Rightarrow> ifstream \<Rightarrow> byte list \<times> ifstream" where
  "stream_read n f =
     (if \<not> is_good f then ([], f)
      else if n \<le> length (is_rest f) then (take n (is_rest f), f\<lparr>is_rest := drop n (is_rest f)\<rparr>)
      else (is_rest f, \<lparr>is_rest = [], is_good = False\<rparr>))"

fun le_value :: "byte list \<Rightarrow> nat" where
  "le_value [] = 0"
| "le_value (b # bs) = unat b + 256 * le_value bs"

text \<open>\<^verbatim>\<open>readVal\<close> into a \<^verbatim>\<open>uint32_t\<close> that is 0 before (little-endian).\<close>

definition readVal :: "ifstream \<Rightarrow> nat \<times> ifstream" where
  "readVal f = (let (bs, f) = stream_read 4 f in (le_value bs, f))"

text \<open>\<open>alloc n\<close>: a vector or string of \<open>n\<close> elements can be allocated.\<close>

definition readString :: "(nat \<Rightarrow> bool) \<Rightarrow> ifstream \<Rightarrow> fault + string option \<times> ifstream" where
  "readString alloc f =
     (let (len, f) = readVal f
      in if \<not> is_good f then Inr (None, f)
         else if \<not> alloc len then Inl (Thrown BadAlloc)
         else (let (bs, f) = stream_read len f
               in Inr (if is_good f then Some (string_of_bytes bs) else None, f)))"

fun floats_of :: "'f fp \<Rightarrow> byte list \<Rightarrow> 'f list" where
  "floats_of F (a # b # c # d # bs) = fp_bytes F [a, b, c, d] # floats_of F bs"
| "floats_of F _ = []"

definition readFloats :: "'f fp \<Rightarrow> (nat \<Rightarrow> bool) \<Rightarrow> nat \<Rightarrow> ifstream \<Rightarrow> fault + 'f list option \<times> ifstream" where
  "readFloats F alloc count f =
     (if \<not> alloc count then Inl (Thrown BadAlloc)
      else (let (bs, f) = stream_read (count * 4) f
            in Inr (if is_good f then Some (floats_of F bs) else None, f)))"

fun read_shape :: "nat \<Rightarrow> ifstream \<Rightarrow> nat list \<times> ifstream" where
  "read_shape 0 f = ([], f)"
| "read_shape (Suc n) f = (let (d, f) = readVal f; (ds, f) = read_shape n f in (d # ds, f))"

text \<open>The product of the dimensions, in \<^verbatim>\<open>size_t\<close>.\<close>

definition shape_count :: "nat list \<Rightarrow> nat" where
  "shape_count shape = foldl (\<lambda>count d. (count * d) mod 2 ^ 64) 1 shape"

definition model_error :: "string \<Rightarrow> MagikaModelError" where
  "model_error m = \<lparr>me_message = m\<rparr>"

fun read_tensors ::
  "'f fp \<Rightarrow> (nat \<Rightarrow> bool) \<Rightarrow> nat \<Rightarrow> (string \<rightharpoonup> 'f list) \<Rightarrow> ifstream
     \<Rightarrow> fault + MagikaModelError + (string \<rightharpoonup> 'f list) \<times> ifstream" where
  "read_tensors F alloc 0 tensors f = Inr (Inr (tensors, f))"
| "read_tensors F alloc (Suc n) tensors f =
     rbind (readString alloc f) (\<lambda>(name, f).
       case name of
         None \<Rightarrow> Inr (Inl (model_error ''Failed reading tensor name''))
       | Some name \<Rightarrow>
           (let (numDims, f) = readVal f
            in if \<not> alloc numDims then Inl (Thrown BadAlloc)
               else
                 (let (shape, f) = read_shape numDims f
                  in rbind (readFloats F alloc (shape_count shape) f) (\<lambda>(td, f).
                       case td of
                         None \<Rightarrow> Inr (Inl (model_error (''Failed reading tensor data for: '' @ name)))
                       | Some td \<Rightarrow> read_tensors F alloc n (tensors(name \<mapsto> td)) f))))"

fun read_labels :: "(nat \<Rightarrow> bool) \<Rightarrow> nat \<Rightarrow> ifstream \<Rightarrow> fault + MagikaModelError + string list \<times> ifstream" where
  "read_labels alloc 0 f = Inr (Inr ([], f))"
| "read_labels alloc (Suc n) f =
     rbind (readString alloc f) (\<lambda>(l, f).
       case l of
         None \<Rightarrow> Inr (Inl (model_error ''Failed reading label''))
       | Some l \<Rightarrow>
           rbind (read_labels alloc n f) (\<lambda>r.
             case r of Inl e \<Rightarrow> Inr (Inl e) | Inr (ls, f) \<Rightarrow> Inr (Inr (l # ls, f))))"

definition required_tensors :: "string list" where
  "required_tensors = [''embed_weight'', ''embed_bias'', ''ln0_scale'', ''ln0_bias'', ''conv_weight'', ''conv_bias'',
     ''ln1_scale'', ''ln1_bias'', ''output_weight'', ''output_bias'']"

definition build_model :: "(string \<rightharpoonup> 'f list) \<Rightarrow> string list \<Rightarrow> MagikaModelError + 'f MagikaModel" where
  "build_model tensors labels =
     (if (\<exists>name \<in> set required_tensors. tensors name = None)
      then Inl (model_error ''Missing required tensors in model file'')
      else Inr \<lparr>mm_embedWeight = the (tensors ''embed_weight''), mm_embedBias = the (tensors ''embed_bias''),
                mm_ln0Scale = the (tensors ''ln0_scale''), mm_ln0Bias = the (tensors ''ln0_bias''),
                mm_convWeight = the (tensors ''conv_weight''), mm_convBias = the (tensors ''conv_bias''),
                mm_ln1Scale = the (tensors ''ln1_scale''), mm_ln1Bias = the (tensors ''ln1_bias''),
                mm_outputWeight = the (tensors ''output_weight''), mm_outputBias = the (tensors ''output_bias''),
                mm_numClasses = length labels, mm_labels = labels\<rparr>)"

text \<open>
  The file is \<open>None\<close> when it cannot be opened. Of a file of fewer than four bytes the code compares
  characters of the array \<^verbatim>\<open>magic\<close> that were never written.
\<close>

definition loadFromFile ::
  "'f fp \<Rightarrow> (nat \<Rightarrow> bool) \<Rightarrow> string \<Rightarrow> byte list option \<Rightarrow> fault + MagikaModelError + 'f MagikaModel" where
  "loadFromFile F alloc path file =
     (case file of
        None \<Rightarrow> Inr (Inl (model_error (''Cannot open model file: '' @ path)))
      | Some bytes \<Rightarrow>
          (let (magic, f) = stream_read 4 \<lparr>is_rest = bytes, is_good = True\<rparr>
           in if \<not> is_good f then Inl UndefinedBehaviour
              else if magic \<noteq> bytes_of_string ''DSMG'' then Inr (Inl (model_error ''Invalid magic in model file''))
              else
                (let (version, f) = readVal f
                 in if version \<noteq> 1 then Inr (Inl (model_error (''Unsupported model version: '' @ dec version)))
                    else
                      (let (numTensors, f) = readVal f
                       in rbind (read_tensors F alloc numTensors Map.empty f) (\<lambda>r.
                            case r of
                              Inl e \<Rightarrow> Inr (Inl e)
                            | Inr (tensors, f) \<Rightarrow>
                                (let (numLabels, f) = readVal f
                                 in if \<not> alloc numLabels then Inl (Thrown BadAlloc)
                                    else rbind (read_labels alloc numLabels f) (\<lambda>r.
                                           case r of
                                             Inl e \<Rightarrow> Inr (Inl e)
                                           | Inr (labels, f) \<Rightarrow> Inr (build_model tensors labels))))))))"

section \<open>Tokens\<close>

definition isWhitespace :: "byte \<Rightarrow> bool" where
  "isWhitespace b \<longleftrightarrow> b = 0x09 \<or> b = 0x0A \<or> b = 0x0B \<or> b = 0x0C \<or> b = 0x0D \<or> b = 0x20"

function skip_front :: "byte list \<Rightarrow> nat \<Rightarrow> nat" where
  "skip_front payload begStart =
     (if begStart < length payload \<and> isWhitespace (payload ! begStart) then skip_front payload (Suc begStart) else begStart)"
  by pat_completeness auto
termination by (relation "measure (\<lambda>(payload, begStart). length payload - begStart)") auto

declare skip_front.simps [simp del]

fun skip_back :: "byte list \<Rightarrow> nat \<Rightarrow> nat" where
  "skip_back payload 0 = 0"
| "skip_back payload (Suc endPos) = (if isWhitespace (payload ! endPos) then skip_back payload endPos else Suc endPos)"

definition copy_token :: "byte list \<Rightarrow> nat \<Rightarrow> nat \<Rightarrow> nat \<Rightarrow> nat list \<Rightarrow> fault + nat list" where
  "copy_token payload src dst i tokens = rbind (load_at payload (src + i)) (\<lambda>b. store_at (dst + i) (unat b) tokens)"

definition extractInputTokens :: "byte list \<Rightarrow> fault + nat list" where
  "extractInputTokens payload =
     (let tokens = replicate kInputLen kPaddingToken
      in if payload = [] then Inr tokens
         else
           (let begStart = skip_front payload 0;
                begCount = min kBegSize (length payload - begStart)
            in rbind (for_upto begCount (copy_token payload begStart 0) tokens) (\<lambda>tokens.
                 let endPos = skip_back payload (length payload);
                     endCount = min kEndSize endPos;
                     endOffset = kBegSize + (kEndSize - endCount)
                 in for_upto endCount (copy_token payload (endPos - endCount) endOffset) tokens)))"
section \<open>The forward pass\<close>

definition embedding :: "'f fp \<Rightarrow> 'f MagikaModel \<Rightarrow> nat list \<Rightarrow> fault + 'f list" where
  "embedding F m tokens =
     for_upto kInputLen (\<lambda>i out.
       rbind (load_at tokens i) (\<lambda>tok.
         for_upto kEmbedDim (\<lambda>d out.
           rbind (load_at (mm_embedWeight m) (w32 (tok * kEmbedDim + d))) (\<lambda>w.
           rbind (load_at (mm_embedBias m) d) (\<lambda>b.
           store_at (w32 (i * kEmbedDim + d)) (fp_add F w b) out))) out))
       (replicate (kInputLen * kEmbedDim) (fp_lit F 0 0))"

definition gelu_value :: "'f fp \<Rightarrow> 'f \<Rightarrow> 'f" where
  "gelu_value F x =
     (let inner = fp_mul F (fp_lit F 7978845608 10)
                    (fp_add F x (fp_mul F (fp_mul F (fp_mul F (fp_lit F 44715 6) x) x) x))
      in fp_mul F (fp_mul F (fp_lit F 5 1) x) (fp_add F (fp_lit F 1 0) (fp_tanh F inner)))"

definition gelu :: "'f fp \<Rightarrow> 'f list \<Rightarrow> 'f list" where
  "gelu F data = map (gelu_value F) data"

text \<open>The sums of the values and of their squares, per feature.\<close>

definition ln_sums :: "'f fp \<Rightarrow> 'f list \<Rightarrow> nat \<Rightarrow> nat \<Rightarrow> fault + 'f list \<times> 'f list" where
  "ln_sums F data seqLen dim =
     for_upto seqLen (\<lambda>s. for_upto dim (\<lambda>d (mean, var).
       rbind (load_at data (w32 (s * dim + d))) (\<lambda>v.
       rbind (load_at mean d) (\<lambda>md. rbind (store_at d (fp_add F md v) mean) (\<lambda>mean.
       rbind (load_at var d) (\<lambda>vd. rbind (store_at d (fp_add F vd (fp_mul F v v)) var) (\<lambda>var.
       Inr (mean, var))))))))
     (replicate dim (fp_lit F 0 0), replicate dim (fp_lit F 0 0))"

definition ln_mean :: "'f fp \<Rightarrow> nat \<Rightarrow> 'f \<Rightarrow> 'f" where
  "ln_mean F seqLen v = fp_mul F v (fp_div F (fp_lit F 1 0) (fp_nat F seqLen))"

definition ln_invStd :: "'f fp \<Rightarrow> nat \<Rightarrow> 'f \<Rightarrow> 'f \<Rightarrow> 'f" where
  "ln_invStd F seqLen mean sq =
     (let var = fp_max F (fp_lit F 0 0)
                  (fp_sub F (fp_mul F sq (fp_div F (fp_lit F 1 0) (fp_nat F seqLen))) (fp_mul F mean mean))
      in fp_div F (fp_lit F 1 0) (fp_sqrt F (fp_add F var (kLnEps F))))"

definition layerNorm :: "'f fp \<Rightarrow> 'f list \<Rightarrow> 'f list \<Rightarrow> nat \<Rightarrow> nat \<Rightarrow> 'f list \<Rightarrow> fault + 'f list" where
  "layerNorm F scale bias seqLen dim data =
     rbind (ln_sums F data seqLen dim) (\<lambda>(sums, squares).
       let mean = map (ln_mean F seqLen) sums;
           invStd = map2 (ln_invStd F seqLen) mean squares
       in for_upto seqLen (\<lambda>s. for_upto dim (\<lambda>d data.
            rbind (load_at data (w32 (s * dim + d))) (\<lambda>v.
            rbind (load_at mean d) (\<lambda>md. rbind (load_at invStd d) (\<lambda>sd.
            rbind (load_at scale s) (\<lambda>sc. rbind (load_at bias s) (\<lambda>b.
            store_at (w32 (s * dim + d))
              (fp_add F (fp_mul F (fp_mul F (fp_sub F v md) sd) sc) b) data))))))) data)"

definition conv_sum :: "'f fp \<Rightarrow> 'f MagikaModel \<Rightarrow> 'f list \<Rightarrow> nat \<Rightarrow> nat \<Rightarrow> fault + 'f" where
  "conv_sum F m input oc pos =
     rbind (load_at (mm_convBias m) oc) (\<lambda>bias.
       for_upto kReshapedDim (\<lambda>ic. for_upto kKernelSize (\<lambda>k sum.
         rbind (load_at input (w32 ((pos + k) * kReshapedDim + ic))) (\<lambda>v.
         rbind (load_at (mm_convWeight m) (w32 ((oc * kReshapedDim + ic) * kKernelSize + k))) (\<lambda>w.
         Inr (fp_add F sum (fp_mul F v w)))))) bias)"

definition conv1d :: "'f fp \<Rightarrow> 'f MagikaModel \<Rightarrow> nat \<Rightarrow> 'f list \<Rightarrow> 'f list \<Rightarrow> fault + 'f list" where
  "conv1d F m seqLen input out =
     for_upto kConvOut (\<lambda>oc. for_upto (seqLen - kKernelSize + 1) (\<lambda>pos out.
       rbind (conv_sum F m input oc pos) (\<lambda>sum. store_at (w32 (pos * kConvOut + oc)) sum out))) out"

definition globalMaxPool :: "'f fp \<Rightarrow> nat \<Rightarrow> 'f list \<Rightarrow> fault + 'f list" where
  "globalMaxPool F seqLen input =
     for_upto seqLen (\<lambda>s. for_upto kConvOut (\<lambda>c out.
       rbind (load_at out c) (\<lambda>old. rbind (load_at input (w32 (s * kConvOut + c))) (\<lambda>v.
       store_at c (fp_max F old v) out))))
     (replicate kConvOut (fp_neg_inf F))"

text \<open>The normalisation of the pooled vector in \<^verbatim>\<open>predict\<close>.\<close>

definition norm_pooled :: "'f fp \<Rightarrow> 'f MagikaModel \<Rightarrow> 'f list \<Rightarrow> fault + 'f list" where
  "norm_pooled F m pooled =
     rbind (for_upto kConvOut (\<lambda>i sum. rbind (load_at pooled i) (\<lambda>v. Inr (fp_add F sum v))) (fp_lit F 0 0)) (\<lambda>total.
       let mean = fp_div F total (fp_nat F kConvOut)
       in rbind (for_upto kConvOut (\<lambda>i sum. rbind (load_at pooled i) (\<lambda>v.
                   let diff = fp_sub F v mean in Inr (fp_add F sum (fp_mul F diff diff)))) (fp_lit F 0 0)) (\<lambda>sq.
            let var = fp_div F sq (fp_nat F kConvOut);
                invStd = fp_div F (fp_lit F 1 0) (fp_sqrt F (fp_add F var (kLnEps F)))
            in for_upto kConvOut (\<lambda>i pooled.
                 rbind (load_at pooled i) (\<lambda>v. rbind (load_at (mm_ln1Scale m) i) (\<lambda>sc. rbind (load_at (mm_ln1Bias m) i) (\<lambda>b.
                 store_at i (fp_add F (fp_mul F (fp_mul F (fp_sub F v mean) invStd) sc) b) pooled)))) pooled))"

definition dense :: "'f fp \<Rightarrow> 'f MagikaModel \<Rightarrow> 'f list \<Rightarrow> fault + 'f list" where
  "dense F m input =
     for_upto (mm_numClasses m) (\<lambda>c out.
       rbind (load_at (mm_outputBias m) c) (\<lambda>bias.
       rbind (for_upto kConvOut (\<lambda>i sum.
                rbind (load_at input i) (\<lambda>v.
                rbind (load_at (mm_outputWeight m) (w32 (i * mm_numClasses m + c))) (\<lambda>w.
                Inr (fp_add F sum (fp_mul F v w))))) bias) (\<lambda>sum.
       store_at c sum out)))
     (replicate (mm_numClasses m) (fp_lit F 0 0))"

text \<open>\<^verbatim>\<open>std::max_element\<close>: the position of the first of the largest elements.\<close>

definition max_element :: "'f fp \<Rightarrow> 'f list \<Rightarrow> nat" where
  "max_element F xs =
     (if xs = [] then 0 else fold (\<lambda>i best. if fp_less F (xs ! best) (xs ! i) then i else best) [1..<length xs] 0)"

definition softmax :: "'f fp \<Rightarrow> 'f list \<Rightarrow> fault + 'f list" where
  "softmax F data =
     rbind (load_at data (max_element F data)) (\<lambda>maxVal.
       let exps = map (\<lambda>x. fp_exp F (fp_sub F x maxVal)) data;
           sum = fold (\<lambda>x acc. fp_add F acc x) exps (fp_lit F 0 0)
       in Inr (map (\<lambda>x. fp_div F x sum) exps))"

record 'f Prediction =
  pr_classIndex :: nat
  pr_confidence :: 'f
  pr_label :: string

definition logits_of :: "'f fp \<Rightarrow> 'f MagikaModel \<Rightarrow> byte list \<Rightarrow> fault + 'f list" where
  "logits_of F m payload =
     rbind (extractInputTokens payload) (\<lambda>tokens.
     rbind (embedding F m tokens) (\<lambda>embedded.
     rbind (layerNorm F (mm_ln0Scale m) (mm_ln0Bias m) kReshapedSeq kReshapedDim (gelu F embedded)) (\<lambda>normed.
     let convOutLen = kReshapedSeq - kKernelSize + 1
     in rbind (conv1d F m kReshapedSeq normed (replicate (convOutLen * kConvOut) (fp_lit F 0 0))) (\<lambda>convOut.
        rbind (globalMaxPool F convOutLen (gelu F convOut)) (\<lambda>pooled.
        rbind (norm_pooled F m pooled) (\<lambda>pooled.
        rbind (dense F m pooled) (softmax F)))))))"

definition predict :: "'f fp \<Rightarrow> 'f MagikaModel \<Rightarrow> byte list \<Rightarrow> fault + 'f Prediction" where
  "predict F m payload =
     rbind (logits_of F m payload) (\<lambda>logits.
       let idx = max_element F logits
       in rbind (load_at logits idx) (\<lambda>confidence.
            Inr \<lparr>pr_classIndex = idx, pr_confidence = confidence,
                 pr_label = (if idx < length (mm_labels m) then mm_labels m ! idx else ''unknown'')\<rparr>))"

text \<open>\<^verbatim>\<open>MagikaEngine.cpp\<close>: the engine around the model; the worker sets the duration, in nanoseconds.\<close>

record 'f InferenceResult =
  ir_label :: string
  ir_confidence :: 'f
  ir_modelName :: string
  ir_inferenceTime :: nat

definition MagikaEngine_create :: "'f fp \<Rightarrow> (nat \<Rightarrow> bool) \<Rightarrow> string \<Rightarrow> byte list option \<Rightarrow> fault + MagikaModelError + 'f MagikaModel" where
  "MagikaEngine_create F alloc modelPath file = loadFromFile F alloc modelPath file"

definition MagikaEngine_classify :: "'f fp \<Rightarrow> 'f MagikaModel \<Rightarrow> byte list \<Rightarrow> fault + 'f InferenceResult" where
  "MagikaEngine_classify F model payload =
     rbind (predict F model payload) (\<lambda>pred.
       Inr \<lparr>ir_label = pr_label pred, ir_confidence = pr_confidence pred, ir_modelName = ''magika-v1'', ir_inferenceTime = 0\<rparr>)"
section \<open>Which bytes the model sees\<close>

text \<open>The reference: strip white space, keep 1024 bytes at each end, pad.\<close>

definition pad_right :: "nat \<Rightarrow> nat list \<Rightarrow> nat list" where
  "pad_right n xs = take n xs @ replicate (n - length xs) kPaddingToken"

definition pad_left :: "nat \<Rightarrow> nat list \<Rightarrow> nat list" where
  "pad_left n xs = replicate (n - length xs) kPaddingToken @ drop (length xs - n) xs"

definition magika_features :: "byte list \<Rightarrow> nat list" where
  "magika_features payload =
     pad_right kBegSize (map unat (dropWhile isWhitespace payload)) @
     pad_left kEndSize (map unat (rev (dropWhile isWhitespace (rev payload))))"

lemma drop_skip_front: "drop (skip_front p i) p = dropWhile isWhitespace (drop i p)"
proof (induction p i rule: skip_front.induct)
  case (1 p i)
  show ?case
  proof (cases "i < length p \<and> isWhitespace (p ! i)")
    case True
    then show ?thesis using 1 by (subst skip_front.simps) (simp add: Cons_nth_drop_Suc [symmetric])
  next
    case False
    then show ?thesis
      by (subst skip_front.simps, cases "i < length p") (auto simp: Cons_nth_drop_Suc [symmetric])
  qed
qed

lemma skip_front_le: "i \<le> length p \<Longrightarrow> skip_front p i \<le> length p"
proof (induction p i rule: skip_front.induct)
  case (1 p i)
  then show ?case by (subst skip_front.simps) auto
qed

lemma take_skip_back: "n \<le> length p \<Longrightarrow> take (skip_back p n) p = rev (dropWhile isWhitespace (rev (take n p)))"
  by (induction n) (simp_all add: take_Suc_conv_app_nth)

lemma skip_back_le: "skip_back p n \<le> n"
  by (induction n) (auto simp: le_SucI)

text \<open>Copying a block of bytes over a block of tokens.\<close>

lemma copy_tokens:
  assumes "src + n \<le> length p" and "dst + n \<le> length ts"
  shows "for_upto n (copy_token p src dst) ts =
    Inr (take dst ts @ map unat (take n (drop src p)) @ drop (dst + n) ts)"
  using assms
proof (induction n)
  case (Suc n)
  have app: "for_each f (is @ js) s = rbind (for_each f is s) (for_each f js)" for f :: "nat \<Rightarrow> nat list \<Rightarrow> fault + nat list" and "is" js s
    by (induction "is" arbitrary: s) (auto, metis rbind.simps sumE)
  have "take dst ts @ map unat (take n (drop src p)) @ drop (dst + n) ts =
      (take dst ts @ map unat (take n (drop src p))) @ ts ! (dst + n) # drop (Suc (dst + n)) ts"
    using Suc.prems by (simp add: Cons_nth_drop_Suc)
  moreover have "length (take dst ts @ map unat (take n (drop src p))) = dst + n" using Suc.prems by simp
  ultimately show ?case using Suc
    by (simp add: app copy_token_def load_at_def store_at_def list_update_append take_Suc_conv_app_nth)
qed simp

lemma take_padded:
  assumes "length A \<le> b" and "k \<le> e"
  shows "take (b + k) (A @ replicate (b + e - length A) x) = A @ replicate (b - length A) x @ replicate k x"
proof -
  have "take (b + k) (A @ replicate (b + e - length A) x) = A @ replicate (b + k - length A) x"
    using assms by (simp add: take_replicate min_def)
  also have "b + k - length A = (b - length A) + k" using assms by simp
  finally show ?thesis by (simp only: replicate_add)
qed

lemma input_tokens: "extractInputTokens payload = Inr (magika_features payload)"
proof (cases "payload = []")
  case True
  then show ?thesis
    by (simp add: extractInputTokens_def magika_features_def pad_right_def pad_left_def kInputLen_def replicate_add)
next
  case False
  let ?b = "skip_front payload 0" and ?e = "skip_back payload (length payload)"
  let ?n = "min kBegSize (length payload - ?b)" and ?m = "min kEndSize ?e"
  have b: "?b \<le> length payload" "drop ?b payload = dropWhile isWhitespace payload"
    using skip_front_le [of 0 payload] drop_skip_front [of payload 0] by simp_all
  have e: "?e \<le> length payload" "take ?e payload = rev (dropWhile isWhitespace (rev payload))"
    using skip_back_le [of payload "length payload"] take_skip_back [of "length payload" payload] by simp_all
  let ?t0 = "replicate kInputLen kPaddingToken"
  let ?A = "map unat (take ?n (drop ?b payload))"
  have first: "for_upto ?n (copy_token payload ?b 0) ?t0 = Inr (?A @ replicate (kInputLen - ?n) kPaddingToken)"
    using copy_tokens [of ?b ?n payload 0 ?t0] b(1) by (simp add: kInputLen_def)
  have lenA: "length ?A = ?n" by simp
  have second: "for_upto ?m (copy_token payload (?e - ?m) (kBegSize + (kEndSize - ?m)))
      (?A @ replicate (kInputLen - ?n) kPaddingToken)
    = Inr (take (kBegSize + (kEndSize - ?m)) (?A @ replicate (kInputLen - ?n) kPaddingToken) @
        map unat (take ?m (drop (?e - ?m) payload)))"
    using copy_tokens [of "?e - ?m" ?m payload "kBegSize + (kEndSize - ?m)" "?A @ replicate (kInputLen - ?n) kPaddingToken"]
      e(1) lenA by (simp add: kInputLen_def)
  have "take ?m (drop (?e - ?m) payload) = drop (?e - kEndSize) (take ?e payload)"
    using e(1) by (simp add: take_drop min_def)
  moreover have "take (kBegSize + (kEndSize - ?m)) (?A @ replicate (kInputLen - ?n) kPaddingToken)
      = ?A @ replicate (kBegSize - ?n) kPaddingToken @ replicate (kEndSize - ?m) kPaddingToken"
    using take_padded [of ?A kBegSize "kEndSize - ?m" kEndSize kPaddingToken] lenA by (simp only: kInputLen_def diff_le_self min.cobounded1)
  ultimately have "extractInputTokens payload =
      Inr ((?A @ replicate (kBegSize - ?n) kPaddingToken @ replicate (kEndSize - ?m) kPaddingToken) @
        map unat (drop (?e - kEndSize) (take ?e payload)))"
    unfolding extractInputTokens_def Let_def using False by (simp only: if_False first second rbind.simps)
  also have "(?A @ replicate (kBegSize - ?n) kPaddingToken @ replicate (kEndSize - ?m) kPaddingToken) @
      map unat (drop (?e - kEndSize) (take ?e payload)) =
      (?A @ replicate (kBegSize - ?n) kPaddingToken) @ replicate (kEndSize - ?m) kPaddingToken @
        map unat (drop (?e - kEndSize) (take ?e payload))" by (simp only: append_assoc)
  also have "?A @ replicate (kBegSize - ?n) kPaddingToken = pad_right kBegSize (map unat (drop ?b payload))"
    by (simp add: pad_right_def take_map [symmetric] min_def)
  also have "replicate (kEndSize - ?m) kPaddingToken @ map unat (drop (?e - kEndSize) (take ?e payload)) =
      pad_left kEndSize (map unat (take ?e payload))"
    using e(1) by (simp add: pad_left_def drop_map min_def)
  finally show ?thesis unfolding magika_features_def b(2) e(2) .
qed

text \<open>
  C30: the input of the model is what its reference implementation computes: the first 1024 bytes
  after leading white space, padded on the right, and the last 1024 bytes before trailing white space,
  padded on the left; no index leaves the payload or the token vector.
\<close>

theorem extractInputTokens_features: "extractInputTokens payload = Inr (magika_features payload)"
  by (rule input_tokens)

section \<open>No access leaves an array\<close>

text \<open>\<open>gives Q m\<close>: the computation returns, and its result satisfies \<open>Q\<close>.\<close>

definition gives :: "('a \<Rightarrow> bool) \<Rightarrow> 'e + 'a \<Rightarrow> bool" where
  "gives Q m \<longleftrightarrow> (\<exists>v. m = Inr v \<and> Q v)"

lemma gives_Inr: "Q v \<Longrightarrow> gives Q (Inr v)"
  by (simp add: gives_def)

lemma gives_bind: "gives P m \<Longrightarrow> (\<And>v. P v \<Longrightarrow> gives Q (f v)) \<Longrightarrow> gives Q (rbind m f)"
  by (auto simp: gives_def)

lemma gives_load: "i < length xs \<Longrightarrow> gives Q (f (xs ! i)) \<Longrightarrow> gives Q (rbind (load_at xs i) f)"
  by (simp add: load_at_def)

lemma gives_store: "i < length xs \<Longrightarrow> gives (\<lambda>ys. length ys = length xs) (store_at i v xs)"
  by (simp add: store_at_def gives_def)

lemma gives_each: "I s \<Longrightarrow> (\<And>i s. i \<in> set is \<Longrightarrow> I s \<Longrightarrow> gives I (f i s)) \<Longrightarrow> gives I (for_each f is s)"
proof (induction "is" arbitrary: s)
  case (Cons i "is")
  have "gives I (f i s)" using Cons.prems by simp
  then show ?case unfolding for_each.simps by (rule gives_bind) (simp add: Cons)
qed (simp add: gives_Inr)

lemma gives_upto: "I s \<Longrightarrow> (\<And>i s. i < n \<Longrightarrow> I s \<Longrightarrow> gives I (f i s)) \<Longrightarrow> gives I (for_upto n f s)"
  by (rule gives_each) simp_all

text \<open>Row-major indices of an \<open>a\<close> by \<open>b\<close> matrix.\<close>

lemma row_index: "i < a \<Longrightarrow> d < b \<Longrightarrow> i * b + d < a * (b :: nat)"
proof -
  assume "i < a" "d < b"
  then have "i * b + d < Suc i * b" by simp
  also have "\<dots> \<le> a * b" using \<open>i < a\<close> by (intro mult_le_mono1) simp
  finally show ?thesis .
qed

lemma w32_le: "w32 n \<le> n"
  by (simp add: w32_def)

lemma row_index_w32: "i < a \<Longrightarrow> d < b \<Longrightarrow> w32 (i * b + d) < a * b"
  using row_index [of i a d b] w32_le [of "i * b + d"] by linarith

text \<open>The sizes the header documents.\<close>

definition well_sized :: "'f MagikaModel \<Rightarrow> bool" where
  "well_sized m \<longleftrightarrow>
     length (mm_embedWeight m) = kVocabSize * kEmbedDim \<and> length (mm_embedBias m) = kEmbedDim \<and>
     length (mm_ln0Scale m) = kReshapedSeq \<and> length (mm_ln0Bias m) = kReshapedSeq \<and>
     length (mm_convWeight m) = kConvOut * kReshapedDim * kKernelSize \<and> length (mm_convBias m) = kConvOut \<and>
     length (mm_ln1Scale m) = kConvOut \<and> length (mm_ln1Bias m) = kConvOut \<and>
     length (mm_outputWeight m) = kConvOut * mm_numClasses m \<and> length (mm_outputBias m) = mm_numClasses m \<and>
     length (mm_labels m) = mm_numClasses m \<and> 0 < mm_numClasses m"

lemma magika_features_bounds:
  "length (magika_features p) = kInputLen" "t \<in> set (magika_features p) \<Longrightarrow> t < kVocabSize"
proof -
  have "unat b < 2 ^ LENGTH(8)" for b :: byte by (rule unsigned_less)
  then have "unat b < kVocabSize" for b :: byte using less_trans [of "unat b" 256 257] by (simp add: kVocabSize_def)
  moreover have "kPaddingToken < kVocabSize" by (simp add: kVocabSize_def kPaddingToken_def)
  ultimately show "t \<in> set (magika_features p) \<Longrightarrow> t < kVocabSize"
    by (auto simp: magika_features_def pad_right_def pad_left_def dest!: in_set_takeD in_set_dropD)
  show "length (magika_features p) = kInputLen"
    by (simp add: magika_features_def pad_right_def pad_left_def kInputLen_def)
qed

lemma embedding_gives:
  assumes "well_sized m" "length tokens = kInputLen" "\<And>t. t \<in> set tokens \<Longrightarrow> t < kVocabSize"
  shows "gives (\<lambda>out. length out = kInputLen * kEmbedDim) (embedding F m tokens)"
  unfolding embedding_def
proof (intro gives_upto gives_load)
  fix i d :: nat and out :: "'a list"
  assume "i < kInputLen" "d < kEmbedDim" and out: "length out = kInputLen * kEmbedDim"
  then show "w32 (tokens ! i * kEmbedDim + d) < length (mm_embedWeight m)"
    using assms row_index_w32 [of "tokens ! i" kVocabSize d kEmbedDim] by (simp add: well_sized_def)
  show "gives (\<lambda>out. length out = kInputLen * kEmbedDim)
      (store_at (w32 (i * kEmbedDim + d))
        (fp_add F (mm_embedWeight m ! w32 (tokens ! i * kEmbedDim + d)) (mm_embedBias m ! d)) out)"
    using gives_store [of "w32 (i * kEmbedDim + d)" out]
      row_index_w32 [OF \<open>i < kInputLen\<close> \<open>d < kEmbedDim\<close>] by (simp add: out)
qed (use assms in \<open>simp_all add: well_sized_def\<close>)

lemma gives_cell:
  assumes "i < a" "d < b" "length out = a * b"
  shows "gives (\<lambda>out. length out = a * b) (store_at (w32 (i * b + d)) v out)"
  using gives_store [of "w32 (i * b + d)" out] row_index_w32 [OF assms(1,2)] assms(3) by simp

lemma gives_item: "i < n \<Longrightarrow> length out = n \<Longrightarrow> gives (\<lambda>out. length out = n) (store_at i v out)"
  using gives_store [of i out] by simp

lemma ln_sums_gives:
  assumes "length data = seqLen * dim"
  shows "gives (\<lambda>(a, b). length a = dim \<and> length b = dim) (ln_sums F data seqLen dim)"
  unfolding ln_sums_def
proof (intro gives_upto)
  fix s d :: nat and st :: "'a list \<times> 'a list"
  assume a: "s < seqLen" "d < dim" "case st of (a, b) \<Rightarrow> length a = dim \<and> length b = dim"
  obtain mean var where st: "st = (mean, var)" "length mean = dim" "length var = dim" using a(3) by (cases st) auto
  have "w32 (s * dim + d) < length data" using row_index_w32 [OF a(1,2)] assms by simp
  then show "gives (\<lambda>(a, b). length a = dim \<and> length b = dim)
      (case st of (mean, var) \<Rightarrow>
        rbind (load_at data (w32 (s * dim + d))) (\<lambda>v.
        rbind (load_at mean d) (\<lambda>md. rbind (store_at d (fp_add F md v) mean) (\<lambda>mean.
        rbind (load_at var d) (\<lambda>vd. rbind (store_at d (fp_add F vd (fp_mul F v v)) var) (\<lambda>var.
        Inr (mean, var)))))))"
    using a(2) st by (simp add: load_at_def store_at_def gives_def)
qed simp

lemma layerNorm_gives:
  assumes "length data = seqLen * dim" "length scale = seqLen" "length bias = seqLen"
  shows "gives (\<lambda>out. length out = seqLen * dim) (layerNorm F scale bias seqLen dim data)"
  unfolding layerNorm_def
proof (rule gives_bind [OF ln_sums_gives [OF assms(1)]])
  fix v :: "'a list \<times> 'a list" assume "case v of (a, b) \<Rightarrow> length a = dim \<and> length b = dim"
  then obtain sums squares where v: "v = (sums, squares)" "length sums = dim" "length squares = dim" by (cases v) auto
  show "gives (\<lambda>out. length out = seqLen * dim)
      (case v of (sums, squares) \<Rightarrow>
       let mean = map (ln_mean F seqLen) sums;
           invStd = map2 (ln_invStd F seqLen) mean squares
       in for_upto seqLen (\<lambda>s. for_upto dim (\<lambda>d data.
            rbind (load_at data (w32 (s * dim + d))) (\<lambda>v.
            rbind (load_at mean d) (\<lambda>md. rbind (load_at invStd d) (\<lambda>sd.
            rbind (load_at scale s) (\<lambda>sc. rbind (load_at bias s) (\<lambda>b.
            store_at (w32 (s * dim + d))
              (fp_add F (fp_mul F (fp_mul F (fp_sub F v md) sd) sc) b) data))))))) data)"
    unfolding v(1) prod.case Let_def
    by (intro gives_upto gives_load gives_cell) (simp_all add: assms v row_index_w32)
qed

lemma conv_sum_gives:
  assumes "well_sized m" "length input = kReshapedSeq * kReshapedDim" "oc < kConvOut" "pos + kKernelSize \<le> kReshapedSeq"
  shows "gives (\<lambda>_. True) (conv_sum F m input oc pos)"
  unfolding conv_sum_def
proof (intro gives_load gives_upto gives_Inr)
  fix ic k assume "ic < kReshapedDim" "k < kKernelSize"
  then show "w32 ((pos + k) * kReshapedDim + ic) < length input"
    unfolding assms(2) using assms(4) by (intro row_index_w32) simp_all
  show "w32 ((oc * kReshapedDim + ic) * kKernelSize + k) < length (mm_convWeight m)"
    using row_index_w32 [OF row_index [OF \<open>oc < kConvOut\<close> \<open>ic < kReshapedDim\<close>] \<open>k < kKernelSize\<close>] assms(1)
    by (simp add: well_sized_def)
qed (use assms in \<open>simp_all add: well_sized_def\<close>)

lemma conv1d_gives:
  assumes "well_sized m" "length input = kReshapedSeq * kReshapedDim"
    "length out = (kReshapedSeq - kKernelSize + 1) * kConvOut"
  shows "gives (\<lambda>out. length out = (kReshapedSeq - kKernelSize + 1) * kConvOut) (conv1d F m kReshapedSeq input out)"
  unfolding conv1d_def
proof (intro gives_upto)
  fix oc pos :: nat and out :: "'a list"
  assume oc: "oc < kConvOut" and pos: "pos < kReshapedSeq - kKernelSize + 1"
    and out: "length out = (kReshapedSeq - kKernelSize + 1) * kConvOut"
  have "pos + kKernelSize \<le> kReshapedSeq" using pos by (simp add: kReshapedSeq_def kKernelSize_def)
  from conv_sum_gives [OF assms(1,2) oc this]
  show "gives (\<lambda>out. length out = (kReshapedSeq - kKernelSize + 1) * kConvOut)
      (rbind (conv_sum F m input oc pos) (\<lambda>sum. store_at (w32 (pos * kConvOut + oc)) sum out))"
    by (rule gives_bind) (rule gives_cell [OF pos oc out])
qed (rule assms(3))

lemma globalMaxPool_gives:
  assumes "length input = seqLen * kConvOut"
  shows "gives (\<lambda>out. length out = kConvOut) (globalMaxPool F seqLen input)"
  unfolding globalMaxPool_def
  by (intro gives_upto gives_load gives_item) (simp_all add: assms row_index_w32)

lemma norm_pooled_gives:
  assumes "well_sized m" "length pooled = kConvOut"
  shows "gives (\<lambda>out. length out = kConvOut) (norm_pooled F m pooled)"
  unfolding norm_pooled_def Let_def
proof (intro gives_bind [where P = "\<lambda>_. True"])
  have acc: "gives (\<lambda>_. True) (for_upto kConvOut (\<lambda>i sum. rbind (load_at pooled i) (\<lambda>v. Inr (f v sum))) a)" for f a
    by (intro gives_upto gives_load gives_Inr) (simp_all add: assms)
  fix total sq
  show "gives (\<lambda>_. True) (for_upto kConvOut (\<lambda>i sum. rbind (load_at pooled i) (\<lambda>v. Inr (fp_add F sum v))) (fp_lit F 0 0))"
    by (rule acc)
  show "gives (\<lambda>_. True) (for_upto kConvOut (\<lambda>i sum. rbind (load_at pooled i) (\<lambda>v. Inr (fp_add F sum
      (fp_mul F (fp_sub F v (fp_div F total (fp_nat F kConvOut))) (fp_sub F v (fp_div F total (fp_nat F kConvOut)))))))
      (fp_lit F 0 0))" by (rule acc)
qed (intro gives_upto gives_load gives_item; use assms in \<open>simp add: well_sized_def\<close>)

lemma dense_gives:
  assumes "well_sized m" "length input = kConvOut"
  shows "gives (\<lambda>out. length out = mm_numClasses m) (dense F m input)"
  unfolding dense_def
proof (intro gives_upto gives_load)
  fix c :: nat and out :: "'a list" assume c: "c < mm_numClasses m" and out: "length out = mm_numClasses m"
  have "gives (\<lambda>_. True) (for_upto kConvOut (\<lambda>i sum.
      rbind (load_at input i) (\<lambda>v. rbind (load_at (mm_outputWeight m) (w32 (i * mm_numClasses m + c))) (\<lambda>w.
        Inr (fp_add F sum (fp_mul F v w))))) (mm_outputBias m ! c))"
    using assms c by (intro gives_upto gives_load gives_Inr) (simp_all add: well_sized_def row_index_w32)
  then show "gives (\<lambda>out. length out = mm_numClasses m)
     (rbind (for_upto kConvOut (\<lambda>i sum.
      rbind (load_at input i) (\<lambda>v. rbind (load_at (mm_outputWeight m) (w32 (i * mm_numClasses m + c))) (\<lambda>w.
        Inr (fp_add F sum (fp_mul F v w))))) (mm_outputBias m ! c)) (\<lambda>sum. store_at c sum out))"
    by (rule gives_bind) (rule gives_item [OF c out])
qed (use assms in \<open>simp_all add: well_sized_def\<close>)

lemma max_element_less:
  assumes "xs \<noteq> []" shows "max_element F xs < length xs"
proof -
  have "best < length xs \<Longrightarrow> set is \<subseteq> {..<length xs} \<Longrightarrow>
      fold (\<lambda>i best. if fp_less F (xs ! best) (xs ! i) then i else best) is best < length xs" for "is" best
    by (induction "is" arbitrary: best) auto
  then show ?thesis using assms by (simp add: max_element_def subset_iff)
qed

lemma softmax_gives: "xs \<noteq> [] \<Longrightarrow> gives (\<lambda>out. length out = length xs) (softmax F xs)"
  unfolding softmax_def Let_def by (intro gives_load gives_Inr) (simp_all add: max_element_less)

lemma logits_gives:
  assumes "well_sized m" shows "gives (\<lambda>out. length out = mm_numClasses m) (logits_of F m payload)"
proof -
  have r: "kInputLen * kEmbedDim = kReshapedSeq * kReshapedDim"
    by (simp add: kInputLen_def kBegSize_def kEndSize_def kEmbedDim_def kReshapedSeq_def kReshapedDim_def)
  have ln: "length (mm_ln0Scale m) = kReshapedSeq" "length (mm_ln0Bias m) = kReshapedSeq" and n: "0 < mm_numClasses m"
    using assms by (simp_all add: well_sized_def)
  have g: "length (gelu F xs) = length xs" for xs by (simp add: gelu_def)
  show ?thesis
    unfolding logits_of_def input_tokens rbind.simps Let_def
  proof (rule gives_bind [OF embedding_gives [OF assms magika_features_bounds]])
    fix e :: "'a list" assume "length e = kInputLen * kEmbedDim"
    then show "gives (\<lambda>out. length out = mm_numClasses m)
      (rbind (layerNorm F (mm_ln0Scale m) (mm_ln0Bias m) kReshapedSeq kReshapedDim (gelu F e)) (\<lambda>normed.
        rbind (conv1d F m kReshapedSeq normed (replicate ((kReshapedSeq - kKernelSize + 1) * kConvOut) (fp_lit F 0 0))) (\<lambda>convOut.
        rbind (globalMaxPool F (kReshapedSeq - kKernelSize + 1) (gelu F convOut)) (\<lambda>pooled.
        rbind (norm_pooled F m pooled) (\<lambda>pooled. rbind (dense F m pooled) (softmax F))))))"
    proof (intro gives_bind [OF layerNorm_gives] gives_bind [OF conv1d_gives [OF assms]]
        gives_bind [OF globalMaxPool_gives] gives_bind [OF norm_pooled_gives [OF assms]] gives_bind [OF dense_gives [OF assms]])
      fix out :: "'a list" assume "length out = mm_numClasses m"
      then show "gives (\<lambda>out. length out = mm_numClasses m) (softmax F out)"
        using softmax_gives [of out F] n by fastforce
    qed (simp_all only: g r ln length_replicate)
  qed
qed

lemma predict_labelled:
  assumes "well_sized m"
  shows "\<exists>p. predict F m payload = Inr p \<and> pr_classIndex p < mm_numClasses m \<and>
    pr_label p = mm_labels m ! pr_classIndex p"
proof -
  obtain logits where l: "logits_of F m payload = Inr logits" "length logits = mm_numClasses m"
    using logits_gives [OF assms, of F payload] by (auto simp: gives_def)
  have "0 < length logits" using l(2) assms by (simp add: well_sized_def)
  then have "max_element F logits < mm_numClasses m" using max_element_less [of logits F] l(2) length_greater_0_conv by metis
  then show ?thesis using assms l by (simp add: predict_def load_at_def well_sized_def Let_def)
qed

text \<open>
  C29: with weights of the documented sizes the forward pass reads and writes inside of its arrays for
  every payload and every floating-point arithmetic, and predicts one of its classes with that class's label.
\<close>

theorem predict_in_bounds:
  assumes "well_sized m"
  shows "\<exists>p. predict F m payload = Inr p \<and> pr_classIndex p < mm_numClasses m \<and>
    pr_label p = mm_labels m ! pr_classIndex p"
  by (rule predict_labelled [OF assms])

text \<open>Words for floats: enough to see that the hypotheses can hold.\<close>

definition word_fp :: "u32 fp" where
  "word_fp = \<lparr>fp_lit = \<lambda>m e. of_nat (m div 10 ^ e), fp_neg_inf = 0, fp_add = (+), fp_sub = (-), fp_mul = (*),
     fp_div = (div), fp_less = (<), fp_sqrt = id, fp_exp = id, fp_tanh = id, fp_nat = of_nat,
     fp_bytes = \<lambda>bs. of_nat (le_value bs)\<rparr>"

definition flat_model :: "u32 MagikaModel" where
  "flat_model = \<lparr>mm_embedWeight = replicate (kVocabSize * kEmbedDim) 1, mm_embedBias = replicate kEmbedDim 0,
     mm_ln0Scale = replicate kReshapedSeq 1, mm_ln0Bias = replicate kReshapedSeq 0,
     mm_convWeight = replicate (kConvOut * kReshapedDim * kKernelSize) 1, mm_convBias = replicate kConvOut 0,
     mm_ln1Scale = replicate kConvOut 1, mm_ln1Bias = replicate kConvOut 0,
     mm_outputWeight = replicate (kConvOut * 2) 1, mm_outputBias = replicate 2 0,
     mm_numClasses = 2, mm_labels = [''txt'', ''elf'']\<rparr>"

lemma flat_model_well_sized: "well_sized flat_model"
  unfolding well_sized_def flat_model_def MagikaModel.simps by (simp only: length_replicate) simp

theorem predict_in_bounds_witness:
  "\<exists>p. predict word_fp flat_model [0x7F, 0x45] = Inr p \<and> pr_classIndex p < mm_numClasses flat_model \<and>
    pr_label p = mm_labels flat_model ! pr_classIndex p"
  by (rule predict_in_bounds [OF flat_model_well_sized])

section \<open>The weight file\<close>

text \<open>
  The writer is \<^verbatim>\<open>tools/extract_magika_weights.py\<close>: a magic, a version, the named tensors with their
  shapes and the labels, every number in four bytes. \<open>put\<close> writes a float.
\<close>

fun le_bytes :: "nat \<Rightarrow> nat \<Rightarrow> byte list" where
  "le_bytes 0 v = []"
| "le_bytes (Suc n) v = of_nat v # le_bytes n (v div 256)"

definition put_string :: "string \<Rightarrow> byte list" where
  "put_string s = le_bytes 4 (length s) @ bytes_of_string s"

type_synonym 'f tensor = "string \<times> nat list \<times> 'f list"

definition put_tensor :: "('f \<Rightarrow> byte list) \<Rightarrow> 'f tensor \<Rightarrow> byte list" where
  "put_tensor put t = (case t of (name, shape, floats) \<Rightarrow>
     put_string name @ le_bytes 4 (length shape) @ concat (map (le_bytes 4) shape) @ concat (map put floats))"

definition model_file :: "('f \<Rightarrow> byte list) \<Rightarrow> 'f tensor list \<Rightarrow> string list \<Rightarrow> byte list" where
  "model_file put tensors labels =
     bytes_of_string ''DSMG'' @ le_bytes 4 1 @ le_bytes 4 (length tensors) @ concat (map (put_tensor put) tensors) @
     le_bytes 4 (length labels) @ concat (map put_string labels)"

text \<open>What can be written: every number fits four bytes, and a tensor has as many floats as its shape says.\<close>

definition fits_tensor :: "'f tensor \<Rightarrow> bool" where
  "fits_tensor t = (case t of (name, shape, floats) \<Rightarrow>
     length name < 2 ^ 32 \<and> length shape < 2 ^ 32 \<and> (\<forall>d \<in> set shape. d < 2 ^ 32) \<and>
     shape_count shape = length floats)"

definition fits_file :: "'f tensor list \<Rightarrow> string list \<Rightarrow> bool" where
  "fits_file tensors labels \<longleftrightarrow> length tensors < 2 ^ 32 \<and> length labels < 2 ^ 32 \<and>
     (\<forall>t \<in> set tensors. fits_tensor t) \<and> (\<forall>l \<in> set labels. length l < 2 ^ 32)"

lemma length_le_bytes [simp]: "length (le_bytes n v) = n"
  by (induction n arbitrary: v) auto

lemma le_value_bytes: "v < 256 ^ n \<Longrightarrow> le_value (le_bytes n v) = v"
proof (induction n arbitrary: v)
  case (Suc n)
  then have "v div 256 < 256 ^ n" by (simp add: less_mult_imp_div_less)
  then show ?case using Suc.IH by (simp add: unat_of_nat)
qed simp

abbreviation good :: "byte list \<Rightarrow> ifstream" where
  "good bs \<equiv> \<lparr>is_rest = bs, is_good = True\<rparr>"

lemma stream_read_append: "length xs = n \<Longrightarrow> stream_read n (good (xs @ ys)) = (xs, good ys)"
  by (simp add: stream_read_def)

lemma readVal_le: "v < 2 ^ 32 \<Longrightarrow> readVal (good (le_bytes 4 v @ ys)) = (v, good ys)"
  using le_value_bytes [of v 4] by (simp add: readVal_def stream_read_append)

lemma readString_put:
  "length s < 2 ^ 32 \<Longrightarrow> readString (\<lambda>_. True) (good (put_string s @ ys)) = Inr (Some s, good ys)"
  by (simp add: readString_def put_string_def readVal_le stream_read_append)

lemma read_shape_put:
  "\<forall>d \<in> set shape. d < 2 ^ 32 \<Longrightarrow>
    read_shape (length shape) (good (concat (map (le_bytes 4) shape) @ ys)) = (shape, good ys)"
  by (induction shape) (simp_all add: readVal_le)

text \<open>A representation of floats: four bytes each, read back by \<open>fp_bytes\<close>.\<close>

definition float_format :: "'f fp \<Rightarrow> ('f \<Rightarrow> byte list) \<Rightarrow> bool" where
  "float_format F put \<longleftrightarrow> (\<forall>x. length (put x) = 4 \<and> fp_bytes F (put x) = x)"

lemma floats_of_put:
  assumes "float_format F put"
  shows "floats_of F (concat (map put xs)) = xs" "length (concat (map put xs)) = length xs * 4"
proof -
  have four: "\<exists>a b c d. put x = [a, b, c, d] \<and> fp_bytes F [a, b, c, d] = x" for x
  proof -
    have "length (put x) = Suc (Suc (Suc (Suc 0)))" "fp_bytes F (put x) = x"
      using assms by (simp_all add: float_format_def)
    then show ?thesis by (auto simp: length_Suc_conv)
  qed
  show "floats_of F (concat (map put xs)) = xs"
  proof (induction xs)
    case (Cons x xs)
    obtain a b c d where "put x = [a, b, c, d]" "fp_bytes F [a, b, c, d] = x" using four by blast
    then show ?case using Cons by simp
  qed simp
  show "length (concat (map put xs)) = length xs * 4"
    using assms by (induction xs) (simp_all add: float_format_def)
qed

lemma readFloats_put:
  assumes "float_format F put"
  shows "readFloats F (\<lambda>_. True) (length xs) (good (concat (map put xs) @ ys)) = Inr (Some xs, good ys)"
  by (simp add: readFloats_def stream_read_append floats_of_put [OF assms])

definition tensor_entries :: "'f tensor list \<Rightarrow> string \<rightharpoonup> 'f list" where
  "tensor_entries ts = map_of (rev (map (\<lambda>(name, shape, floats). (name, floats)) ts))"

lemma read_tensors_put:
  assumes "float_format F put" and "\<forall>t \<in> set ts. fits_tensor t"
  shows "read_tensors F (\<lambda>_. True) (length ts) m (good (concat (map (put_tensor put) ts) @ ys)) =
    Inr (Inr (m ++ tensor_entries ts, good ys))"
  using assms(2)
proof (induction ts arbitrary: m)
  case (Cons t ts)
  obtain name shape floats where t: "t = (name, shape, floats)" by (cases t) auto
  have entries: "m ++ tensor_entries ((name, shape, floats) # ts) = m(name \<mapsto> floats) ++ tensor_entries ts"
    by (simp add: tensor_entries_def map_of_append)
  have f: "length name < 2 ^ 32" "length shape < 2 ^ 32" "\<forall>d \<in> set shape. d < 2 ^ 32" "shape_count shape = length floats"
    using Cons.prems by (simp_all add: t fits_tensor_def)
  show ?case
    using Cons f
    by (simp add: t put_tensor_def readString_put readVal_le read_shape_put readFloats_put [OF assms(1)] entries)
qed (simp add: tensor_entries_def)

lemma read_labels_put:
  "\<forall>l \<in> set ls. length l < 2 ^ 32 \<Longrightarrow>
    read_labels (\<lambda>_. True) (length ls) (good (concat (map put_string ls) @ ys)) = Inr (Inr (ls, good ys))"
  by (induction ls) (simp_all add: readString_put)

lemma load_printed:
  assumes "float_format F put" and "fits_file tensors labels"
  shows "loadFromFile F (\<lambda>_. True) path (Some (model_file put tensors labels)) =
    Inr (build_model (tensor_entries tensors) labels)"
proof -
  have four: "length (bytes_of_string ''DSMG'') = 4" by simp
  show ?thesis
    using assms(2) read_labels_put [of labels "[]"]
    by (simp add: fits_file_def loadFromFile_def model_file_def stream_read_append [OF four] readVal_le
        read_tensors_put [OF assms(1)] del: length_bytes_of_string)
qed


definition put_word :: "u32 \<Rightarrow> byte list" where
  "put_word w = le_bytes 4 (unat w)"

lemma word_format: "float_format word_fp put_word"
proof -
  have "unat (w :: u32) < 2 ^ LENGTH(32)" for w by (rule unsigned_less)
  then have "unat (w :: u32) < 256 ^ 4" for w using order_less_le_trans by fastforce
  then show ?thesis by (simp add: float_format_def word_fp_def put_word_def le_value_bytes)
qed

text \<open>The ten required tensors, of one float each and without a dimension.\<close>

definition small_tensors :: "'f \<Rightarrow> 'f tensor list" where
  "small_tensors x = map (\<lambda>name. (name, [], [x])) required_tensors"


lemma small_tensors_fit: "fits_file (small_tensors x) []"
  by (simp add: fits_file_def small_tensors_def required_tensors_def fits_tensor_def shape_count_def)

lemma small_entries:
  "name \<in> set required_tensors \<Longrightarrow> tensor_entries (small_tensors x) name = Some [x]"
proof -
  have "map_of (rev (map (\<lambda>n. (n, [x])) ns)) n = Some [x]" if "n \<in> set ns" for n :: string and ns
  proof -
    obtain y where y: "map_of (rev (map (\<lambda>n. (n, [x])) ns)) n = Some y"
      using weak_map_of_SomeI [of n "[x]" "rev (map (\<lambda>n. (n, [x])) ns)"] \<open>n \<in> set ns\<close> by auto
    then have "(n, y) \<in> set (rev (map (\<lambda>n. (n, [x])) ns))" by (rule map_of_SomeD)
    then show ?thesis using y by auto
  qed
  then show "name \<in> set required_tensors \<Longrightarrow> tensor_entries (small_tensors x) name = Some [x]"
    by (simp add: tensor_entries_def small_tensors_def comp_def)
qed

lemma embedding_too_small:
  assumes "length (mm_embedWeight m) = 1" "length (mm_embedBias m) = 1" "length tokens = kInputLen"
  shows "embedding F m tokens = Inl UndefinedBehaviour"
proof -
  have l: "[0..<kInputLen] = 0 # [1..<kInputLen]" "[0..<kEmbedDim] = 0 # 1 # [2..<kEmbedDim]"
    using upt_conv_Cons [of 0 kInputLen] upt_conv_Cons [of 0 kEmbedDim] upt_conv_Cons [of 1 kEmbedDim]
    by (simp_all add: kInputLen_def kBegSize_def kEndSize_def kEmbedDim_def numeral_2_eq_2 del: upt_Suc upt_rec_numeral upt_Suc_append)
  have d: "w32 kEmbedDim = 64" "w32 0 = 0" "w32 1 = 1" by (simp_all add: w32_def kEmbedDim_def)
  have n: "0 < length tokens" "0 < kInputLen * kEmbedDim"
    using assms(3) by (simp_all add: kInputLen_def kBegSize_def kEndSize_def kEmbedDim_def)
  show ?thesis
  proof (cases "w32 (tokens ! 0 * kEmbedDim) = 0")
    case False
    then show ?thesis using n assms by (simp add: embedding_def l load_at_def)
  next
    case True
    then have "tokens ! 0 * kEmbedDim mod 2 ^ 32 = 0" by (simp add: w32_def)
    then have one: "w32 (Suc (tokens ! 0 * kEmbedDim)) = 1" by (simp add: w32_def mod_Suc)
    show ?thesis using n assms True by (simp add: embedding_def l load_at_def store_at_def one d)
  qed
qed

text \<open>
  C40: a weight file is accepted whatever the sizes of its tensors: ten tensors of one float each load
  and give a model, and every prediction with it reads outside of the embedding table.
\<close>

theorem model_sizes_unchecked:
  assumes "float_format F put"
  shows "\<exists>m. loadFromFile F (\<lambda>_. True) path (Some (model_file put (small_tensors x) [])) = Inr (Inr m) \<and>
    predict F m payload = Inl UndefinedBehaviour"
proof -
  let ?t = "tensor_entries (small_tensors x)"
  have all: "\<not> (\<exists>name \<in> set required_tensors. ?t name = None)" using small_entries [of _ x] by (metis option.distinct(1))
  have "''embed_weight'' \<in> set required_tensors" "''embed_bias'' \<in> set required_tensors" by (simp_all add: required_tensors_def)
  then have e: "?t ''embed_weight'' = Some [x]" "?t ''embed_bias'' = Some [x]" using small_entries by fast+
  obtain m where m: "build_model ?t [] = Inr m" "length (mm_embedWeight m) = 1" "length (mm_embedBias m) = 1"
    using all e by (simp add: build_model_def)
  have "predict F m payload = Inl UndefinedBehaviour"
    using embedding_too_small [OF m(2,3), of "magika_features payload" F] magika_features_bounds(1) [of payload]
    by (simp add: predict_def logits_of_def input_tokens)
  then show ?thesis using load_printed [OF assms small_tensors_fit, of path x] m(1) by auto
qed

theorem model_sizes_unchecked_witness:
  "\<exists>m. loadFromFile word_fp (\<lambda>_. True) ''w.bin'' (Some (model_file put_word (small_tensors 7) [])) = Inr (Inr m) \<and>
    predict word_fp m [0] = Inl UndefinedBehaviour"
  by (rule model_sizes_unchecked [OF word_format])

end
