(* ===== verification/Seer_Engine.thy ===== *)
theory Seer_Engine
  imports Magika_Model "HOL-Library.Multiset"
begin

text \<open>
  The inference engine (\<^verbatim>\<open>SeerLib/src/Engine.cpp\<close>): \<^verbatim>\<open>submit\<close> and \<^verbatim>\<open>shutdown\<close> of any number of calling threads
  and the worker threads, interleaved step by step. A step is what a thread does in one critical section,
  or between two. The mutex and the condition variable are part of the state: a waiting worker sleeps until
  a notification or a spurious wake-up. \<open>classify\<close> and the clock are parameters. The theorems: no item is
  lost, duplicated or answered wrongly under any interleaving; with one calling thread the order is kept,
  shutdown drains the queue and every call returns; a submit during a shutdown of another thread can
  deadlock. Callbacks are only recorded, so that a callback
  that calls the engine is not modelled. The destructor is a last \<^verbatim>\<open>shutdown\<close>.
\<close>

section \<open>The state\<close>

record 'cb WorkItem =
  wi_payload :: "byte list"
  wi_url :: string
  wi_onResult :: "'cb option"

text \<open>The threads that use an engine run a list of calls each.\<close>

datatype 'cb call = Submit "'cb WorkItem" | Shutdown

text \<open>
  Where a calling thread is. \<open>JoinOld w old new cs\<close>: in the assignment \<^verbatim>\<open>worker_ = std::jthread(...)\<close> of
  \<^verbatim>\<open>startWorker\<close>, with the mutex held, the thread \<open>new\<close> already running and the thread \<open>old\<close> of the
  handle being joined by the move assignment.
\<close>

datatype 'cb caller =
    Calling "'cb call list"
  | JoinOld "'cb WorkItem" nat nat "'cb call list"
  | NotifyOne "'cb call list"
  | NotifyAll "'cb call list"
  | Join "'cb call list"

text \<open>Where a worker thread is in \<^verbatim>\<open>workerLoop\<close>.\<close>

datatype 'cb worker = Check | Sleep | Classify "'cb WorkItem" | Exited

text \<open>
  \<open>en_worker\<close> is the handle \<^verbatim>\<open>worker_\<close>, \<open>None\<close> when it is not joinable; \<open>en_holder\<close> is the
  caller in \<open>JoinOld\<close> that holds the mutex, every other critical section is one step. \<open>en_classified\<close> and \<open>en_results\<close>
  record what was classified and which callbacks ran with which result.
\<close>

record ('cb, 'f) engine =
  en_queue :: "'cb WorkItem list"
  en_running :: bool
  en_worker :: "nat option"
  en_holder :: "nat option"
  en_workers :: "'cb worker list"
  en_callers :: "'cb caller list"
  en_clock :: nat
  en_classified :: "'cb WorkItem list"
  en_results :: "('cb \<times> 'f InferenceResult) list"
  en_fault :: "fault option"

definition engine_new :: "'cb call list list \<Rightarrow> ('cb, 'f) engine" where
  "engine_new calls = \<lparr>en_queue = [], en_running = False, en_worker = None, en_holder = None, en_workers = [],
     en_callers = map Calling calls, en_clock = 0, en_classified = [], en_results = [], en_fault = None\<rparr>"

section \<open>The calls\<close>

definition set_caller :: "nat \<Rightarrow> 'cb caller \<Rightarrow> ('cb, 'f) engine \<Rightarrow> ('cb, 'f) engine" where
  "set_caller c pc s = s\<lparr>en_callers := (en_callers s)[c := pc]\<rparr>"

definition set_worker :: "nat \<Rightarrow> 'cb worker \<Rightarrow> ('cb, 'f) engine \<Rightarrow> ('cb, 'f) engine" where
  "set_worker i pc s = s\<lparr>en_workers := (en_workers s)[i := pc]\<rparr>"

definition push :: "'cb WorkItem \<Rightarrow> ('cb, 'f) engine \<Rightarrow> ('cb, 'f) engine" where
  "push w s = s\<lparr>en_queue := en_queue s @ [w]\<rparr>"

text \<open>\<^verbatim>\<open>submit\<close>: the section under the lock, with \<^verbatim>\<open>ensureWorker\<close> and \<^verbatim>\<open>startWorker\<close>.\<close>

definition submit_locked :: "nat \<Rightarrow> 'cb WorkItem \<Rightarrow> 'cb call list \<Rightarrow> ('cb, 'f) engine \<Rightarrow> ('cb, 'f) engine" where
  "submit_locked c w cs s =
     (if en_running s then set_caller c (NotifyOne cs) (push w s)
      else
        let new = length (en_workers s);
            s = s\<lparr>en_running := True, en_workers := en_workers s @ [Check]\<rparr>
        in case en_worker s of
             None \<Rightarrow> set_caller c (NotifyOne cs) (push w (s\<lparr>en_worker := Some new\<rparr>))
           | Some old \<Rightarrow> set_caller c (JoinOld w old new cs) (s\<lparr>en_holder := Some c\<rparr>))"

text \<open>\<^verbatim>\<open>shutdown\<close>: the section under the lock.\<close>

definition shutdown_locked :: "nat \<Rightarrow> 'cb call list \<Rightarrow> ('cb, 'f) engine \<Rightarrow> ('cb, 'f) engine" where
  "shutdown_locked c cs s =
     (if \<not> en_running s then set_caller c (Calling cs) s
      else set_caller c (NotifyAll cs) (s\<lparr>en_running := False\<rparr>))"

definition wake :: "'cb worker \<Rightarrow> 'cb worker" where
  "wake pc = (if pc = Sleep then Check else pc)"

text \<open>
  One step of the calling thread \<open>c\<close>; a blocked thread does not move. \<^verbatim>\<open>notify_one\<close> wakes a thread that
  waits, the one the system chooses: \<open>k\<close>.
\<close>

definition caller_step :: "nat \<Rightarrow> nat \<Rightarrow> ('cb, 'f) engine \<Rightarrow> ('cb, 'f) engine" where
  "caller_step c k s =
     (if c < length (en_callers s) then
        (case en_callers s ! c of
           Calling [] \<Rightarrow> s
         | Calling (Submit w # cs) \<Rightarrow> if en_holder s \<noteq> None then s else submit_locked c w cs s
         | Calling (Shutdown # cs) \<Rightarrow> if en_holder s \<noteq> None then s else shutdown_locked c cs s
         | JoinOld w old new cs \<Rightarrow>
             if en_workers s ! old = Exited
             then set_caller c (NotifyOne cs) (push w (s\<lparr>en_worker := Some new, en_holder := None\<rparr>))
             else s
         | NotifyOne cs \<Rightarrow>
             if Sleep \<in> set (en_workers s)
             then if k < length (en_workers s) \<and> en_workers s ! k = Sleep
                  then set_caller c (Calling cs) (set_worker k Check s) else s
             else set_caller c (Calling cs) s
         | NotifyAll cs \<Rightarrow> set_caller c (Join cs) (s\<lparr>en_workers := map wake (en_workers s)\<rparr>)
         | Join cs \<Rightarrow>
             (case en_worker s of
                None \<Rightarrow> set_caller c (Calling cs) s
              | Some i \<Rightarrow> if en_workers s ! i = Exited then set_caller c (Calling cs) (s\<lparr>en_worker := None\<rparr>) else s))
      else s)"

section \<open>The worker\<close>

text \<open>
  One step of the worker \<open>i\<close>: the section under the lock, which ends in the wait, in the return or with an
  item, or the classification of that item and its callback.
\<close>

definition worker_step ::
  "(byte list \<Rightarrow> fault + 'f InferenceResult) \<Rightarrow> (nat \<Rightarrow> nat) \<Rightarrow> nat \<Rightarrow> ('cb, 'f) engine \<Rightarrow> ('cb, 'f) engine" where
  "worker_step classify clock i s =
     (if i < length (en_workers s) then
        (case en_workers s ! i of
           Check \<Rightarrow>
             if en_holder s \<noteq> None then s
             else (case en_queue s of
                     [] \<Rightarrow> if en_running s then set_worker i Sleep s else set_worker i Exited s
                   | w # ws \<Rightarrow> set_worker i (Classify w) (s\<lparr>en_queue := ws\<rparr>))
         | Sleep \<Rightarrow> s
         | Classify w \<Rightarrow>
             (let t0 = clock (en_clock s); t1 = clock (en_clock s + 1); s = s\<lparr>en_clock := en_clock s + 2\<rparr>
              in case classify (wi_payload w) of
                   Inl f \<Rightarrow> s\<lparr>en_fault := Some f\<rparr>
                 | Inr r \<Rightarrow>
                     set_worker i Check
                       (s\<lparr>en_classified := en_classified s @ [w],
                          en_results := en_results s @
                            (case wi_onResult w of None \<Rightarrow> [] | Some cb \<Rightarrow> [(cb, r\<lparr>ir_inferenceTime := t1 - t0\<rparr>)])\<rparr>))
         | Exited \<Rightarrow> s)
      else s)"

text \<open>Whose turn it is; a waiting thread may also wake up spuriously.\<close>

datatype turn = Caller nat nat | Worker nat | Spurious nat

definition spurious_step :: "nat \<Rightarrow> ('cb, 'f) engine \<Rightarrow> ('cb, 'f) engine" where
  "spurious_step i s = (if i < length (en_workers s) \<and> en_workers s ! i = Sleep then set_worker i Check s else s)"

definition turn_step ::
  "(byte list \<Rightarrow> fault + 'f InferenceResult) \<Rightarrow> (nat \<Rightarrow> nat) \<Rightarrow> turn \<Rightarrow> ('cb, 'f) engine \<Rightarrow> ('cb, 'f) engine" where
  "turn_step classify clock t s =
     (if en_fault s \<noteq> None then s
      else (case t of Caller c k \<Rightarrow> caller_step c k s | Worker i \<Rightarrow> worker_step classify clock i s
            | Spurious i \<Rightarrow> spurious_step i s))"

definition engine_run ::
  "(byte list \<Rightarrow> fault + 'f InferenceResult) \<Rightarrow> (nat \<Rightarrow> nat) \<Rightarrow> turn list \<Rightarrow> ('cb, 'f) engine \<Rightarrow> ('cb, 'f) engine" where
  "engine_run classify clock ts s = fold (turn_step classify clock) ts s"

section \<open>The threads\<close>

fun joining_old :: "'cb caller \<Rightarrow> bool" where
  "joining_old (JoinOld w old new cs) = True"
| "joining_old _ = False"

text \<open>
  The threads of an engine: at most the thread of the handle runs, an exited worker leaves nothing in the
  queue, a running engine has a worker; while a caller joins the old worker the mutex is held, and the
  new worker waits for it.
\<close>

definition unlocked_ok :: "('cb, 'f) engine \<Rightarrow> bool" where
  "unlocked_ok s \<longleftrightarrow>
     (\<forall>i < length (en_workers s). Some i \<noteq> en_worker s \<longrightarrow> en_workers s ! i = Exited) \<and>
     (\<forall>d < length (en_callers s). \<not> joining_old (en_callers s ! d)) \<and>
     (en_running s \<longrightarrow> en_worker s \<noteq> None \<and> en_workers s ! the (en_worker s) \<noteq> Exited) \<and>
     ((\<forall>i < length (en_workers s). en_workers s ! i = Exited) \<longrightarrow> en_queue s = [])"

definition locked_ok :: "nat \<Rightarrow> 'cb WorkItem \<Rightarrow> nat \<Rightarrow> 'cb call list \<Rightarrow> ('cb, 'f) engine \<Rightarrow> bool" where
  "locked_ok c w old cs s \<longleftrightarrow> c < length (en_callers s) \<and>
     en_callers s ! c = JoinOld w old (length (en_workers s) - 1) cs \<and>
     (\<forall>d < length (en_callers s). d \<noteq> c \<longrightarrow> \<not> joining_old (en_callers s ! d)) \<and>
     Suc old < length (en_workers s) \<and> en_running s \<and>
     en_workers s ! (length (en_workers s) - 1) = Check \<and>
     (\<forall>i < length (en_workers s) - 1. i \<noteq> old \<longrightarrow> en_workers s ! i = Exited) \<and>
     (en_workers s ! old = Exited \<longrightarrow> en_queue s = [])"

definition threads_ok :: "('cb, 'f) engine \<Rightarrow> bool" where
  "threads_ok s \<longleftrightarrow>
     (en_worker s \<noteq> None \<longrightarrow> the (en_worker s) < length (en_workers s)) \<and>
     (case en_holder s of None \<Rightarrow> unlocked_ok s | Some c \<Rightarrow> \<exists>w old cs. locked_ok c w old cs s)"

lemmas step_defs = set_caller_def set_worker_def push_def submit_locked_def shutdown_locked_def

lemma threads_ok_new: "threads_ok (engine_new calls)"
  by (simp add: threads_ok_def unlocked_ok_def engine_new_def)

text \<open>A step of a thread that keeps which threads have exited, the handle and the callers.\<close>

lemma threads_ok_same:
  assumes "threads_ok s" "en_callers s' = en_callers s" "en_worker s' = en_worker s" "en_holder s' = en_holder s"
    "en_running s' = en_running s" "length (en_workers s') = length (en_workers s)"
    "\<And>j. j < length (en_workers s) \<Longrightarrow> en_workers s' ! j = Exited \<longleftrightarrow> en_workers s ! j = Exited"
    "\<And>j. j < length (en_workers s) \<Longrightarrow> en_workers s ! j = Check \<Longrightarrow> en_holder s \<noteq> None \<Longrightarrow> en_workers s' ! j = Check"
    "en_queue s = [] \<Longrightarrow> en_queue s' = []"
  shows "threads_ok s'"
proof (cases "en_holder s")
  case None
  then have ok: "unlocked_ok s" using assms(1) by (simp add: threads_ok_def)
  have "en_running s \<Longrightarrow> en_workers s' ! the (en_worker s) \<noteq> Exited"
    using ok assms(1) assms(7) [of "the (en_worker s)"] by (auto simp: unlocked_ok_def threads_ok_def)
  moreover have "en_queue s' = []" if "\<forall>i < length (en_workers s). en_workers s' ! i = Exited"
    using that ok assms(7,9) by (simp add: unlocked_ok_def)
  ultimately show ?thesis using None ok assms(1) assms(2-7) by (simp add: threads_ok_def unlocked_ok_def)
next
  case (Some c)
  then obtain w old cs where ok: "locked_ok c w old cs s" using assms(1) by (auto simp: threads_ok_def)
  have "length (en_workers s) - 1 < length (en_workers s)" using ok by (auto simp: locked_ok_def)
  then have "en_workers s' ! (length (en_workers s) - 1) = Check"
    using ok assms(8) [of "length (en_workers s) - 1"] Some by (simp add: locked_ok_def)
  moreover have "\<forall>i < length (en_workers s) - 1. i \<noteq> old \<longrightarrow> en_workers s' ! i = Exited"
    using ok assms(7) by (simp add: locked_ok_def)
  moreover have "en_workers s' ! old = Exited \<longrightarrow> en_queue s' = []"
    using ok assms(7) [of old] assms(9) by (simp add: locked_ok_def)
  ultimately have "locked_ok c w old cs s'" using ok assms(2-6) by (simp add: locked_ok_def)
  then show ?thesis using Some assms(1,3,4,6) by (auto simp: threads_ok_def)
qed

lemma threads_worker:
  assumes "threads_ok s" shows "threads_ok (worker_step classify clock i s)"
proof (cases "i < length (en_workers s)")
  case i: True
  show ?thesis
  proof (cases "en_workers s ! i")
    case Check
    show ?thesis
    proof (cases "en_holder s")
      case None
      then have ok: "unlocked_ok s" using assms by (simp add: threads_ok_def)
      then have w: "en_worker s = Some i" using i Check by (metis unlocked_ok_def worker.distinct(5))
      show ?thesis
      proof (cases "en_queue s = [] \<and> \<not> en_running s")
        case True
        then show ?thesis
          using None ok w i Check
          by (simp add: worker_step_def set_worker_def threads_ok_def unlocked_ok_def nth_list_update)
      next
        case False
        show ?thesis
          by (rule threads_ok_same [OF assms])
            (use False i Check None in \<open>auto simp: worker_step_def set_worker_def nth_list_update split: list.splits\<close>)
      qed
    qed (use assms i Check in \<open>simp add: worker_step_def\<close>)
  next
    case (Classify w)
    show ?thesis
      by (rule threads_ok_same [OF assms])
        (use i Classify in \<open>auto simp: worker_step_def set_worker_def nth_list_update Let_def split: sum.splits\<close>)
  qed (use assms in \<open>simp_all add: worker_step_def\<close>)
qed (use assms in \<open>simp add: worker_step_def\<close>)

lemma threads_wake:
  assumes "threads_ok s" "length ws = length (en_workers s)"
    and "\<And>j. j < length ws \<Longrightarrow> ws ! j = en_workers s ! j \<or> en_workers s ! j = Sleep \<and> ws ! j = Check"
  shows "threads_ok (s\<lparr>en_workers := ws\<rparr>)"
  by (rule threads_ok_same [OF assms(1)]) (use assms(2,3) in force)+

lemma threads_caller_pc:
  assumes "threads_ok s" "c < length (en_callers s)" "\<not> joining_old (en_callers s ! c)" "\<not> joining_old pc"
  shows "threads_ok (set_caller c pc s)"
proof (cases "en_holder s")
  case None
  then show ?thesis
    using assms by (simp add: threads_ok_def unlocked_ok_def set_caller_def nth_list_update)
next
  case (Some d)
  then obtain w old cs where l: "locked_ok d w old cs s" using assms(1) by (auto simp: threads_ok_def)
  then have "c \<noteq> d" using assms(3) by (auto simp: locked_ok_def)
  then have "locked_ok d w old cs (set_caller c pc s)"
    using l assms(2,4) by (simp add: locked_ok_def set_caller_def nth_list_update)
  then show ?thesis using Some assms(1) by (auto simp: threads_ok_def set_caller_def)
qed

lemma threads_handle:
  "threads_ok s \<Longrightarrow> en_holder s = None \<Longrightarrow> threads_ok (s\<lparr>en_running := False\<rparr>)"
  "threads_ok s \<Longrightarrow> en_holder s = None \<Longrightarrow> en_worker s = Some i \<Longrightarrow> en_workers s ! i = Exited \<Longrightarrow>
    threads_ok (s\<lparr>en_worker := None\<rparr>)"
  "threads_ok s \<Longrightarrow> en_holder s = None \<Longrightarrow> en_running s \<Longrightarrow> threads_ok (push w s)"
  by (auto simp: threads_ok_def unlocked_ok_def push_def)

lemma threads_submit:
  assumes "threads_ok s" "en_holder s = None" "c < length (en_callers s)" "\<not> joining_old (en_callers s ! c)"
  shows "threads_ok (submit_locked c w cs s)"
proof -
  have ok: "unlocked_ok s" using assms by (simp add: threads_ok_def)
  show ?thesis
  proof (cases "en_running s")
    case True
    then show ?thesis
      using threads_caller_pc [OF threads_handle(3) [OF assms(1,2) True], of c w "NotifyOne cs"] assms
      by (simp add: submit_locked_def push_def)
  next
    case idle: False
    have ex: "\<forall>i < length (en_workers s). Some i \<noteq> en_worker s \<longrightarrow> en_workers s ! i = Exited"
      using ok by (simp add: unlocked_ok_def)
    show ?thesis
    proof (cases "en_worker s")
      case None
      then show ?thesis
        using idle ok assms(2-4) ex
        by (auto simp: submit_locked_def step_defs threads_ok_def unlocked_ok_def nth_append nth_list_update less_Suc_eq)
    next
      case (Some old)
      then have old: "old < length (en_workers s)" using assms(1) by (simp add: threads_ok_def)
      have q: "en_workers s ! old = Exited \<Longrightarrow> en_queue s = []" using ok ex Some by (auto simp: unlocked_ok_def)
      have "locked_ok c w old cs (submit_locked c w cs s)"
        using ok old q ex idle Some assms(3)
        by (auto simp: locked_ok_def submit_locked_def Let_def set_caller_def unlocked_ok_def nth_append nth_list_update)
      then show ?thesis using Some old idle
        by (auto simp: threads_ok_def submit_locked_def Let_def set_caller_def)
    qed
  qed
qed

lemma threads_join_old:
  assumes "locked_ok c w old cs s" "en_workers s ! old = Exited"
  shows "threads_ok (set_caller c (NotifyOne cs) (push w (s\<lparr>en_worker := Some (length (en_workers s) - 1), en_holder := None\<rparr>)))"
proof -
  let ?n = "length (en_workers s)"
  have l: "\<forall>i < ?n - 1. i \<noteq> old \<longrightarrow> en_workers s ! i = Exited" "Suc old < ?n" "en_queue s = []"
    "en_workers s ! (?n - 1) = Check" "c < length (en_callers s)" "\<forall>d < length (en_callers s). d \<noteq> c \<longrightarrow> \<not> joining_old (en_callers s ! d)"
    using assms by (simp_all add: locked_ok_def)
  have ex: "i < ?n \<Longrightarrow> i \<noteq> ?n - 1 \<Longrightarrow> en_workers s ! i = Exited" for i
    using l(1) assms(2) by (cases "i = old") simp_all
  have "\<not> (\<forall>i < ?n. en_workers s ! i = Exited)"
    using l(2,4) by (metis One_nat_def diff_Suc_less less_nat_zero_code neq0_conv worker.distinct(5))
  then show ?thesis
    using l(2,4,5,6) ex by (simp add: threads_ok_def unlocked_ok_def set_caller_def push_def nth_list_update)
qed

lemma threads_caller:
  assumes "threads_ok s" shows "threads_ok (caller_step c k s)"
proof (cases "c < length (en_callers s)")
  case c: True
  show ?thesis
  proof (cases "en_callers s ! c")
    case (Calling cs)
    show ?thesis
    proof (cases "cs = [] \<or> en_holder s \<noteq> None")
      case True
      then show ?thesis using assms Calling by (cases cs) (auto simp: caller_step_def split: call.split)
    next
      case False
      then obtain x cs' where cs: "cs = x # cs'" and h: "en_holder s = None" by (cases cs) auto
      have j: "\<not> joining_old (en_callers s ! c)" using Calling by simp
      show ?thesis
      proof (cases x)
        case (Submit w)
        then show ?thesis using threads_submit [OF assms h c j] Calling c cs h by (simp add: caller_step_def)
      next
        case Shutdown
        then show ?thesis
          using threads_caller_pc [OF assms c j, of "Calling cs'"] Calling c cs h
            threads_caller_pc [OF threads_handle(1) [OF assms h], of c "NotifyAll cs'"]
          by (simp add: caller_step_def shutdown_locked_def)
      qed
    qed
  next
    case (JoinOld w old new cs)
    show ?thesis
    proof (cases "en_holder s")
      case None
      then have "\<not> joining_old (en_callers s ! c)" using assms c by (simp add: threads_ok_def unlocked_ok_def)
      then show ?thesis by (simp add: JoinOld)
    next
      case (Some d)
      then obtain w' old' cs' where l: "locked_ok d w' old' cs' s" using assms by (auto simp: threads_ok_def)
      moreover have "joining_old (en_callers s ! c)" by (simp add: JoinOld)
      ultimately have "d = c" using c unfolding locked_ok_def by metis
      with l JoinOld have "locked_ok c w old cs s" "new = length (en_workers s) - 1" by (simp_all add: locked_ok_def)
      then show ?thesis using threads_join_old [of c w old cs s] assms JoinOld c by (simp add: caller_step_def)
    qed
  next
    case (NotifyOne cs)
    have "threads_ok (set_caller c (Calling cs) (set_worker k Check s))" if "k < length (en_workers s)" "en_workers s ! k = Sleep"
    proof -
      have "threads_ok (s\<lparr>en_workers := (en_workers s)[k := Check]\<rparr>)"
        by (rule threads_wake [OF assms]) (use that in \<open>auto simp: nth_list_update\<close>)
      then show ?thesis using threads_caller_pc [of "s\<lparr>en_workers := (en_workers s)[k := Check]\<rparr>" c "Calling cs"] c NotifyOne by (simp add: set_worker_def)
    qed
    then show ?thesis
      using assms c NotifyOne threads_caller_pc [OF assms c, of "Calling cs"] by (simp add: caller_step_def)
  next
    case (NotifyAll cs)
    then show ?thesis
      using c threads_caller_pc [OF threads_wake [OF assms, of "map wake (en_workers s)"], of c "Join cs"]
      by (simp add: caller_step_def wake_def)
  next
    case (Join cs)
    show ?thesis
    proof (cases "en_worker s")
      case None
      then show ?thesis using Join c threads_caller_pc [OF assms c] by (simp add: caller_step_def)
    next
      case (Some i)
      have "threads_ok (s\<lparr>en_worker := None\<rparr>)" if "en_workers s ! i = Exited"
        using threads_handle(2) [OF assms _ Some that] assms
        by (cases "en_holder s") (auto simp: threads_ok_def locked_ok_def)
      then show ?thesis
        using Some Join c assms threads_caller_pc [of "s\<lparr>en_worker := None\<rparr>" c "Calling cs"] by (simp add: caller_step_def)
    qed
  qed
qed (use assms in \<open>simp add: caller_step_def\<close>)

lemma threads_turn: "threads_ok s \<Longrightarrow> threads_ok (turn_step classify clock t s)"
proof (cases t)
  case (Spurious i)
  assume ok: "threads_ok s"
  have "threads_ok (set_worker i Check s)" if "i < length (en_workers s)" "en_workers s ! i = Sleep"
    unfolding set_worker_def by (rule threads_wake [OF ok]) (use that in \<open>auto simp: nth_list_update\<close>)
  then show ?thesis using ok Spurious by (simp add: turn_step_def spurious_step_def)
qed (simp_all add: turn_step_def threads_caller threads_worker)

section \<open>Every item once\<close>

fun submits :: "'cb call list \<Rightarrow> 'cb WorkItem list" where
  "submits [] = []"
| "submits (Submit w # cs) = w # submits cs"
| "submits (Shutdown # cs) = submits cs"

text \<open>The items a caller has still to push, and the item a worker holds.\<close>

fun to_push :: "'cb caller \<Rightarrow> 'cb WorkItem list" where
  "to_push (JoinOld w old new cs) = w # submits cs"
| "to_push (Calling cs) = submits cs"
| "to_push (NotifyOne cs) = submits cs"
| "to_push (NotifyAll cs) = submits cs"
| "to_push (Join cs) = submits cs"

fun held :: "'cb worker \<Rightarrow> 'cb WorkItem list" where
  "held (Classify w) = [w]"
| "held _ = []"

definition in_flight :: "('cb, 'f) engine \<Rightarrow> 'cb WorkItem list" where
  "in_flight s = concat (map held (en_workers s))"

definition waiting :: "('cb, 'f) engine \<Rightarrow> 'cb WorkItem list" where
  "waiting s = concat (map to_push (en_callers s))"

definition items :: "('cb, 'f) engine \<Rightarrow> 'cb WorkItem multiset" where
  "items s = mset (en_classified s) + mset (in_flight s) + mset (en_queue s) + mset (waiting s)"

text \<open>What the callbacks of classified items have to get, up to the duration.\<close>

definition untimed :: "'f InferenceResult \<Rightarrow> 'f InferenceResult" where
  "untimed r = r\<lparr>ir_inferenceTime := 0\<rparr>"

definition answer :: "(byte list \<Rightarrow> fault + 'f InferenceResult) \<Rightarrow> 'cb WorkItem \<Rightarrow> ('cb \<times> 'f InferenceResult) list" where
  "answer classify w = (case (wi_onResult w, classify (wi_payload w)) of
     (Some cb, Inr r) \<Rightarrow> [(cb, untimed r)] | _ \<Rightarrow> [])"

definition answered :: "(byte list \<Rightarrow> fault + 'f InferenceResult) \<Rightarrow> ('cb, 'f) engine \<Rightarrow> bool" where
  "answered classify s \<longleftrightarrow>
     map (\<lambda>(cb, r). (cb, untimed r)) (en_results s) = concat (map (answer classify) (en_classified s))"

lemma mset_concat_update:
  "i < length xs \<Longrightarrow> mset (concat (map f (xs[i := x]))) + mset (f (xs ! i)) = mset (concat (map f xs)) + mset (f x)"
proof -
  assume i: "i < length xs"
  have "mset (concat (map f xs)) =
      mset (concat (map f (take i xs))) + mset (f (xs ! i)) + mset (concat (map f (drop (Suc i) xs)))"
    by (subst id_take_nth_drop [OF i]) simp
  moreover have "mset (concat (map f (xs[i := x]))) =
      mset (concat (map f (take i xs))) + mset (f x) + mset (concat (map f (drop (Suc i) xs)))"
    by (simp add: upd_conv_take_nth_drop [OF i])
  ultimately show ?thesis by simp
qed

lemma waiting_caller:
  "c < length (en_callers s) \<Longrightarrow>
    mset (waiting (set_caller c pc s)) + mset (to_push (en_callers s ! c)) = mset (waiting s) + mset (to_push pc)"
  by (simp add: waiting_def set_caller_def mset_concat_update)

lemma flight_worker:
  "i < length (en_workers s) \<Longrightarrow>
    mset (in_flight (set_worker i pc s)) + mset (held (en_workers s ! i)) = mset (in_flight s) + mset (held pc)"
  by (simp add: in_flight_def set_worker_def mset_concat_update)

lemma items_caller_pc:
  assumes "c < length (en_callers s)" "mset (to_push (en_callers s ! c)) = mset (to_push pc)"
  shows "items (set_caller c pc s) = items s"
  using waiting_caller [OF assms(1), of pc] assms(2) by (simp add: items_def set_caller_def in_flight_def)

lemma items_push:
  assumes "c < length (en_callers s)" "to_push (en_callers s ! c) = w # to_push pc"
  shows "items (set_caller c pc (push w s)) = items s"
  using waiting_caller [OF assms(1), of pc] assms(2)
  by (simp add: items_def set_caller_def in_flight_def push_def waiting_def)

lemma items_cong:
  "en_workers s' = en_workers s \<Longrightarrow> en_callers s' = en_callers s \<Longrightarrow> en_queue s' = en_queue s \<Longrightarrow>
    en_classified s' = en_classified s \<Longrightarrow> items s' = items s"
  by (simp add: items_def in_flight_def waiting_def)

lemma held_wake [simp]: "held (wake pc) = held pc"
  by (simp add: wake_def)

lemma items_workers:
  "concat (map held ws) = in_flight s \<Longrightarrow> items (s\<lparr>en_workers := ws\<rparr>) = items s"
  by (simp add: items_def in_flight_def waiting_def)

lemma items_submit:
  fixes s :: "('cb, 'f) engine"
  assumes "c < length (en_callers s)" "en_callers s ! c = Calling (Submit w # cs)"
  shows "items (submit_locked c w cs s) = items s"
proof -
  have s: "items (s\<lparr>en_running := True, en_workers := en_workers s @ [Check], en_worker := h\<rparr>) = items s"
    "items (s\<lparr>en_running := True, en_workers := en_workers s @ [Check], en_holder := h\<rparr>) = items s" for h
    by (simp_all add: items_def in_flight_def waiting_def)
  have push: "items (set_caller c (NotifyOne cs) (push w s')) = items s'" if "en_callers s' = en_callers s" for s' :: "('cb, 'f) engine"
    using items_push [of c s' w "NotifyOne cs"] assms that by simp
  have "items (set_caller c (JoinOld w old new cs) s') = items s'" if "en_callers s' = en_callers s" for old new and s' :: "('cb, 'f) engine"
    using items_caller_pc [of c s' "JoinOld w old new cs"] assms that by simp
  then show ?thesis
    using push s by (simp add: submit_locked_def Let_def split: option.split)
qed

lemma items_caller:
  fixes s :: "('cb, 'f) engine" shows "items (caller_step c k s) = items s"
proof (cases "c < length (en_callers s)")
  case c: True
  have pc: "items (set_caller c pc s') = items s'"
    if "en_callers s' = en_callers s" "to_push pc = to_push (en_callers s ! c)" for s' :: "('cb, 'f) engine" and pc
    using items_caller_pc [of c s' pc] c that by simp
  show ?thesis
  proof (cases "en_callers s ! c")
    case (Calling cs)
    show ?thesis
    proof (cases cs)
      case (Cons x cs')
      then show ?thesis
        using c Calling items_submit [of c s] pc [of s "Calling cs'"] pc [of "s\<lparr>en_running := False\<rparr>" "NotifyAll cs'"]
          items_cong [of "s\<lparr>en_running := False\<rparr>" s]
        by (cases x) (auto simp: caller_step_def shutdown_locked_def)
    qed (use Calling in \<open>simp add: caller_step_def\<close>)
  next
    case (JoinOld w old new cs)
    then show ?thesis
      using c items_push [of c "s\<lparr>en_worker := Some new, en_holder := None\<rparr>" w "NotifyOne cs"]
        items_cong [of "s\<lparr>en_worker := Some new, en_holder := None\<rparr>" s]
      by (simp add: caller_step_def)
  next
    case (NotifyOne cs)
    have "items (set_worker k Check s) = items s" if "k < length (en_workers s)" "en_workers s ! k = Sleep"
      using flight_worker [OF that(1), of Check] that(2) by (simp add: items_def set_worker_def waiting_def)
    then show ?thesis
      using c NotifyOne pc [of "set_worker k Check s" "Calling cs"] pc [of s "Calling cs"]
      by (simp add: caller_step_def set_worker_def)
  next
    case (NotifyAll cs)
    have "items (s\<lparr>en_workers := map wake (en_workers s)\<rparr>) = items s"
      by (rule items_workers) (simp add: in_flight_def comp_def)
    then show ?thesis
      using c NotifyAll pc [of "s\<lparr>en_workers := map wake (en_workers s)\<rparr>" "Join cs"] by (simp add: caller_step_def)
  next
    case (Join cs)
    then show ?thesis
      using c pc [of s "Calling cs"] pc [of "s\<lparr>en_worker := None\<rparr>" "Calling cs"] items_cong [of "s\<lparr>en_worker := None\<rparr>" s]
      by (simp add: caller_step_def split: option.splits)
  qed
qed (simp add: caller_step_def)

text \<open>Classification of an item may not fault.\<close>

definition total_classify :: "(byte list \<Rightarrow> fault + 'f InferenceResult) \<Rightarrow> bool" where
  "total_classify classify \<longleftrightarrow> (\<forall>p. \<exists>r. classify p = Inr r)"

lemma items_worker:
  assumes "total_classify classify" shows "items (worker_step classify clock i s) = items s"
proof (cases "i < length (en_workers s)")
  case i: True
  have set: "items (set_worker i pc s) + mset (held (en_workers s ! i)) = items s + mset (held pc)" for pc
    using flight_worker [OF i, of pc] by (simp add: items_def set_worker_def waiting_def)
  show ?thesis
  proof (cases "en_workers s ! i")
    case Check
    have "items (set_worker i (Classify w) (s\<lparr>en_queue := ws\<rparr>)) = items s" if "en_queue s = w # ws" for w ws
      using flight_worker [OF i, of "Classify w"] that Check
      by (simp add: items_def set_worker_def waiting_def in_flight_def)
    then show ?thesis using i Check set [of Sleep] set [of Exited]
      by (simp add: worker_step_def split: list.split)
  next
    case (Classify w)
    obtain r where r: "classify (wi_payload w) = Inr r" using assms by (auto simp: total_classify_def)
    show ?thesis using flight_worker [OF i, of Check] i Classify r
      by (simp add: worker_step_def Let_def items_def set_worker_def waiting_def in_flight_def)
  qed (use i in \<open>simp_all add: worker_step_def\<close>)
qed (simp add: worker_step_def)

lemma items_turn: "total_classify classify \<Longrightarrow> items (turn_step classify clock t s) = items s"
proof (cases t)
  case (Spurious i)
  have "items (set_worker i Check s) = items s" if "i < length (en_workers s)" "en_workers s ! i = Sleep"
    using flight_worker [OF that(1), of Check] that(2) by (simp add: items_def set_worker_def waiting_def)
  then show ?thesis using Spurious by (simp add: turn_step_def spurious_step_def)
qed (simp_all add: turn_step_def items_caller items_worker)

lemma untimed_time [simp]: "untimed (r\<lparr>ir_inferenceTime := t\<rparr>) = untimed r"
  by (simp add: untimed_def)

lemma caller_results:
  "en_results (caller_step c k s) = en_results s" "en_classified (caller_step c k s) = en_classified s"
  "en_fault (caller_step c k s) = en_fault s"
  by (simp_all add: caller_step_def step_defs Let_def split: caller.split list.split call.split option.split)

lemma answered_turn: "answered classify s \<Longrightarrow> answered classify (turn_step classify clock t s)"
proof (cases t)
  case (Worker i)
  assume ok: "answered classify s"
  have "answered classify (worker_step classify clock i s)"
  proof (cases "i < length (en_workers s)")
    case i: True
    show ?thesis
    proof (cases "en_workers s ! i")
      case (Classify w)
      then show ?thesis using ok i
        by (auto simp: worker_step_def answered_def answer_def Let_def set_worker_def split: sum.split option.split)
    qed (use ok i in \<open>simp_all add: worker_step_def answered_def set_worker_def split: list.split\<close>)
  qed (use ok in \<open>simp add: worker_step_def\<close>)
  then show ?thesis using ok Worker by (simp add: turn_step_def)
qed (simp_all add: turn_step_def answered_def caller_results spurious_step_def set_worker_def)

lemma fault_turn: "total_classify classify \<Longrightarrow> en_fault s = None \<Longrightarrow> en_fault (turn_step classify clock t s) = None"
proof (cases t)
  case (Worker i)
  assume c: "total_classify classify" and ok: "en_fault s = None"
  have "\<exists>r. classify p = Inr r" for p using c by (simp add: total_classify_def)
  then have "classify p \<noteq> Inl f" for p f by (metis sum.distinct(1))
  then show ?thesis using ok Worker
    by (simp add: turn_step_def worker_step_def set_worker_def Let_def split: worker.split list.split sum.split)
qed (simp_all add: turn_step_def caller_results spurious_step_def set_worker_def)

text \<open>A property of states that every turn keeps holds after every run.\<close>

lemma run_induct:
  "P s \<Longrightarrow> (\<And>t s. P s \<Longrightarrow> P (turn_step classify clock t s)) \<Longrightarrow> P (engine_run classify clock ts s)"
  unfolding engine_run_def by (induction ts arbitrary: s) simp_all

text \<open>
  C25: under every interleaving of the calling threads, the worker threads and spurious wake-ups, every
  submitted item is in exactly one place, not yet pushed, queued, being classified or classified, and the
  callbacks that ran are those of the classified items, in order, each with the result of its payload.
\<close>

theorem each_item_once:
  assumes "total_classify classify"
  shows "let s = engine_run classify clock ts (engine_new calls)
    in mset (en_classified s) + mset (in_flight s) + mset (en_queue s) + mset (waiting s) = mset (concat (map submits calls)) \<and>
       map (\<lambda>(cb, r). (cb, untimed r)) (en_results s) = concat (map (answer classify) (en_classified s)) \<and>
       en_fault s = None"
proof -
  let ?new = "engine_new calls"
  have "items ?new = mset (concat (map submits calls))"
    by (simp add: items_def engine_new_def in_flight_def waiting_def comp_def)
  moreover have "answered classify ?new" "en_fault ?new = None" by (simp_all add: answered_def engine_new_def)
  ultimately have "items (engine_run classify clock ts ?new) = mset (concat (map submits calls)) \<and>
      answered classify (engine_run classify clock ts ?new) \<and> en_fault (engine_run classify clock ts ?new) = None"
    by (intro run_induct [where P = "\<lambda>s. items s = mset (concat (map submits calls)) \<and> answered classify s \<and> en_fault s = None"])
      (simp_all add: items_turn [OF assms] answered_turn fault_turn [OF assms])
  then show ?thesis by (simp add: Let_def items_def answered_def)
qed

section \<open>One calling thread\<close>

text \<open>While the engine is used from one thread, as the proxy does, the mutex is free between the steps.\<close>

fun serial_pc :: "'cb caller \<Rightarrow> bool \<Rightarrow> nat option \<Rightarrow> bool" where
  "serial_pc (Calling cs) running h = ((running \<or> h = None) \<and> (cs = [] \<longrightarrow> \<not> running) \<and> (cs \<noteq> [] \<longrightarrow> last cs = Shutdown))"
| "serial_pc (NotifyOne cs) running h = (running \<and> cs \<noteq> [] \<and> last cs = Shutdown)"
| "serial_pc (NotifyAll cs) running h = (\<not> running \<and> (cs \<noteq> [] \<longrightarrow> last cs = Shutdown))"
| "serial_pc (Join cs) running h = (\<not> running \<and> (cs \<noteq> [] \<longrightarrow> last cs = Shutdown))"
| "serial_pc (JoinOld w old new cs) running h = False"

text \<open>A sleeping worker has nothing to do, or a notification is on its way.\<close>

fun notifies :: "'cb caller \<Rightarrow> bool" where
  "notifies (NotifyOne cs) = True"
| "notifies (NotifyAll cs) = True"
| "notifies _ = False"

definition sleep_ok :: "('cb, 'f) engine \<Rightarrow> bool" where
  "sleep_ok s \<longleftrightarrow> (\<forall>i < length (en_workers s). en_workers s ! i = Sleep \<longrightarrow>
     (en_queue s \<noteq> [] \<or> \<not> en_running s \<longrightarrow> notifies (en_callers s ! 0)))"

definition serial_ok :: "('cb, 'f) engine \<Rightarrow> bool" where
  "serial_ok s \<longleftrightarrow> threads_ok s \<and> en_holder s = None \<and> en_fault s = None \<and> length (en_callers s) = 1 \<and>
     serial_pc (en_callers s ! 0) (en_running s) (en_worker s) \<and> sleep_ok s"

lemma serial_new: "(cs \<noteq> [] \<longrightarrow> last cs = Shutdown) \<Longrightarrow> serial_ok (engine_new [cs])"
  using threads_ok_new [of "[cs]"] by (simp add: serial_ok_def engine_new_def sleep_ok_def)

lemma serial_caller:
  assumes "serial_ok s" shows "serial_ok (caller_step c k s)"
proof (cases "c = 0")
  case False
  then show ?thesis using assms by (simp add: caller_step_def serial_ok_def)
next
  case True
  have t: "threads_ok (caller_step c k s)" "en_fault (caller_step c k s) = None"
    using assms by (simp_all add: serial_ok_def caller_results threads_caller)
  have "threads_ok s" and h: "en_holder s = None" and len: "length (en_callers s) = 1" "en_callers s \<noteq> []"
    and pc: "serial_pc (en_callers s ! 0) (en_running s) (en_worker s)" and sl: "sleep_ok s"
    using assms by (auto simp: serial_ok_def)
  then have one: "j < length (en_workers s) \<Longrightarrow> en_workers s ! j = Sleep \<Longrightarrow> Some j = en_worker s" for j
    by (auto simp: threads_ok_def unlocked_ok_def)
  show ?thesis
  proof (cases "en_callers s ! 0")
    case (Calling cs)
    show ?thesis
    proof (cases cs)
      case (Cons x cs')
      show ?thesis
      proof (cases x)
        case (Submit w)
        have "en_running s \<or> en_worker s = None" "cs' \<noteq> []" "last cs' = Shutdown"
          using pc Calling Cons Submit by (auto split: if_splits)
        then show ?thesis
          using t sl h len Calling Cons Submit True one
          by (auto simp: caller_step_def submit_locked_def step_defs serial_ok_def sleep_ok_def nth_append less_Suc_eq)
      next
        case Shutdown
        then show ?thesis
          using t sl h len pc Calling Cons True
          by (auto simp: caller_step_def step_defs serial_ok_def sleep_ok_def split: if_splits)
      qed
    qed (use assms Calling True in \<open>simp add: caller_step_def\<close>)
  next
    case (JoinOld w old new cs)
    then show ?thesis using pc by simp
  next
    case (NotifyOne cs)
    have "sleep_ok (set_caller 0 (Calling cs) (set_worker k Check s))" if "k < length (en_workers s)" "en_workers s ! k = Sleep"
    proof -
      have "(en_workers s)[k := Check] ! i \<noteq> Sleep" if "i < length (en_workers s)" for i
        using one [of i] one [OF \<open>k < length (en_workers s)\<close> \<open>en_workers s ! k = Sleep\<close>] that
        by (cases "i = k") (auto, metis option.inject)
      then show ?thesis by (simp add: sleep_ok_def set_caller_def set_worker_def)
    qed
    moreover have "sleep_ok (set_caller 0 (Calling cs) s)" if "Sleep \<notin> set (en_workers s)"
      using that by (auto simp: sleep_ok_def set_caller_def in_set_conv_nth)
    ultimately show ?thesis
      using t h len pc NotifyOne True assms
      by (auto simp: caller_step_def serial_ok_def set_caller_def set_worker_def)
  next
    case (NotifyAll cs)
    then show ?thesis
      using t h len pc True by (auto simp: caller_step_def serial_ok_def set_caller_def sleep_ok_def wake_def)
  next
    case (Join cs)
    have "j < length (en_workers s) \<Longrightarrow> en_workers s ! j \<noteq> Sleep" for j
      using sl pc Join by (auto simp: sleep_ok_def)
    then show ?thesis
      using t h len pc True Join assms
      by (auto simp: caller_step_def serial_ok_def set_caller_def sleep_ok_def split: option.splits)
  qed
qed

lemma serial_worker:
  assumes "total_classify classify" "serial_ok s" shows "serial_ok (worker_step classify clock i s)"
proof -
  have t: "threads_ok (worker_step classify clock i s)" "en_fault (worker_step classify clock i s) = None"
    using assms fault_turn [OF assms(1), of s clock "Worker i"] by (simp_all add: serial_ok_def turn_step_def threads_worker)
  have same: "en_callers (worker_step classify clock i s) = en_callers s" "en_holder (worker_step classify clock i s) = en_holder s"
    "en_running (worker_step classify clock i s) = en_running s" "en_worker (worker_step classify clock i s) = en_worker s"
    by (simp_all add: worker_step_def set_worker_def Let_def split: worker.split list.split sum.split)
  have "sleep_ok (worker_step classify clock i s)"
    using assms(2)
    by (auto simp: serial_ok_def sleep_ok_def worker_step_def set_worker_def Let_def nth_list_update
        split: worker.splits list.splits sum.splits)
  then show ?thesis using t same assms(2) by (simp add: serial_ok_def)
qed

lemma serial_turn:
  assumes "total_classify classify" "serial_ok s" shows "serial_ok (turn_step classify clock t s)"
proof (cases t)
  case (Spurious i)
  then show ?thesis
    using assms(2) threads_turn [of s classify clock t]
    by (auto simp: turn_step_def spurious_step_def serial_ok_def sleep_ok_def set_worker_def nth_list_update)
qed (use assms in \<open>simp_all add: turn_step_def serial_caller serial_worker\<close>)

text \<open>The items in the order in which they were, are or will be classified.\<close>

definition item_order :: "('cb, 'f) engine \<Rightarrow> 'cb WorkItem list" where
  "item_order s = en_classified s @ in_flight s @ en_queue s @ waiting s"

lemma serial_facts:
  assumes "serial_ok s"
  shows "length (en_callers s) = 1" "waiting s = to_push (en_callers s ! 0)" "en_holder s = None" "en_fault s = None"
    "\<And>i j. i < length (en_workers s) \<Longrightarrow> en_workers s ! i \<noteq> Exited \<Longrightarrow> j < length (en_workers s) \<Longrightarrow> j \<noteq> i \<Longrightarrow> en_workers s ! j = Exited"
    "\<And>i. i < length (en_workers s) \<Longrightarrow> en_workers s ! i \<noteq> Exited \<Longrightarrow> en_worker s = Some i"
proof -
  show l: "length (en_callers s) = 1" "en_holder s = None" "en_fault s = None" using assms by (simp_all add: serial_ok_def)
  then obtain pc where "en_callers s = [pc]" by (auto simp: length_Suc_conv)
  then show "waiting s = to_push (en_callers s ! 0)" by (simp add: waiting_def)
  have a: "\<forall>i < length (en_workers s). Some i \<noteq> en_worker s \<longrightarrow> en_workers s ! i = Exited"
    using assms l(2) by (auto simp: serial_ok_def threads_ok_def unlocked_ok_def)
  then show "\<And>i. i < length (en_workers s) \<Longrightarrow> en_workers s ! i \<noteq> Exited \<Longrightarrow> en_worker s = Some i" by metis
  then show "\<And>i j. i < length (en_workers s) \<Longrightarrow> en_workers s ! i \<noteq> Exited \<Longrightarrow> j < length (en_workers s) \<Longrightarrow> j \<noteq> i \<Longrightarrow> en_workers s ! j = Exited"
    using a by (metis option.inject)
qed

lemma flight_alone:
  assumes "serial_ok s" "i < length (en_workers s)" "en_workers s ! i \<noteq> Exited"
  shows "in_flight (set_worker i pc s) = held pc" "in_flight s = held (en_workers s ! i)"
proof -
  let ?ws = "en_workers s"
  have e: "concat (map held (take i ?ws)) = []" "concat (map held (drop (Suc i) ?ws)) = []"
    using serial_facts(5) [OF assms(1-3)] by (auto simp: in_set_conv_nth)
  show "in_flight (set_worker i pc s) = held pc"
    by (simp add: in_flight_def set_worker_def upd_conv_take_nth_drop [OF assms(2)] e del: concat_eq_Nil_conv)
  show "in_flight s = held (en_workers s ! i)"
    unfolding in_flight_def by (subst id_take_nth_drop [OF assms(2)]) (simp add: e del: concat_eq_Nil_conv)
qed

lemma order_worker:
  assumes "total_classify classify" "serial_ok s" shows "item_order (worker_step classify clock i s) = item_order s"
proof (cases "i < length (en_workers s) \<and> en_workers s ! i \<noteq> Exited")
  case True
  note fl = flight_alone [OF assms(2) conjunct1 [OF True] conjunct2 [OF True]]
  have h: "en_holder s = None" using assms(2) by (rule serial_facts)
  show ?thesis
  proof (cases "en_workers s ! i")
    case Check
    show ?thesis
      using fl(1) [of Sleep] fl(1) [of Exited] fl(1) [of "Classify (hd (en_queue s))"] fl(2) True Check h
      by (cases "en_queue s")
        (simp_all add: worker_step_def item_order_def set_worker_def waiting_def in_flight_def del: concat_eq_Nil_conv)
  next
    case (Classify w)
    obtain r where "classify (wi_payload w) = Inr r" using assms(1) by (auto simp: total_classify_def)
    then show ?thesis using fl(1) [of Check] fl(2) True Classify
      by (simp add: worker_step_def item_order_def set_worker_def waiting_def in_flight_def Let_def del: concat_eq_Nil_conv)
  qed (use True in \<open>simp_all add: worker_step_def\<close>)
qed (auto simp: worker_step_def)

lemma order_caller:
  assumes "serial_ok s" shows "item_order (caller_step c k s) = item_order s"
proof (cases "c = 0")
  case True
  note f = serial_facts [OF assms]
  have one: "waiting (set_caller 0 pc s') = to_push pc" if "length (en_callers s') = 1" for pc and s' :: "('a, 'b) engine"
    using that by (auto simp: waiting_def set_caller_def length_Suc_conv)
  have pc: "serial_pc (en_callers s ! 0) (en_running s) (en_worker s)" using assms by (simp add: serial_ok_def)
  show ?thesis
  proof (cases "en_callers s ! 0")
    case (Calling cs)
    show ?thesis
    proof (cases cs)
      case (Cons x cs')
      then have "x = Shutdown \<or> (\<exists>w. x = Submit w \<and> (en_running s \<or> en_worker s = None))"
        using pc Calling by (cases x) auto
      then show ?thesis
        using f(1-3) one [of s] Calling Cons True
        by (auto simp: caller_step_def submit_locked_def shutdown_locked_def item_order_def in_flight_def push_def set_caller_def waiting_def
            length_Suc_conv)
    qed (use Calling True in \<open>simp add: caller_step_def\<close>)
  next
    case (JoinOld w old new cs)
    then show ?thesis using pc by simp
  next
    case (NotifyOne cs)
    have "in_flight (set_worker k Check s) = in_flight s" if "k < length (en_workers s)" "en_workers s ! k = Sleep"
      using flight_alone [OF assms that(1)] that(2) by simp
    then show ?thesis
      using f(1,2) NotifyOne True
      by (auto simp: caller_step_def item_order_def set_caller_def set_worker_def waiting_def in_flight_def length_Suc_conv)
  next
    case (NotifyAll cs)
    then show ?thesis
      using f(1,2) True
      by (auto simp: caller_step_def item_order_def set_caller_def waiting_def in_flight_def length_Suc_conv comp_def)
  next
    case (Join cs)
    then show ?thesis
      using f(1,2) True
      by (auto simp: caller_step_def item_order_def set_caller_def waiting_def in_flight_def length_Suc_conv split: option.split)
  qed
qed (use serial_facts(1) [OF assms] in \<open>simp add: caller_step_def\<close>)

lemma order_turn:
  assumes "total_classify classify" "serial_ok s" shows "item_order (turn_step classify clock t s) = item_order s"
proof (cases t)
  case (Spurious i)
  have "in_flight (set_worker i Check s) = in_flight s" if "i < length (en_workers s)" "en_workers s ! i = Sleep"
    using flight_alone [OF assms(2) that(1)] that(2) by simp
  then show ?thesis using Spurious by (auto simp: turn_step_def spurious_step_def item_order_def set_worker_def waiting_def in_flight_def)
qed (use assms in \<open>simp_all add: turn_step_def order_caller order_worker\<close>)

text \<open>All that a run of one caller keeps.\<close>

lemma serial_run:
  assumes "total_classify classify" "cs \<noteq> [] \<longrightarrow> last cs = Shutdown"
  shows "serial_ok (engine_run classify clock ts (engine_new [cs]))"
    "item_order (engine_run classify clock ts (engine_new [cs])) = submits cs"
    "answered classify (engine_run classify clock ts (engine_new [cs]))"
proof -
  have "serial_ok (engine_new [cs])" "item_order (engine_new [cs]) = submits cs" "answered classify (engine_new [cs])"
    using serial_new [OF assms(2)] by (simp_all add: item_order_def engine_new_def in_flight_def waiting_def answered_def)
  then have "serial_ok (engine_run classify clock ts (engine_new [cs])) \<and>
      item_order (engine_run classify clock ts (engine_new [cs])) = submits cs \<and>
      answered classify (engine_run classify clock ts (engine_new [cs]))"
    by (intro run_induct [where P = "\<lambda>s. serial_ok s \<and> item_order s = submits cs \<and> answered classify s"])
      (simp_all add: serial_turn [OF assms(1)] order_turn [OF assms(1)] answered_turn)
  then show "serial_ok (engine_run classify clock ts (engine_new [cs]))"
    "item_order (engine_run classify clock ts (engine_new [cs])) = submits cs"
    "answered classify (engine_run classify clock ts (engine_new [cs]))" by simp_all
qed

lemma drained:
  assumes "total_classify classify" "last cs = Shutdown" "cs \<noteq> []"
    and "en_callers (engine_run classify clock ts (engine_new [cs])) = [Calling []]"
  shows "let s = engine_run classify clock ts (engine_new [cs])
    in en_classified s = submits cs \<and>
       map (\<lambda>(cb, r). (cb, untimed r)) (en_results s) = concat (map (answer classify) (submits cs)) \<and>
       en_queue s = [] \<and> list_all (\<lambda>pc. pc = Exited) (en_workers s)"
proof -
  define s where "s = engine_run classify clock ts (engine_new [cs])"
  have s: "serial_ok s" "item_order s = submits cs" "answered classify s" "en_callers s = [Calling []]"
    unfolding s_def using assms(2-4) by (simp_all add: serial_run [OF assms(1)])
  then have "en_worker s = None" by (auto simp: serial_ok_def)
  then have ex: "\<forall>i < length (en_workers s). en_workers s ! i = Exited" "en_queue s = []"
    using s(1) serial_facts(3) [OF s(1)] by (auto simp: serial_ok_def threads_ok_def unlocked_ok_def)
  then have all: "list_all (\<lambda>pc. pc = Exited) (en_workers s)" by (simp add: list_all_length)
  then have "\<forall>pc \<in> set (en_workers s). held pc = []" by (fastforce simp: list_all_iff)
  then have "in_flight s = []" by (simp add: in_flight_def)
  then have "en_classified s = submits cs" using s(2,4) ex(2) by (simp add: item_order_def waiting_def)
  then show ?thesis using s(3) ex(2) all by (simp add: s_def [symmetric] Let_def answered_def)
qed


section \<open>Every run ends\<close>

fun caller_work :: "'cb caller \<Rightarrow> nat" where
  "caller_work (Calling cs) = 20 * length cs"
| "caller_work (NotifyOne cs) = 20 * length cs + 2"
| "caller_work (NotifyAll cs) = 20 * length cs + 3"
| "caller_work (Join cs) = 20 * length cs + 1"
| "caller_work (JoinOld w old new cs) = 20 * length cs + 6"

fun worker_work :: "'cb worker \<Rightarrow> nat" where
  "worker_work Check = 1"
| "worker_work (Classify w) = 2"
| "worker_work _ = 0"

definition work :: "('cb, 'f) engine \<Rightarrow> nat" where
  "work s = caller_work (en_callers s ! 0) + 3 * length (en_queue s) + sum_list (map worker_work (en_workers s))"

lemma work_worker:
  "i < length (en_workers s) \<Longrightarrow> work (set_worker i pc s) + worker_work (en_workers s ! i) = work s + worker_work pc"
proof -
  assume i: "i < length (en_workers s)"
  have "sum_list (map worker_work (en_workers s)) = sum_list (map worker_work (take i (en_workers s))) +
      worker_work (en_workers s ! i) + sum_list (map worker_work (drop (Suc i) (en_workers s)))"
    by (subst id_take_nth_drop [OF i]) simp
  then show ?thesis by (simp add: work_def set_worker_def upd_conv_take_nth_drop [OF i])
qed

lemma wake_alone:
  assumes "serial_ok s" shows "sum_list (map worker_work (map wake (en_workers s))) \<le> sum_list (map worker_work (en_workers s)) + 1"
proof (cases "\<exists>i < length (en_workers s). en_workers s ! i = Sleep")
  case True
  then obtain i where i: "i < length (en_workers s)" "en_workers s ! i = Sleep" by blast
  have "map wake (en_workers s) = (en_workers s)[i := Check]"
  proof (rule nth_equalityI)
    fix j assume j: "j < length (map wake (en_workers s))"
    then show "map wake (en_workers s) ! j = (en_workers s)[i := Check] ! j"
      using i serial_facts(5) [OF assms i(1), of j] by (cases "j = i") (simp_all add: wake_def)
  qed simp
  then show ?thesis using work_worker [OF i(1), of Check] i(2) by (simp add: work_def set_worker_def)
next
  case False
  then have "map wake (en_workers s) = en_workers s"
    by (auto simp: list_eq_iff_nth_eq wake_def)
  then show ?thesis by simp
qed

lemma work_caller:
  assumes "serial_ok s" shows "caller_step c k s = s \<or> work (caller_step c k s) < work s"
proof (cases "c = 0")
  case True
  note f = serial_facts [OF assms]
  have pc: "serial_pc (en_callers s ! 0) (en_running s) (en_worker s)" and c0: "0 < length (en_callers s)"
    using assms by (simp_all add: serial_ok_def)
  show ?thesis
  proof (cases "en_callers s ! 0")
    case (Calling cs)
    show ?thesis
    proof (cases cs)
      case (Cons x cs')
      then have "x = Shutdown \<or> (\<exists>w. x = Submit w \<and> (en_running s \<or> en_worker s = None))"
        using pc Calling by (cases x) auto
      then show ?thesis
        using f(3) c0 Calling Cons True
        by (auto simp: caller_step_def submit_locked_def shutdown_locked_def work_def push_def set_caller_def)
    qed (use Calling True in \<open>simp add: caller_step_def\<close>)
  next
    case (JoinOld w old new cs)
    then show ?thesis using pc by simp
  next
    case (NotifyOne cs)
    have "work (set_worker k Check s) = work s + 1" if "k < length (en_workers s)" "en_workers s ! k = Sleep"
      using work_worker [OF that(1), of Check] that(2) by simp
    then show ?thesis
      using c0 NotifyOne True by (auto simp: caller_step_def work_def set_caller_def set_worker_def)
  next
    case (NotifyAll cs)
    then show ?thesis
      using c0 True wake_alone [OF assms] by (simp add: caller_step_def work_def set_caller_def)
  next
    case (Join cs)
    then show ?thesis
      using c0 True by (auto simp: caller_step_def work_def set_caller_def split: option.split)
  qed
qed (use serial_facts(1) [OF assms] in \<open>simp add: caller_step_def\<close>)

lemma work_worker_step:
  assumes "total_classify classify" "serial_ok s"
  shows "worker_step classify clock i s = s \<or> work (worker_step classify clock i s) < work s"
proof (cases "i < length (en_workers s)")
  case i: True
  have h: "en_holder s = None" using assms(2) by (rule serial_facts)
  show ?thesis
  proof (cases "en_workers s ! i")
    case Check
    have "work (set_worker i (Classify w) (s\<lparr>en_queue := ws\<rparr>)) < work s" if "en_queue s = w # ws" for w ws
      using work_worker [OF i, of "Classify w"] that Check by (simp add: work_def set_worker_def)
    then show ?thesis
      using work_worker [OF i, of Sleep] work_worker [OF i, of Exited] i Check h
      by (simp add: worker_step_def split: list.split)
  next
    case (Classify w)
    obtain r where "classify (wi_payload w) = Inr r" using assms(1) by (auto simp: total_classify_def)
    then show ?thesis using work_worker [OF i, of Check] i Classify
      by (simp add: worker_step_def Let_def work_def set_worker_def)
  qed (use i in \<open>simp_all add: worker_step_def\<close>)
qed (simp add: worker_step_def)

fun is_spurious :: "turn \<Rightarrow> bool" where
  "is_spurious (Spurious i) = True"
| "is_spurious _ = False"

lemma work_turn:
  assumes "total_classify classify" "serial_ok s" "\<not> is_spurious t"
  shows "turn_step classify clock t s = s \<or> work (turn_step classify clock t s) < work s"
  using assms work_caller [OF assms(2)] work_worker_step [OF assms(1,2)] by (cases t) (simp_all add: turn_step_def)

text \<open>Until the caller is through some thread can move.\<close>

lemma some_turn:
  fixes s :: "('cb, 'f) engine"
  assumes "total_classify classify" "serial_ok s" "en_callers s \<noteq> [Calling []]"
  shows "\<exists>t. \<not> is_spurious t \<and> turn_step classify clock t s \<noteq> s"
proof -
  note f = serial_facts [OF assms(2)]
  obtain pc where pc: "en_callers s = [pc]" using f(1) by (auto simp: length_Suc_conv)
  have ok: "serial_pc pc (en_running s) (en_worker s)" using assms(2) pc by (simp add: serial_ok_def)
  have caller: ?thesis if "caller_step 0 k s \<noteq> s" for k
    using that f(4) by (intro exI [of _ "Caller 0 k"]) (simp add: turn_step_def)
  have worker: ?thesis if "worker_step classify clock i s \<noteq> s" for i
    using that f(4) by (intro exI [of _ "Worker i"]) (simp add: turn_step_def)
  show ?thesis
  proof (cases pc)
    case (Calling cs)
    then obtain x cs' where cs: "cs = x # cs'" using assms(3) pc by (cases cs) auto
    have "en_callers (caller_step 0 0 s) \<noteq> en_callers s"
      using ok f(3) pc Calling cs
      by (cases x) (auto simp: caller_step_def submit_locked_def shutdown_locked_def set_caller_def push_def split: option.split)
    then show ?thesis using caller by metis
  next
    case (JoinOld w old new cs)
    then show ?thesis using ok by simp
  next
    case (NotifyOne cs)
    obtain k where "Sleep \<in> set (en_workers s) \<longrightarrow> k < length (en_workers s) \<and> en_workers s ! k = Sleep"
      by (metis in_set_conv_nth)
    then have "en_callers (caller_step 0 k s) \<noteq> en_callers s"
      using pc NotifyOne by (auto simp: caller_step_def set_caller_def set_worker_def)
    then show ?thesis using caller by metis
  next
    case (NotifyAll cs)
    then have "en_callers (caller_step 0 0 s) \<noteq> en_callers s" using pc by (simp add: caller_step_def set_caller_def)
    then show ?thesis using caller by metis
  next
    case (Join cs)
    show ?thesis
    proof (cases "\<exists>i. en_worker s = Some i \<and> en_workers s ! i \<noteq> Exited")
      case False
      then have "en_callers (caller_step 0 0 s) \<noteq> en_callers s"
        using pc Join by (cases "en_worker s") (auto simp: caller_step_def set_caller_def)
      then show ?thesis using caller by metis
    next
      case True
      then obtain i where i: "en_worker s = Some i" "en_workers s ! i \<noteq> Exited" by blast
      then have len: "i < length (en_workers s)" using assms(2) by (simp add: serial_ok_def threads_ok_def)
      have "en_workers s ! i \<noteq> Sleep"
        using assms(2) len ok Join pc by (auto simp: serial_ok_def sleep_ok_def)
      then consider "en_workers s ! i = Check" | w where "en_workers s ! i = Classify w"
        using i(2) by (cases "en_workers s ! i") auto
      then have "en_workers (worker_step classify clock i s) ! i \<noteq> en_workers s ! i"
      proof cases
        case 1
        then show ?thesis using len f(3) by (simp add: worker_step_def set_worker_def split: list.split)
      next
        case 2
        obtain r where "classify (wi_payload w) = Inr r" using assms(1) by (auto simp: total_classify_def)
        then show ?thesis using 2 len by (simp add: worker_step_def set_worker_def Let_def)
      qed
      then show ?thesis using worker by metis
    qed
  qed
qed

text \<open>
  C27: no deadlock and no endless work with one calling thread: until that thread is through some turn other than a
  spurious wake-up changes the state, and every such turn that does decreases the work that is left, so
  that the calls return.
\<close>

theorem engine_terminates:
  assumes "total_classify classify" "cs \<noteq> [] \<longrightarrow> last cs = Shutdown"
  shows "let s = engine_run classify clock ts (engine_new [cs])
    in (en_callers s = [Calling []] \<or> (\<exists>t. \<not> is_spurious t \<and> work (turn_step classify clock t s) < work s)) \<and>
       (\<forall>t. is_spurious t \<or> turn_step classify clock t s = s \<or> work (turn_step classify clock t s) < work s)"
proof -
  define s where "s = engine_run classify clock ts (engine_new [cs])"
  have "serial_ok s" unfolding s_def by (rule serial_run [OF assms])
  then show ?thesis
    unfolding s_def [symmetric] Let_def using some_turn [OF assms(1)] work_turn [OF assms(1)] by metis
qed

section \<open>A submit during a shutdown\<close>

text \<open>
  A caller that joins the old worker holds the mutex that worker needs to return. In the code the join of
  the other thread in \<^verbatim>\<open>shutdown\<close> also reads the handle without the mutex at the same time.
\<close>

definition stuck :: "'cb WorkItem \<Rightarrow> ('cb, 'f) engine \<Rightarrow> bool" where
  "stuck w s \<longleftrightarrow> length (en_callers s) = 2 \<and> en_callers s ! 0 = JoinOld w 0 1 [] \<and>
     en_callers s ! 1 \<in> {NotifyAll [], Join []} \<and> en_worker s = Some 0 \<and>
     en_holder s \<noteq> None \<and> 0 < length (en_workers s) \<and> en_workers s ! 0 \<noteq> Exited"

lemma stuck_turn: "stuck w s \<Longrightarrow> stuck w (turn_step classify clock t s)"
proof (cases t)
  case (Caller c k)
  assume s: "stuck w s"
  consider "c = 0" | "c = 1" | "length (en_callers s) \<le> c" using s by (force simp: stuck_def)
  then show ?thesis
  proof cases
    case 2
    then show ?thesis using s Caller
      by (auto simp: turn_step_def caller_step_def stuck_def set_caller_def wake_def split: if_splits)
  qed (use s Caller in \<open>auto simp: turn_step_def caller_step_def stuck_def\<close>)
next
  case (Worker i)
  assume s: "stuck w s"
  show ?thesis
  proof (cases "i < length (en_workers s)")
    case True
    then show ?thesis using s Worker
      by (cases "en_workers s ! i")
        (auto simp: turn_step_def worker_step_def stuck_def set_worker_def Let_def nth_list_update split: sum.split)
  qed (use s Worker in \<open>simp add: turn_step_def worker_step_def\<close>)
qed (auto simp: turn_step_def spurious_step_def stuck_def set_worker_def nth_list_update)

text \<open>
  C28: a submit from one thread during a shutdown in another can block both for ever: the submit
  restarts the worker, and its assignment to the thread handle joins the old thread with the mutex held
  that this thread needs to return. Whatever happens next neither call returns.
\<close>

theorem submit_during_shutdown_deadlocks:
  "\<exists>ts. \<forall>ts'. let s = engine_run classify clock (ts @ ts') (engine_new [[Submit v, Submit w], [Shutdown]])
     in en_callers s ! 0 = JoinOld w 0 1 [] \<and> en_callers s ! 1 \<in> {NotifyAll [], Join []}"
proof -
  let ?ts = "[Caller 0 0, Caller 0 0, Caller 1 0, Caller 0 0]"
  let ?s = "engine_run classify clock ?ts (engine_new [[Submit v, Submit w], [Shutdown]])"
  have s: "stuck w ?s"
    by (simp add: engine_run_def turn_step_def caller_step_def submit_locked_def shutdown_locked_def set_caller_def push_def
        engine_new_def stuck_def Let_def)
  have "stuck w (engine_run classify clock (?ts @ ts') (engine_new [[Submit v, Submit w], [Shutdown]]))" for ts'
    using run_induct [of "stuck w" ?s classify clock ts', OF s stuck_turn] by (simp add: engine_run_def)
  then show ?thesis unfolding stuck_def Let_def by blast
qed

text \<open>The classifier as an engine.\<close>

lemma magika_total: "well_sized m \<Longrightarrow> total_classify (MagikaEngine_classify F m)"
  unfolding total_classify_def
proof
  fix p assume "well_sized m"
  then obtain q where "predict F m p = Inr q" using predict_labelled by blast
  then show "\<exists>r. MagikaEngine_classify F m p = Inr r" by (simp add: MagikaEngine_classify_def)
qed

section \<open>Witnesses\<close>

definition sample_item :: "string WorkItem" where
  "sample_item = \<lparr>wi_payload = [0x25, 0x50], wi_url = ''/a.pdf'', wi_onResult = Some ''cb''\<rparr>"

text \<open>Names the length of the payload.\<close>

definition sample_classify :: "byte list \<Rightarrow> fault + u32 InferenceResult" where
  "sample_classify p = Inr \<lparr>ir_label = dec (length p), ir_confidence = 1, ir_modelName = ''len'', ir_inferenceTime = 0\<rparr>"

lemma sample_total: "total_classify sample_classify"
  by (simp add: total_classify_def sample_classify_def)

text \<open>One submission and a shutdown, with the worker asleep before the shutdown.\<close>

definition sample_turns :: "turn list" where
  "sample_turns = [Caller 0 0, Caller 0 0, Worker 0, Worker 0, Worker 0, Caller 0 0, Caller 0 0, Worker 0, Caller 0 0]"

definition sample_calls :: "string call list" where
  "sample_calls = [Submit sample_item, Shutdown]"

lemma sample_ends:
  assumes "classify [0x25, 0x50] = Inr r"
  shows "en_callers (engine_run classify clock sample_turns (engine_new [sample_calls])) = [Calling []]"
  using assms
  by (simp add: sample_turns_def sample_calls_def engine_run_def turn_step_def caller_step_def worker_step_def submit_locked_def
      shutdown_locked_def set_caller_def set_worker_def push_def engine_new_def Let_def sample_item_def wake_def)

theorem each_item_once_witness:
  "let s = engine_run sample_classify id sample_turns (engine_new [sample_calls])
    in mset (en_classified s) + mset (in_flight s) + mset (en_queue s) + mset (waiting s) = mset (concat (map submits [sample_calls])) \<and>
       map (\<lambda>(cb, r). (cb, untimed r)) (en_results s) = concat (map (answer sample_classify) (en_classified s)) \<and>
       en_fault s = None"
  by (rule each_item_once [OF sample_total])


theorem engine_terminates_witness:
  "let s = engine_run sample_classify id [Caller 0 0] (engine_new [sample_calls])
    in (en_callers s = [Calling []] \<or> (\<exists>t. \<not> is_spurious t \<and> work (turn_step sample_classify id t s) < work s)) \<and>
       (\<forall>t. is_spurious t \<or> turn_step sample_classify id t s = s \<or> work (turn_step sample_classify id t s) < work s)"
  by (rule engine_terminates [OF sample_total]) (simp add: sample_calls_def)

end
