(* ===== verification/Inspection.thy ===== *)
theory Inspection
  imports Server Session_Relay Seer_Engine
begin

text \<open>
  The inspector of \<^verbatim>\<open>Source/main.cpp\<close>: the closure the sessions call with a response body hands it to the
  engine. The history of a run of the proxy holds the inspected bodies in order; the event loop is the only
  thread that submits, and the destructor of the engine at the end of \<^verbatim>\<open>main\<close> shuts it down, so that a run of
  the engine is one of a single caller. The theorem joins a session, the engine and the network.
\<close>

section \<open>The calls of the engine\<close>

text \<open>The callback keeps the URL it prints.\<close>

definition main_inspector :: "byte list \<Rightarrow> string \<Rightarrow> string call" where
  "main_inspector payload url = Submit \<lparr>wi_payload = payload, wi_url = url, wi_onResult = Some url\<rparr>"

fun inspections :: "syscall list \<Rightarrow> (byte list \<times> string) list" where
  "inspections [] = []"
| "inspections (CInspect payload url # h) = (payload, url) # inspections h"
| "inspections (_ # h) = inspections h"

definition engine_calls :: "syscall list \<Rightarrow> string call list" where
  "engine_calls h = map (\<lambda>(payload, url). main_inspector payload url) (inspections h) @ [Shutdown]"

lemma inspections_append [simp]: "inspections (h @ h') = inspections h @ inspections h'"
  by (induction h rule: inspections.induct) simp_all

lemma submits_append [simp]: "submits (cs @ ds) = submits cs @ submits ds"
  by (induction cs rule: submits.induct) simp_all

lemma submits_engine_calls:
  "submits (engine_calls h) = map (\<lambda>(payload, url). \<lparr>wi_payload = payload, wi_url = url, wi_onResult = Some url\<rparr>) (inspections h)"
proof -
  have "submits (map (\<lambda>(payload, url). main_inspector payload url) ps) =
      map (\<lambda>(payload, url). \<lparr>wi_payload = payload, wi_url = url, wi_onResult = Some url\<rparr>) ps" for ps
    by (induction ps) (auto simp: main_inspector_def)
  then show ?thesis by (simp add: engine_calls_def)
qed

section \<open>Closing a session inspects nothing\<close>

lemma close_inspections:
  "Connection_close c s = Inr s' \<Longrightarrow> inspections (pf_calls s') = inspections (pf_calls s)"
  "TlsConnection_close t w = Inr w' \<Longrightarrow> inspections (pf_calls w') = inspections (pf_calls w)"
  by (auto simp: Connection_close_def TlsConnection_close_def res_iff Socket_close_def KqueueLoop_remove_def Let_def
      split: if_splits option.splits)

lemma if_set_inspections:
  "if_set p Connection_close s = Inr s' \<Longrightarrow> inspections (pf_calls s') = inspections (pf_calls s)"
  "if_set p TlsConnection_close w = Inr w' \<Longrightarrow> inspections (pf_calls w') = inspections (pf_calls w)"
  by (cases p; simp add: close_inspections)+

lemma session_close_inspections:
  assumes "ProxySession_close i s = Inr s'" shows "inspections (pf_calls s') = inspections (pf_calls s)"
proof -
  obtain x where x: "px_sessions s i = Some x" using assms by (auto simp: ProxySession_close_def res_iff)
  have r: "inspections (pf_calls (KqueueLoop_remove f s)) = inspections (pf_calls s)" for f
    by (simp add: KqueueLoop_remove_def split: option.split)
  show ?thesis
    using assms ProxySession_close_cases [OF x]
    by (auto simp: res_iff Let_def r if_set_inspections split: if_splits)
qed

text \<open>
  So a response whose end is the end of the connection is never inspected: the bytes kept for the inspector
  are dropped when the upstream closes.
\<close>

lemma upstream_close_uninspected: "onUpstreamClose i s = Inr s' \<Longrightarrow> inspections (pf_calls s') = inspections (pf_calls s)"
  unfolding onUpstreamClose_def by (rule session_close_inspections)

section \<open>From a response to its label\<close>

text \<open>What the callbacks of the payloads \<open>ps\<close> have to print: the URL and the label the network predicts.\<close>

definition expected_labels :: "'f fp \<Rightarrow> 'f MagikaModel \<Rightarrow> (byte list \<times> string) list \<Rightarrow> (string \<times> string) list" where
  "expected_labels F m ps = map (\<lambda>(payload, url). (url, case predict F m payload of Inl f \<Rightarrow> [] | Inr p \<Rightarrow> pr_label p)) ps"

lemma expected_concat: "concat (map (\<lambda>(p, u). expected_labels F m [(p, u)]) ps) = expected_labels F m ps"
  by (induction ps) (auto simp: expected_labels_def)

lemma engine_labels:
  assumes "well_sized m"
    and "en_callers (engine_run (MagikaEngine_classify F m) clock ts (engine_new [engine_calls h])) = [Calling []]"
  shows "map (\<lambda>(url, r). (url, ir_label r)) (en_results (engine_run (MagikaEngine_classify F m) clock ts (engine_new [engine_calls h]))) =
    expected_labels F m (inspections h)"
proof -
  define s where "s = engine_run (MagikaEngine_classify F m) clock ts (engine_new [engine_calls h])"
  have c: "last (engine_calls h) = Shutdown" "engine_calls h \<noteq> []" by (simp_all add: engine_calls_def)
  have r: "map (\<lambda>(cb, r). (cb, untimed r)) (en_results s) = concat (map (answer (MagikaEngine_classify F m)) (submits (engine_calls h)))"
    using drained [OF magika_total [OF assms(1)] c assms(2)] by (simp add: s_def Let_def)
  have one: "map (\<lambda>(url, r). (url, ir_label r)) (answer (MagikaEngine_classify F m) \<lparr>wi_payload = p, wi_url = u, wi_onResult = Some u\<rparr>) =
      expected_labels F m [(p, u)]" for p u
  proof -
    obtain q where "predict F m p = Inr q" using predict_labelled [OF assms(1)] by blast
    then show ?thesis by (simp add: answer_def expected_labels_def MagikaEngine_classify_def untimed_def)
  qed
  have "map (\<lambda>(url, r). (url, ir_label r)) (en_results s) =
      map (\<lambda>(url, r). (url, ir_label r)) (map (\<lambda>(cb, r). (cb, untimed r)) (en_results s))"
    by (auto simp: untimed_def)
  also have "\<dots> = concat (map (\<lambda>(p, u). expected_labels F m [(p, u)]) (inspections h))"
    unfolding r submits_engine_calls map_concat map_map comp_def by (rule arg_cong [where f = concat]) (auto simp: one)
  also have "\<dots> = expected_labels F m (inspections h)"
    by (rule expected_concat)
  finally show ?thesis by (simp add: s_def)
qed


section \<open>A witness\<close>

definition inspected_session :: "unit ProxySession" where
  "inspected_session = sample_session\<lparr>ps_payloadInspector := True,
     ps_responseBody := \<lparr>bf_slices = [Slice_copy [0x50, 0x4B]], bf_totalLength = 2, bf_frontSlice = 0\<rparr>\<rparr>"


end
