(* ===== verification/Logging.thy ===== *)
theory Logging
  imports DS_Prelude
begin

text \<open>
  The logger (\<^verbatim>\<open>DeepSeerLib/src/Log/\<close>): levels, the console sink, the file sink with its rotation, and the
  global logger that formats a line and hands it to every sink. The directory is a map from paths to texts with a
  standard error stream; a \<^verbatim>\<open>FILE\<close> has a buffer. The theorems: the file sink implements a rotating log, what
  the files hold is the end of what was written, the logger prints exactly the lines at or above its level,
  shutdown flushes, and a sink without a file is silent. Every operation holds its mutex throughout, so
  that concurrent calls are sequences of these operations. Paths are POSIX paths.
\<close>

section \<open>Files\<close>

text \<open>
  A directory of files. A call may be denied for reasons outside of the program: \<open>fs_denies k\<close> says so of the
  \<open>k\<close>-th call that changes the directory. \<open>fs_spill\<close>: how many of the characters in the buffer of a \<^verbatim>\<open>FILE\<close> the
  C library passes on by itself.
\<close>

record filesystem =
  fs_files :: "string \<rightharpoonup> string"
  fs_calls :: nat
  fs_denies :: "nat \<Rightarrow> bool"
  fs_spill :: "string \<Rightarrow> nat"
  fs_stderr :: string

record FILE =
  f_path :: string
  f_buffer :: string

definition fs_tick :: "filesystem \<Rightarrow> filesystem" where
  "fs_tick w = w\<lparr>fs_calls := fs_calls w + 1\<rparr>"

definition allowed :: "filesystem \<Rightarrow> bool" where
  "allowed w \<longleftrightarrow> \<not> fs_denies w (fs_calls w)"

definition file_text :: "string \<Rightarrow> filesystem \<Rightarrow> string" where
  "file_text p w = (case fs_files w p of None \<Rightarrow> [] | Some t \<Rightarrow> t)"

text \<open>\<^verbatim>\<open>fs::remove\<close> and \<^verbatim>\<open>fs::rename\<close>, their errors are ignored by the code.\<close>

definition fs_remove :: "string \<Rightarrow> filesystem \<Rightarrow> filesystem" where
  "fs_remove p w = fs_tick (if allowed w then w\<lparr>fs_files := (fs_files w)(p := None)\<rparr> else w)"

definition fs_rename :: "string \<Rightarrow> string \<Rightarrow> filesystem \<Rightarrow> filesystem" where
  "fs_rename src dst w = fs_tick
     (case fs_files w src of
        None \<Rightarrow> w
      | Some t \<Rightarrow> if allowed w then w\<lparr>fs_files := ((fs_files w)(src := None))(dst := Some t)\<rparr> else w)"

text \<open>\<^verbatim>\<open>fopen(p, "ab")\<close>\<close>

definition fopen_ab :: "string \<Rightarrow> filesystem \<Rightarrow> FILE option \<times> filesystem" where
  "fopen_ab p w =
     (if allowed w then (Some \<lparr>f_path = p, f_buffer = []\<rparr>, fs_tick (w\<lparr>fs_files := (fs_files w)(p \<mapsto> file_text p w)\<rparr>))
      else (None, fs_tick w))"

definition append_file :: "string \<Rightarrow> string \<Rightarrow> filesystem \<Rightarrow> filesystem" where
  "append_file p t w = w\<lparr>fs_files := (fs_files w)(p \<mapsto> file_text p w @ t)\<rparr>"

definition fwrite :: "string \<Rightarrow> FILE \<Rightarrow> filesystem \<Rightarrow> FILE \<times> filesystem" where
  "fwrite t f w = (let b = f_buffer f @ t; k = fs_spill w b
     in (f\<lparr>f_buffer := drop k b\<rparr>, append_file (f_path f) (take k b) w))"

definition fflush :: "FILE \<Rightarrow> filesystem \<Rightarrow> FILE \<times> filesystem" where
  "fflush f w = (f\<lparr>f_buffer := []\<rparr>, append_file (f_path f) (f_buffer f) w)"

definition fclose :: "FILE \<Rightarrow> filesystem \<Rightarrow> filesystem" where
  "fclose f w = snd (fflush f w)"

section \<open>Paths\<close>

text \<open>The parts of a \<^verbatim>\<open>std::filesystem::path\<close> that \<^verbatim>\<open>rotatedPath\<close> uses.\<close>

definition path_filename :: "string \<Rightarrow> string" where
  "path_filename p = (case str_rfind (CHR ''/'') p of None \<Rightarrow> p | Some k \<Rightarrow> drop (Suc k) p)"

fun drop_slashes :: "string \<Rightarrow> string" where
  "drop_slashes p = rev (dropWhile (\<lambda>c. c = CHR ''/'') (rev p))"

definition path_parent :: "string \<Rightarrow> string" where
  "path_parent p = (case str_rfind (CHR ''/'') p of
     None \<Rightarrow> []
   | Some k \<Rightarrow> (let d = drop_slashes (take k p) in if d = [] then ''/'' else d))"

definition path_dot :: "string \<Rightarrow> nat option" where
  "path_dot f = (if f = ''.'' \<or> f = ''..'' then None
     else case str_rfind (CHR ''.'') f of Some (Suc k) \<Rightarrow> Some (Suc k) | _ \<Rightarrow> None)"

definition path_stem :: "string \<Rightarrow> string" where
  "path_stem p = (let f = path_filename p in case path_dot f of None \<Rightarrow> f | Some k \<Rightarrow> take k f)"

definition path_extension :: "string \<Rightarrow> string" where
  "path_extension p = (let f = path_filename p in case path_dot f of None \<Rightarrow> [] | Some k \<Rightarrow> drop k f)"

definition path_join :: "string \<Rightarrow> string \<Rightarrow> string" where
  "path_join d f = (if d = [] then f else if last d = CHR ''/'' then d @ f else d @ ''/'' @ f)"

section \<open>The file sink\<close>

record FileSinkConfig =
  fc_path :: string
  fc_maxFileSize :: nat
  fc_maxFiles :: nat

definition FileSinkConfig_new :: "string \<Rightarrow> FileSinkConfig" where
  "FileSinkConfig_new path = \<lparr>fc_path = path, fc_maxFileSize = 10 * 1024 * 1024, fc_maxFiles = 5\<rparr>"

record FileSink =
  k_config :: FileSinkConfig
  k_file :: "FILE option"
  k_currentSize :: nat

definition rotatedPath :: "FileSinkConfig \<Rightarrow> nat \<Rightarrow> string" where
  "rotatedPath c i = path_join (path_parent (fc_path c)) (path_stem (fc_path c) @ ''.'' @ dec i @ path_extension (fc_path c))"

definition openFile :: "FileSink \<Rightarrow> filesystem \<Rightarrow> FileSink \<times> filesystem" where
  "openFile k w =
     (case fopen_ab (fc_path (k_config k)) w of
        (None, w) \<Rightarrow> (k\<lparr>k_file := None, k_currentSize := 0\<rparr>, w)
      | (Some f, w) \<Rightarrow> (k\<lparr>k_file := Some f, k_currentSize := length (file_text (f_path f) w)\<rparr>, w))"

text \<open>The loop of \<^verbatim>\<open>rotate\<close>: \<open>i\<close> from \<^verbatim>\<open>maxFiles\<close> down to 2.\<close>

fun shift_files :: "FileSinkConfig \<Rightarrow> nat \<Rightarrow> filesystem \<Rightarrow> filesystem" where
  "shift_files c i w =
     (if i \<ge> 2 then shift_files c (i - 1) (fs_rename (rotatedPath c (i - 1)) (rotatedPath c i) w) else w)"

declare shift_files.simps [simp del]

definition FileSink_rotate :: "FileSink \<Rightarrow> filesystem \<Rightarrow> FileSink \<times> filesystem" where
  "FileSink_rotate k w =
     (let c = k_config k;
          (k, w) = (case k_file k of None \<Rightarrow> (k, w) | Some f \<Rightarrow> (k\<lparr>k_file := None\<rparr>, fclose f w));
          w = fs_remove (rotatedPath c (fc_maxFiles c)) w;
          w = shift_files c (fc_maxFiles c) w;
          w = fs_rename (fc_path c) (rotatedPath c 1) w
      in openFile k w)"

definition rotateIfNeeded :: "FileSink \<Rightarrow> filesystem \<Rightarrow> FileSink \<times> filesystem" where
  "rotateIfNeeded k w = (if k_currentSize k < fc_maxFileSize (k_config k) then (k, w) else FileSink_rotate k w)"

definition FileSink_new :: "FileSinkConfig \<Rightarrow> filesystem \<Rightarrow> FileSink \<times> filesystem" where
  "FileSink_new c w = openFile \<lparr>k_config = c, k_file = None, k_currentSize = 0\<rparr> w"

definition FileSink_write :: "string \<Rightarrow> FileSink \<Rightarrow> filesystem \<Rightarrow> FileSink \<times> filesystem" where
  "FileSink_write t k w =
     (case k_file k of
        None \<Rightarrow> (k, w)
      | Some f \<Rightarrow> (let (f, w) = fwrite t f w
                  in rotateIfNeeded (k\<lparr>k_file := Some f, k_currentSize := k_currentSize k + length t\<rparr>) w))"

definition FileSink_flush :: "FileSink \<Rightarrow> filesystem \<Rightarrow> FileSink \<times> filesystem" where
  "FileSink_flush k w =
     (case k_file k of
        None \<Rightarrow> (k, w)
      | Some f \<Rightarrow> (let (f, w) = fflush f w in (k\<lparr>k_file := Some f\<rparr>, w)))"

definition FileSink_destroy :: "FileSink \<Rightarrow> filesystem \<Rightarrow> filesystem" where
  "FileSink_destroy k w =
     (case k_file k of None \<Rightarrow> w | Some f \<Rightarrow> (let (f, w) = fflush f w in fclose f w))"

section \<open>What a rotating log is\<close>

text \<open>
  The specification: the text of the active file and the texts of the rotated ones, the latest first, at most
  \<open>n\<close> of them.
\<close>

type_synonym rot_log = "string \<times> string list"

definition rot_write :: "nat \<Rightarrow> nat \<Rightarrow> string \<Rightarrow> rot_log \<Rightarrow> rot_log" where
  "rot_write maxSize n t l = (case l of (a, gs) \<Rightarrow>
     if length (a @ t) < maxSize then (a @ t, gs) else ([], take n ((a @ t) # gs)))"

text \<open>The number of rotated files that are kept: the code keeps one when \<^verbatim>\<open>maxFiles\<close> is 0.\<close>

definition kept :: "FileSinkConfig \<Rightarrow> nat" where
  "kept c = max 1 (fc_maxFiles c)"

text \<open>A path that is printed as it was given, such as \<open>dir/name.ext\<close>.\<close>

definition plain_path :: "string \<Rightarrow> bool" where
  "plain_path p \<longleftrightarrow> path_join (path_parent p) (path_filename p) = p"

text \<open>The files on disk and in the buffer are those of the log.\<close>

definition log_files :: "FileSinkConfig \<Rightarrow> string list \<Rightarrow> filesystem \<Rightarrow> bool" where
  "log_files c gs w \<longleftrightarrow> length gs \<le> kept c \<and>
     (\<forall>i < kept c. fs_files w (rotatedPath c (Suc i)) = (if i < length gs then Some (gs ! i) else None))"

definition sink_log :: "FileSink \<Rightarrow> filesystem \<Rightarrow> rot_log \<Rightarrow> bool" where
  "sink_log k w l \<longleftrightarrow> (case l of (a, gs) \<Rightarrow>
     (\<exists>f disk. k_file k = Some f \<and> f_path f = fc_path (k_config k) \<and> fs_files w (f_path f) = Some disk \<and> disk @ f_buffer f = a) \<and>
     k_currentSize k = length a \<and> log_files (k_config k) gs w)"

lemma path_parts: "path_stem p @ path_extension p = path_filename p"
  by (simp add: path_stem_def path_extension_def Let_def split: option.split)

lemma length_join_less: "length f < length g \<Longrightarrow> length (path_join d f) < length (path_join d g)"
  by (simp add: path_join_def)

lemma path_join_inj: "path_join d f = path_join d g \<longleftrightarrow> f = g"
  by (simp add: path_join_def)

lemma dec_inj: "dec m = dec n \<longleftrightarrow> m = n"
  by (metis dec_value_dec)

lemma rotated_inj: "rotatedPath c i = rotatedPath c j \<longleftrightarrow> i = j"
  by (simp add: rotatedPath_def path_join_inj dec_inj)

lemma rotated_not_active: "plain_path (fc_path c) \<Longrightarrow> rotatedPath c i \<noteq> fc_path c"
  using length_join_less [of "path_filename (fc_path c)" "path_stem (fc_path c) @ ''.'' @ dec i @ path_extension (fc_path c)"
      "path_parent (fc_path c)"]
  by (simp add: rotatedPath_def plain_path_def path_parts [symmetric]) force

section \<open>The file sink implements the rotating log\<close>

definition never_denies :: "filesystem \<Rightarrow> bool" where
  "never_denies w \<longleftrightarrow> (\<forall>k. \<not> fs_denies w k)"

text \<open>What the calls leave alone: the policy of the system and the standard error stream.\<close>

definition same_system :: "filesystem \<Rightarrow> filesystem \<Rightarrow> bool" where
  "same_system w w' \<longleftrightarrow> fs_denies w' = fs_denies w \<and> fs_spill w' = fs_spill w \<and> fs_stderr w' = fs_stderr w"

text \<open>The files a sink may touch.\<close>

definition sink_file :: "FileSinkConfig \<Rightarrow> string \<Rightarrow> bool" where
  "sink_file c p \<longleftrightarrow> p = fc_path c \<or> (\<exists>i \<le> kept c. p = rotatedPath c i)"

definition other_files_kept :: "FileSinkConfig \<Rightarrow> filesystem \<Rightarrow> filesystem \<Rightarrow> bool" where
  "other_files_kept c w w' \<longleftrightarrow> (\<forall>p. \<not> sink_file c p \<longrightarrow> fs_files w' p = fs_files w p)"

lemmas fs_defs = fs_tick_def fs_remove_def fs_rename_def fopen_ab_def append_file_def fwrite_def fflush_def fclose_def

lemma same_system_refl [simp]: "same_system w w"
  by (simp add: same_system_def)

lemma same_system_trans: "same_system w v \<Longrightarrow> same_system v u \<Longrightarrow> same_system w u"
  by (simp add: same_system_def)

lemma same_system_denies: "same_system w w' \<Longrightarrow> never_denies w \<Longrightarrow> never_denies w'"
  by (simp add: same_system_def never_denies_def)

lemma same_system_ops [simp]:
  "same_system w (fs_remove p w)" "same_system w (fs_rename p q w)" "same_system w (append_file p t w)"
  by (simp_all add: same_system_def fs_defs split: option.split)

lemma remove_files: "never_denies w \<Longrightarrow> fs_files (fs_remove p w) = (fs_files w)(p := None)"
  by (simp add: fs_remove_def fs_tick_def allowed_def never_denies_def)

lemma rename_existing:
  "never_denies w \<Longrightarrow> fs_files w p = Some t \<Longrightarrow> fs_files (fs_rename p q w) = (fs_files w)(p := None, q := Some t)"
  by (simp add: fs_rename_def fs_tick_def allowed_def never_denies_def)

lemma rename_to_free:
  "never_denies w \<Longrightarrow> fs_files w q = None \<Longrightarrow> p \<noteq> q \<Longrightarrow>
    fs_files (fs_rename p q w) = (fs_files w)(p := None, q := fs_files w p)"
  by (cases "fs_files w p") (auto simp: rename_existing, auto simp: fs_rename_def fs_tick_def)

lemma shift_step:
  "n \<ge> 2 \<Longrightarrow> shift_files c n w = shift_files c (n - 1) (fs_rename (rotatedPath c (n - 1)) (rotatedPath c n) w)"
  "n < 2 \<Longrightarrow> shift_files c n w = w"
  by (subst shift_files.simps, simp)+

lemma shift_same [simp]: "same_system w (shift_files c n w)"
proof (induction c n w rule: shift_files.induct)
  case (1 c n w)
  show ?case
  proof (cases "n \<ge> 2")
    case True
    show ?thesis unfolding shift_step(1) [OF True]
      by (rule same_system_trans [OF same_system_ops(2) 1 [OF True]])
  next
    case False
    then show ?thesis by (simp add: shift_step)
  qed
qed

text \<open>The shift: every rotated file moves up, the others stay.\<close>

definition shifted :: "FileSinkConfig \<Rightarrow> nat \<Rightarrow> filesystem \<Rightarrow> filesystem \<Rightarrow> bool" where
  "shifted c n w w' \<longleftrightarrow>
     (\<forall>i. 2 \<le> i \<longrightarrow> i \<le> n \<longrightarrow> fs_files w' (rotatedPath c i) = fs_files w (rotatedPath c (i - 1))) \<and>
     fs_files w' (rotatedPath c 1) = None \<and>
     (\<forall>p. (\<forall>i. 1 \<le> i \<longrightarrow> i \<le> n \<longrightarrow> p \<noteq> rotatedPath c i) \<longrightarrow> fs_files w' p = fs_files w p)"

lemma shift_files_spec:
  assumes "never_denies w" "1 \<le> n" "fs_files w (rotatedPath c n) = None"
  shows "shifted c n w (shift_files c n w)"
  using assms
proof (induction n arbitrary: w)
  case (Suc n)
  show ?case
  proof (cases "n = 0")
    case True
    then show ?thesis using Suc.prems by (auto simp: shifted_def shift_step)
  next
    case False
    let ?w = "fs_rename (rotatedPath c n) (rotatedPath c (Suc n)) w"
    have f: "fs_files ?w = (fs_files w)(rotatedPath c n := None, rotatedPath c (Suc n) := fs_files w (rotatedPath c n))"
      using Suc.prems by (intro rename_to_free) (simp_all add: rotated_inj)
    have ih: "shifted c n ?w (shift_files c n ?w)"
      using False f same_system_denies [OF same_system_ops(2) Suc.prems(1)] by (intro Suc.IH) (simp_all add: rotated_inj)
    have s: "shift_files c (Suc n) w = shift_files c n ?w" using False by (simp add: shift_step)
    let ?w' = "shift_files c n ?w"
    have keep: "fs_files ?w' p = fs_files ?w p" if "\<And>i. 1 \<le> i \<Longrightarrow> i \<le> n \<Longrightarrow> p \<noteq> rotatedPath c i" for p
      using ih that unfolding shifted_def by blast
    have "fs_files ?w' (rotatedPath c i) = fs_files w (rotatedPath c (i - 1))" if i: "2 \<le> i" "i \<le> Suc n" for i
    proof (cases "i = Suc n")
      case True
      then show ?thesis using keep [of "rotatedPath c (Suc n)"] f by (simp add: rotated_inj)
    next
      case False
      then have "fs_files ?w' (rotatedPath c i) = fs_files ?w (rotatedPath c (i - 1))" using ih i by (simp add: shifted_def)
      also have "i - 1 \<noteq> n \<and> i - 1 \<noteq> Suc n" using False i by auto
      then have "fs_files ?w (rotatedPath c (i - 1)) = fs_files w (rotatedPath c (i - 1))" by (simp only: f fun_upd_apply rotated_inj) simp
      finally show ?thesis .
    qed
    moreover have "fs_files ?w' p = fs_files w p" if "\<forall>i. 1 \<le> i \<longrightarrow> i \<le> Suc n \<longrightarrow> p \<noteq> rotatedPath c i" for p
    proof -
      have "fs_files ?w' p = fs_files ?w p" using that by (intro keep) simp
      moreover have "p \<noteq> rotatedPath c n" "p \<noteq> rotatedPath c (Suc n)" using that False by simp_all
      ultimately show ?thesis by (simp add: f)
    qed
    ultimately show ?thesis using ih unfolding s shifted_def by blast
  qed
qed simp

lemma open_spec:
  assumes "allowed w"
  shows "openFile k w =
    (k\<lparr>k_file := Some \<lparr>f_path = fc_path (k_config k), f_buffer = []\<rparr>, k_currentSize := length (file_text (fc_path (k_config k)) w)\<rparr>,
     fs_tick (w\<lparr>fs_files := (fs_files w)(fc_path (k_config k) \<mapsto> file_text (fc_path (k_config k)) w)\<rparr>))"
  using assms by (simp add: openFile_def fopen_ab_def file_text_def fs_tick_def)

lemma rotate_spec:
  assumes l: "sink_log k w (a, gs)" and d: "never_denies w" and p: "plain_path (fc_path (k_config k))"
    and r: "FileSink_rotate k w = (k', w')"
  shows "k_config k' = k_config k" "same_system w w'" "sink_log k' w' ([], take (kept (k_config k)) (a # gs))"
    "other_files_kept (k_config k) w w'"
proof -
  define c where "c = k_config k"
  obtain f disk where f: "k_file k = Some f" "f_path f = fc_path c" "fs_files w (fc_path c) = Some disk" "disk @ f_buffer f = a"
    using l by (auto simp: sink_log_def c_def)
  have lf: "log_files c gs w" using l by (simp add: sink_log_def c_def)
  have act: "rotatedPath c i \<noteq> fc_path c" "fc_path c \<noteq> rotatedPath c i" for i
    using rotated_not_active [of c i] p by (auto simp: c_def)
  define w1 where "w1 = fclose f w"
  define w2 where "w2 = fs_remove (rotatedPath c (fc_maxFiles c)) w1"
  define w3 where "w3 = shift_files c (fc_maxFiles c) w2"
  define w4 where "w4 = fs_rename (fc_path c) (rotatedPath c 1) w3"
  have s1: "same_system w w1" by (simp add: w1_def fclose_def fflush_def)
  have s2: "same_system w w2" unfolding w2_def by (rule same_system_trans [OF s1]) simp
  have s3: "same_system w w3" unfolding w3_def by (rule same_system_trans [OF s2]) simp
  have s4: "same_system w w4" unfolding w4_def by (rule same_system_trans [OF s3]) simp
  note nd = same_system_denies [OF _ d]
  have f1: "fs_files w1 = (fs_files w)(fc_path c := Some a)"
    using f by (simp add: w1_def fclose_def fflush_def append_file_def file_text_def)
  have f2: "fs_files w2 = (fs_files w1)(rotatedPath c (fc_maxFiles c) := None)"
    unfolding w2_def by (rule remove_files [OF nd [OF s1]])
  have f3: "if fc_maxFiles c = 0 then w3 = w2 else shifted c (fc_maxFiles c) w2 w3"
    unfolding w3_def using f2 nd [OF s2] by (auto simp: shift_step intro!: shift_files_spec)
  have a3: "fs_files w3 (fc_path c) = Some a"
    using f3 f2 f1 act by (auto simp: shifted_def split: if_splits)
  have f4: "fs_files w4 = (fs_files w3)(fc_path c := None, rotatedPath c 1 := Some a)"
    unfolding w4_def by (rule rename_existing [OF nd [OF s3] a3])
  have "allowed w4" using nd [OF s4] by (simp add: never_denies_def allowed_def)
  moreover have "FileSink_rotate k w = openFile (k\<lparr>k_file := None\<rparr>) w4"
    by (simp add: FileSink_rotate_def Let_def f(1) w4_def w3_def w2_def w1_def c_def)
  moreover have "file_text (fc_path c) w4 = []" using f4 act by (simp add: file_text_def)
  ultimately have "(k\<lparr>k_file := Some \<lparr>f_path = fc_path c, f_buffer = []\<rparr>, k_currentSize := 0\<rparr>,
      fs_tick (w4\<lparr>fs_files := (fs_files w4)(fc_path c \<mapsto> [])\<rparr>)) = (k', w')"
    using r open_spec [of w4 "k\<lparr>k_file := None\<rparr>"] by (simp add: c_def)
  then have out: "k' = k\<lparr>k_file := Some \<lparr>f_path = fc_path c, f_buffer = []\<rparr>, k_currentSize := 0\<rparr>"
    "fs_files w' = (fs_files w4)(fc_path c \<mapsto> [])" "same_system w4 w'"
    by (auto simp: fs_tick_def same_system_def)
  show "k_config k' = k_config k" using out by simp
  show "same_system w w'" using s4 out(3) by (rule same_system_trans)
  have rot: "fs_files w' (rotatedPath c (Suc i)) = (if i < length (take (kept c) (a # gs)) then Some (take (kept c) (a # gs) ! i) else None)"
    if i: "i < kept c" for i
  proof (cases i)
    case 0
    then show ?thesis using out(2) f4 act i by simp
  next
    case (Suc j)
    have n: "fc_maxFiles c \<noteq> 0" "Suc i \<le> fc_maxFiles c" using i Suc by (auto simp: kept_def split: if_splits)
    then have "fs_files w3 (rotatedPath c (Suc i)) = fs_files w2 (rotatedPath c i)"
      using f3 Suc by (simp add: shifted_def)
    also have "\<dots> = fs_files w (rotatedPath c (Suc j))" using f2 f1 act n Suc by (simp add: rotated_inj)
    also have "\<dots> = (if j < length gs then Some (gs ! j) else None)" using lf i Suc by (simp add: log_files_def)
    finally show ?thesis using out(2) f4 act i Suc by (simp add: rotated_inj)
  qed
  then show "sink_log k' w' ([], take (kept (k_config k)) (a # gs))"
    using out by (simp add: sink_log_def log_files_def c_def [symmetric])
  show "other_files_kept (k_config k) w w'"
    unfolding other_files_kept_def c_def [symmetric]
  proof (intro allI impI)
    fix q assume q: "\<not> sink_file c q"
    then have "q \<noteq> fc_path c" "q \<noteq> rotatedPath c 1" "q \<noteq> rotatedPath c (fc_maxFiles c)"
      "\<And>i. i \<le> fc_maxFiles c \<Longrightarrow> q \<noteq> rotatedPath c i"
      by (auto simp: sink_file_def kept_def)
    then show "fs_files w' q = fs_files w q"
      using out(2) f4 f3 f2 f1 by (auto simp: shifted_def split: if_splits)
  qed
qed

lemma write_spec:
  assumes l: "sink_log k w (a, gs)" and d: "never_denies w" and p: "plain_path (fc_path (k_config k))"
    and r: "FileSink_write t k w = (k', w')"
  shows "k_config k' = k_config k \<and> same_system w w' \<and>
    sink_log k' w' (rot_write (fc_maxFileSize (k_config k)) (kept (k_config k)) t (a, gs)) \<and>
    other_files_kept (k_config k) w w'"
proof -
  define c where "c = k_config k"
  obtain f disk where f: "k_file k = Some f" "f_path f = fc_path c" "fs_files w (fc_path c) = Some disk" "disk @ f_buffer f = a"
    using l by (auto simp: sink_log_def c_def)
  have sz: "k_currentSize k = length a" and lf: "log_files c gs w" using l by (simp_all add: sink_log_def c_def)
  obtain f1 w1 where fw: "fwrite t f w = (f1, w1)" by fastforce
  define k1 where "k1 = k\<lparr>k_file := Some f1, k_currentSize := k_currentSize k + length t\<rparr>"
  have w1: "same_system w w1" "other_files_kept c w w1"
    using fw f(2) by (auto simp: fwrite_def Let_def append_file_def same_system_def other_files_kept_def sink_file_def)
  have lf1: "log_files c gs w1"
    using fw f(2) lf rotated_not_active [of c] p by (auto simp: fwrite_def Let_def append_file_def log_files_def c_def)
  have l1: "sink_log k1 w1 (a @ t, gs)"
    using fw f sz lf1 by (auto simp: sink_log_def k1_def fwrite_def Let_def append_file_def file_text_def c_def
        simp del: take_append drop_append)
  have k1: "k_config k1 = c" "k_currentSize k1 = length (a @ t)" by (simp_all add: k1_def c_def sz)
  have r1: "rotateIfNeeded k1 w1 = (k', w')" using r f(1) fw by (simp add: FileSink_write_def k1_def)
  show ?thesis
  proof (cases "length (a @ t) < fc_maxFileSize c")
    case True
    then have "k' = k1" "w' = w1" using r1 k1 by (simp_all add: rotateIfNeeded_def)
    then show ?thesis using True w1 l1 k1 by (simp add: rot_write_def c_def [symmetric])
  next
    case False
    then have "FileSink_rotate k1 w1 = (k', w')" using r1 k1 by (simp add: rotateIfNeeded_def)
    note rs = rotate_spec [OF l1 same_system_denies [OF w1(1) d] _ this, unfolded k1(1)]
    have pp: "plain_path (fc_path c)" using p by (simp add: c_def)
    have "other_files_kept c w w'" using w1(2) rs(4) [OF pp] by (simp add: other_files_kept_def)
    then show ?thesis
      using False rs(1-3) [OF pp] same_system_trans [OF w1(1) rs(2) [OF pp]]
      unfolding c_def [symmetric] by (simp add: rot_write_def)
  qed
qed

text \<open>
  The contract of a sink: \<open>put_line\<close> implements what a specification does to the log the state shows. The lines
  of a log arrive one by one, so that a sequence of writes implements the sequence of specification steps.
\<close>

locale line_sink =
  fixes put_line :: "string \<Rightarrow> 's \<Rightarrow> 's" and spec :: "string \<Rightarrow> 'l \<Rightarrow> 'l" and shows_log :: "'s \<Rightarrow> 'l \<Rightarrow> bool"
  assumes line_refines: "shows_log s l \<Longrightarrow> shows_log (put_line t s) (spec t l)"
begin

lemma writes_refine: "shows_log s l \<Longrightarrow> shows_log (fold put_line ts s) (fold spec ts l)"
  by (induction ts arbitrary: s l) (simp_all add: line_refines)

end

definition FileSink_writes :: "string list \<Rightarrow> FileSink \<times> filesystem \<Rightarrow> FileSink \<times> filesystem" where
  "FileSink_writes ts kw = fold (\<lambda>t (k, w). FileSink_write t k w) ts kw"

text \<open>A file sink on the files of \<open>w\<^sub>0\<close> shows a rotating log and leaves the other files alone.\<close>

definition file_log :: "FileSinkConfig \<Rightarrow> filesystem \<Rightarrow> FileSink \<times> filesystem \<Rightarrow> rot_log \<Rightarrow> bool" where
  "file_log c w\<^sub>0 kw l \<longleftrightarrow> (case kw of (k, w) \<Rightarrow> k_config k = c \<and> plain_path (fc_path c) \<and> never_denies w\<^sub>0 \<and>
     same_system w\<^sub>0 w \<and> other_files_kept c w\<^sub>0 w \<and> sink_log k w l)"

interpretation fil: line_sink "\<lambda>t (k, w). FileSink_write t k w" "rot_write (fc_maxFileSize c) (kept c)" "file_log c w\<^sub>0" for c w\<^sub>0
proof
  fix kw l t assume a: "file_log c w\<^sub>0 kw l"
  obtain k w a gs where kw: "kw = (k, w)" "l = (a, gs)" by (cases kw, cases l) blast
  obtain k' w' where r: "FileSink_write t k w = (k', w')" by fastforce
  have f: "k_config k = c" "plain_path (fc_path c)" "same_system w\<^sub>0 w" "never_denies w\<^sub>0" "other_files_kept c w\<^sub>0 w" "sink_log k w (a, gs)"
    using a by (simp_all add: file_log_def kw)
  show "file_log c w\<^sub>0 ((\<lambda>(k, w). FileSink_write t k w) kw) (rot_write (fc_maxFileSize c) (kept c) t l)"
    using write_spec [OF f(6) same_system_denies [OF f(3,4)] _ r, unfolded f(1), OF f(2)] f same_system_trans [OF f(3)]
    by (simp add: file_log_def kw r other_files_kept_def)
qed

text \<open>A new sink whose directory has no rotated files.\<close>

lemma new_sink_log:
  assumes "never_denies w" "\<And>i. fs_files w (rotatedPath c (Suc i)) = None" "plain_path (fc_path c)"
    "FileSink_new c w = (k, w')"
  shows "k_config k = c" "same_system w w'" "sink_log k w' (file_text (fc_path c) w, [])" "other_files_kept c w w'"
proof -
  have "allowed w" using assms(1) by (simp add: never_denies_def allowed_def)
  then have o: "k = \<lparr>k_config = c, k_file = Some \<lparr>f_path = fc_path c, f_buffer = []\<rparr>, k_currentSize = length (file_text (fc_path c) w)\<rparr>"
    "w' = fs_tick (w\<lparr>fs_files := (fs_files w)(fc_path c \<mapsto> file_text (fc_path c) w)\<rparr>)"
    using assms(4) by (auto simp: FileSink_new_def open_spec)
  show "k_config k = c" "same_system w w'" "other_files_kept c w w'"
    by (auto simp: o fs_tick_def same_system_def other_files_kept_def sink_file_def)
  show "sink_log k w' (file_text (fc_path c) w, [])"
    using assms(2) rotated_not_active [OF assms(3)]
    by (simp add: o fs_tick_def sink_log_def log_files_def)
qed

lemma new_file_log:
  assumes "never_denies w" "\<And>i. fs_files w (rotatedPath c (Suc i)) = None" "plain_path (fc_path c)"
    and "FileSink_writes ts (FileSink_new c w) = (k, w')"
  shows "file_log c w (k, w') (fold (rot_write (fc_maxFileSize c) (kept c)) ts (file_text (fc_path c) w, []))"
proof -
  obtain k0 w0 where n: "FileSink_new c w = (k0, w0)" by fastforce
  have "file_log c w (k0, w0) (file_text (fc_path c) w, [])"
    using new_sink_log [OF assms(1-3) n] assms(1,3) by (simp add: file_log_def)
  from fil.writes_refine [OF this, of ts] show ?thesis using assms(4) by (simp add: FileSink_writes_def n)
qed

text \<open>
  C32: a file sink is a rotating log. Started on any active file and no rotated ones, after any sequence of
  writes the files of the sink are those of the specification, a write that fills the active file moving it
  in front of the rotated ones, of which the last \<open>kept\<close> stay; no other file is touched.
\<close>

theorem file_sink_refines:
  assumes "never_denies w" "\<And>i. fs_files w (rotatedPath c (Suc i)) = None" "plain_path (fc_path c)"
    and "FileSink_writes ts (FileSink_new c w) = (k, w')"
  shows "sink_log k w' (fold (rot_write (fc_maxFileSize c) (kept c)) ts (file_text (fc_path c) w, [])) \<and>
    other_files_kept c w w'"
  using new_file_log [OF assms] by (simp add: file_log_def)

section \<open>What the log keeps\<close>

definition log_text :: "rot_log \<Rightarrow> string" where
  "log_text l = (case l of (a, gs) \<Rightarrow> concat (rev gs) @ a)"

definition tail_of :: "nat \<Rightarrow> nat \<Rightarrow> string \<Rightarrow> rot_log \<Rightarrow> bool" where
  "tail_of M n s l \<longleftrightarrow> length (snd l) \<le> n \<and> (\<forall>g \<in> set (snd l). M \<le> length g) \<and>
     (\<exists>d. s = d @ log_text l \<and> (length (snd l) < n \<longrightarrow> d = []))"

lemma tail_write:
  assumes "tail_of M n s l" "0 < n" shows "tail_of M n (s @ t) (rot_write M n t l)"
proof -
  obtain a gs where l: "l = (a, gs)" by fastforce
  obtain d where d: "s = d @ concat (rev gs) @ a" "length gs < n \<longrightarrow> d = []" and g: "length gs \<le> n" "\<forall>g \<in> set gs. M \<le> length g"
    using assms(1) by (auto simp: tail_of_def l log_text_def)
  show ?thesis
  proof (cases "length (a @ t) < M")
    case True
    then show ?thesis using d g by (auto simp: l tail_of_def rot_write_def log_text_def)
  next
    case False
    show ?thesis
    proof (cases "length gs < n")
      case True
      then show ?thesis using False d g by (auto simp: l tail_of_def rot_write_def log_text_def)
    next
      case full: False
      then have n: "length gs = n" "gs \<noteq> []" using g(1) assms(2) by auto
      have "take n ((a @ t) # gs) = (a @ t) # butlast gs" using n by (cases n) (auto simp: butlast_conv_take)
      moreover have "concat (rev gs) = last gs @ concat (rev (butlast gs))"
        using n(2) by (metis append_butlast_last_id concat.simps(2) rev_eq_Cons_iff rev_rev_ident rev_append rev.simps(2) append_Cons append_Nil)
      ultimately show ?thesis using False d(1) g(2) n
        by (auto simp: l tail_of_def rot_write_def log_text_def dest: in_set_butlastD)
    qed
  qed
qed

lemma tail_writes: "tail_of M n s l \<Longrightarrow> 0 < n \<Longrightarrow> tail_of M n (s @ concat ts) (fold (rot_write M n) ts l)"
proof (induction ts arbitrary: s l)
  case (Cons t ts)
  then show ?case using Cons.IH [OF tail_write [OF Cons.prems]] by simp
qed simp

lemma active_small: "ts \<noteq> [] \<Longrightarrow> 0 < M \<Longrightarrow> length (fst (fold (rot_write M n) ts l)) < M"
  by (induction ts rule: rev_induct) (simp_all add: rot_write_def split: prod.split)

text \<open>
  C33: what the files hold is the end of what was written: nothing is lost before \<open>kept\<close> rotations, at most
  \<open>kept\<close> rotated files exist, each of at least the maximal size, and after a write the active file is
  smaller than that. With \<^verbatim>\<open>maxFiles\<close> 0 one rotated file is kept, not none.
\<close>

theorem log_keeps_tail:
  assumes "never_denies w" "\<And>i. fs_files w (rotatedPath c (Suc i)) = None" "plain_path (fc_path c)"
    and "0 < fc_maxFileSize c" "ts \<noteq> []"
    and "FileSink_writes ts (FileSink_new c w) = (k, w')"
  shows "\<exists>a gs d. sink_log k w' (a, gs) \<and> file_text (fc_path c) w @ concat ts = d @ concat (rev gs) @ a \<and>
    length gs \<le> max 1 (fc_maxFiles c) \<and> (length gs < max 1 (fc_maxFiles c) \<longrightarrow> d = []) \<and>
    (\<forall>g \<in> set gs. fc_maxFileSize c \<le> length g) \<and> length a < fc_maxFileSize c"
proof -
  let ?l = "fold (rot_write (fc_maxFileSize c) (kept c)) ts (file_text (fc_path c) w, [])"
  have "sink_log k w' ?l" using new_file_log [OF assms(1-3,6)] by (simp add: file_log_def)
  moreover have "tail_of (fc_maxFileSize c) (kept c) (file_text (fc_path c) w) (file_text (fc_path c) w, [])"
    by (simp add: tail_of_def log_text_def)
  then have "tail_of (fc_maxFileSize c) (kept c) (file_text (fc_path c) w @ concat ts) ?l"
    by (rule tail_writes) (simp add: kept_def)
  moreover have "length (fst ?l) < fc_maxFileSize c" using assms(4,5) by (intro active_small)
  ultimately show ?thesis by (cases ?l) (auto simp: tail_of_def log_text_def kept_def)
qed

section \<open>The logger\<close>

datatype LogLevel = Trace | Debug | Info | Warn | Error_level

fun level_value :: "LogLevel \<Rightarrow> nat" where
  "level_value Trace = 0"
| "level_value Debug = 1"
| "level_value Info = 2"
| "level_value Warn = 3"
| "level_value Error_level = 4"

fun logLevelTag :: "LogLevel \<Rightarrow> string" where
  "logLevelTag Trace = ''TRC''"
| "logLevelTag Debug = ''DBG''"
| "logLevelTag Info = ''INF''"
| "logLevelTag Warn = ''WRN''"
| "logLevelTag Error_level = ''ERR''"

datatype sink = Console | File FileSink

text \<open>\<^verbatim>\<open>ConsoleSink\<close>: the standard error stream is not buffered.\<close>

definition ConsoleSink_write :: "string \<Rightarrow> filesystem \<Rightarrow> filesystem" where
  "ConsoleSink_write t w = w\<lparr>fs_stderr := fs_stderr w @ t\<rparr>"

definition ConsoleSink_flush :: "filesystem \<Rightarrow> filesystem" where
  "ConsoleSink_flush w = w"

definition sink_write :: "string \<Rightarrow> sink \<Rightarrow> filesystem \<Rightarrow> sink \<times> filesystem" where
  "sink_write t s w = (case s of
     Console \<Rightarrow> (Console, ConsoleSink_write t w)
   | File k \<Rightarrow> (let (k, w) = FileSink_write t k w in (File k, w)))"

definition sink_flush :: "sink \<Rightarrow> filesystem \<Rightarrow> sink \<times> filesystem" where
  "sink_flush s w = (case s of
     Console \<Rightarrow> (Console, ConsoleSink_flush w)
   | File k \<Rightarrow> (let (k, w) = FileSink_flush k w in (File k, w)))"

definition sink_destroy :: "sink \<Rightarrow> filesystem \<Rightarrow> filesystem" where
  "sink_destroy s w = (case s of Console \<Rightarrow> w | File k \<Rightarrow> FileSink_destroy k w)"

text \<open>
  The global state of \<^verbatim>\<open>Logger.cpp\<close>: the level, the list of sinks, here as references, and the sinks they
  refer to. \<open>lg_calls\<close> counts the dispatched lines, for the clock.
\<close>

record logger =
  lg_minLevel :: LogLevel
  lg_sinks :: "nat list"
  lg_heap :: "nat \<rightharpoonup> sink"
  lg_fs :: filesystem
  lg_calls :: nat

definition for_sink :: "(sink \<Rightarrow> filesystem \<Rightarrow> sink \<times> filesystem) \<Rightarrow> nat \<Rightarrow> logger \<Rightarrow> logger" where
  "for_sink f r g = (case lg_heap g r of
     None \<Rightarrow> g
   | Some s \<Rightarrow> (let (s, w) = f s (lg_fs g) in g\<lparr>lg_heap := (lg_heap g)(r \<mapsto> s), lg_fs := w\<rparr>))"

text \<open>References a list lets go of: a sink that is not \<open>held\<close> elsewhere is destroyed.\<close>

definition release :: "nat set \<Rightarrow> nat \<Rightarrow> logger \<Rightarrow> logger" where
  "release held r g = (if r \<in> held then g else
     case lg_heap g r of None \<Rightarrow> g | Some s \<Rightarrow> g\<lparr>lg_heap := (lg_heap g)(r := None), lg_fs := sink_destroy s (lg_fs g)\<rparr>)"

definition Logger_init :: "nat set \<Rightarrow> LogLevel \<Rightarrow> nat list \<Rightarrow> logger \<Rightarrow> logger" where
  "Logger_init held level sinks g =
     (let old = lg_sinks g; g = g\<lparr>lg_minLevel := level, lg_sinks := sinks\<rparr>
      in fold (release (held \<union> set sinks)) old g)"

definition Logger_shutdown :: "nat set \<Rightarrow> logger \<Rightarrow> logger" where
  "Logger_shutdown held g =
     (let g = fold (for_sink sink_flush) (lg_sinks g) g; old = lg_sinks g
      in fold (release held) old (g\<lparr>lg_sinks := []\<rparr>))"

definition Logger_setLevel :: "LogLevel \<Rightarrow> logger \<Rightarrow> logger" where
  "Logger_setLevel level g = g\<lparr>lg_minLevel := level\<rparr>"

definition Logger_level :: "logger \<Rightarrow> LogLevel" where
  "Logger_level g = lg_minLevel g"

definition shouldLog :: "LogLevel \<Rightarrow> logger \<Rightarrow> bool" where
  "shouldLog level g \<longleftrightarrow> level_value level \<ge> level_value (lg_minLevel g)"

text \<open>The local time of a call, its milliseconds and the hash of its thread.\<close>

record stamp =
  tm_year :: nat
  tm_mon :: nat
  tm_mday :: nat
  tm_hour :: nat
  tm_min :: nat
  tm_sec :: nat
  st_ms :: nat
  st_tid :: nat

fun hex :: "nat \<Rightarrow> string" where
  "hex n = (if n < 16 then [''0123456789abcdef'' ! n] else hex (n div 16) @ [''0123456789abcdef'' ! (n mod 16)])"

declare hex.simps [simp del]

definition padded :: "nat \<Rightarrow> nat \<Rightarrow> string" where
  "padded k n = replicate (k - length (dec n)) (CHR ''0'') @ dec n"

definition log_line :: "stamp \<Rightarrow> LogLevel \<Rightarrow> string \<Rightarrow> string" where
  "log_line t level message =
     padded 4 (tm_year t + 1900) @ ''-'' @ padded 2 (tm_mon t + 1) @ ''-'' @ padded 2 (tm_mday t) @ '' '' @
     padded 2 (tm_hour t) @ '':'' @ padded 2 (tm_min t) @ '':'' @ padded 2 (tm_sec t) @ ''.'' @ padded 3 (st_ms t) @
     '' ['' @ logLevelTag level @ ''] [tid:'' @ hex (st_tid t mod 2 ^ 16) @ ''] '' @ message @ [char_of (10 :: nat)]"

definition dispatch :: "(nat \<Rightarrow> stamp) \<Rightarrow> LogLevel \<Rightarrow> string \<Rightarrow> logger \<Rightarrow> logger" where
  "dispatch clock level message g =
     (let line = log_line (clock (lg_calls g)) level message
      in fold (for_sink (sink_write line)) (lg_sinks g) (g\<lparr>lg_calls := lg_calls g + 1\<rparr>))"

text \<open>\<^verbatim>\<open>Logger::log\<close> with the formatted message, and the functions that fix the level.\<close>

definition Logger_log :: "(nat \<Rightarrow> stamp) \<Rightarrow> LogLevel \<Rightarrow> string \<Rightarrow> logger \<Rightarrow> logger" where
  "Logger_log clock level message g = (if \<not> shouldLog level g then g else dispatch clock level message g)"

definition Logger_trace :: "(nat \<Rightarrow> stamp) \<Rightarrow> string \<Rightarrow> logger \<Rightarrow> logger" where
  "Logger_trace clock = Logger_log clock Trace"

definition Logger_debug :: "(nat \<Rightarrow> stamp) \<Rightarrow> string \<Rightarrow> logger \<Rightarrow> logger" where
  "Logger_debug clock = Logger_log clock Debug"

definition Logger_info :: "(nat \<Rightarrow> stamp) \<Rightarrow> string \<Rightarrow> logger \<Rightarrow> logger" where
  "Logger_info clock = Logger_log clock Info"

definition Logger_warn :: "(nat \<Rightarrow> stamp) \<Rightarrow> string \<Rightarrow> logger \<Rightarrow> logger" where
  "Logger_warn clock = Logger_log clock Warn"

definition Logger_error :: "(nat \<Rightarrow> stamp) \<Rightarrow> string \<Rightarrow> logger \<Rightarrow> logger" where
  "Logger_error clock = Logger_log clock Error_level"

definition log_all :: "(nat \<Rightarrow> stamp) \<Rightarrow> (LogLevel \<times> string) list \<Rightarrow> logger \<Rightarrow> logger" where
  "log_all clock calls g = fold (\<lambda>(level, message). Logger_log clock level message) calls g"

text \<open>The lines a sequence of calls prints: those of the calls at or above the level, each with its stamp.\<close>

fun lines_of :: "(nat \<Rightarrow> stamp) \<Rightarrow> nat \<Rightarrow> LogLevel \<Rightarrow> (LogLevel \<times> string) list \<Rightarrow> string list" where
  "lines_of clock n m [] = []"
| "lines_of clock n m ((level, message) # calls) =
     (if level_value level \<ge> level_value m
      then log_line (clock n) level message # lines_of clock (Suc n) m calls
      else lines_of clock n m calls)"

text \<open>A file sink and a console, as \<^verbatim>\<open>main\<close> installs them.\<close>

definition two_sinks :: "nat \<Rightarrow> nat \<Rightarrow> FileSink \<Rightarrow> logger \<Rightarrow> bool" where
  "two_sinks f c k g \<longleftrightarrow> lg_sinks g = [f, c] \<and> f \<noteq> c \<and> lg_heap g f = Some (File k) \<and> lg_heap g c = Some Console"

lemma dispatch_two:
  assumes "two_sinks f c k g" "FileSink_write (log_line (clock (lg_calls g)) level message) k (lg_fs g) = (k', w')"
  shows "two_sinks f c k' (dispatch clock level message g)"
    "lg_fs (dispatch clock level message g) = ConsoleSink_write (log_line (clock (lg_calls g)) level message) w'"
    "lg_minLevel (dispatch clock level message g) = lg_minLevel g" "lg_calls (dispatch clock level message g) = Suc (lg_calls g)"
  using assms by (simp_all add: two_sinks_def dispatch_def Let_def for_sink_def sink_write_def)

lemma console_log [simp]: "sink_log k (ConsoleSink_write t w) l = sink_log k w l" "never_denies (ConsoleSink_write t w) = never_denies w"
  by (simp_all add: sink_log_def log_files_def ConsoleSink_write_def never_denies_def)

lemma log_all_two:
  assumes "two_sinks f c k g" "sink_log k (lg_fs g) l" "never_denies (lg_fs g)" "plain_path (fc_path (k_config k))"
  shows "\<exists>k'. two_sinks f c k' (log_all clock calls g) \<and> k_config k' = k_config k \<and>
    sink_log k' (lg_fs (log_all clock calls g))
      (fold (rot_write (fc_maxFileSize (k_config k)) (kept (k_config k))) (lines_of clock (lg_calls g) (lg_minLevel g) calls) l) \<and>
    fs_stderr (lg_fs (log_all clock calls g)) =
      fs_stderr (lg_fs g) @ concat (lines_of clock (lg_calls g) (lg_minLevel g) calls)"
  using assms
proof (induction calls arbitrary: k g l)
  case Nil
  then show ?case by (auto simp: log_all_def)
next
  case (Cons x calls)
  obtain level message where x: "x = (level, message)" by fastforce
  show ?case
  proof (cases "shouldLog level g")
    case False
    then have "log_all clock (x # calls) g = log_all clock calls g" by (simp add: log_all_def x Logger_log_def)
    moreover have "lines_of clock (lg_calls g) (lg_minLevel g) (x # calls) = lines_of clock (lg_calls g) (lg_minLevel g) calls"
      using False by (simp add: x shouldLog_def)
    ultimately show ?thesis using Cons.IH [OF Cons.prems] by simp
  next
    case True
    let ?line = "log_line (clock (lg_calls g)) level message"
    let ?g = "dispatch clock level message g"
    obtain k' w' where w: "FileSink_write ?line k (lg_fs g) = (k', w')" by fastforce
    obtain a gs where l: "l = (a, gs)" by fastforce
    note ws = write_spec [OF Cons.prems(2) [unfolded l] Cons.prems(3,4) w, folded l]
    note d = dispatch_two [where clock = clock and level = level and message = message, OF Cons.prems(1) w]
    have nd: "never_denies w'" using ws Cons.prems(3) same_system_denies by blast
    have "log_all clock (x # calls) g = log_all clock calls ?g" using True by (simp add: log_all_def x Logger_log_def)
    moreover have "lines_of clock (lg_calls g) (lg_minLevel g) (x # calls) =
        ?line # lines_of clock (lg_calls ?g) (lg_minLevel ?g) calls"
      using True d by (simp add: x shouldLog_def)
    moreover have "fs_stderr (lg_fs ?g) = fs_stderr (lg_fs g) @ ?line"
      using ws d(2) by (simp add: ConsoleSink_write_def same_system_def)
    ultimately show ?thesis
      using Cons.IH [OF d(1), of "rot_write (fc_maxFileSize (k_config k)) (kept (k_config k)) ?line l"] ws nd d(2) Cons.prems(4)
      by simp
  qed
qed

text \<open>
  C34: with the two sinks of \<^verbatim>\<open>main\<close> a sequence of log calls prints exactly the lines of the calls at or above
  the minimal level, in order, the same lines on the standard error stream and in the rotating log.
\<close>

theorem logger_delivers:
  assumes "two_sinks f c k g" "sink_log k (lg_fs g) l" "never_denies (lg_fs g)" "plain_path (fc_path (k_config k))"
  shows "\<exists>k'. two_sinks f c k' (log_all clock calls g) \<and>
    sink_log k' (lg_fs (log_all clock calls g))
      (fold (rot_write (fc_maxFileSize (k_config k)) (kept (k_config k))) (lines_of clock (lg_calls g) (lg_minLevel g) calls) l) \<and>
    fs_stderr (lg_fs (log_all clock calls g)) =
      fs_stderr (lg_fs g) @ concat (lines_of clock (lg_calls g) (lg_minLevel g) calls)"
  using log_all_two [OF assms] by blast

text \<open>
  Shutdown leaves the whole text of the active file on disk, destroys the sinks nobody else holds and
  empties the list; a log call after it changes no file and prints nothing.
\<close>

theorem logger_shutdown_flushes:
  assumes "two_sinks f c k g" "sink_log k (lg_fs g) (a, gs)"
  shows "let g' = Logger_shutdown held g
    in fs_files (lg_fs g') (fc_path (k_config k)) = Some a \<and> lg_sinks g' = [] \<and>
       (f \<notin> held \<longrightarrow> lg_heap g' f = None) \<and> lg_fs (Logger_log clock level message g') = lg_fs g'"
proof -
  obtain h disk where h: "k_file k = Some h" "f_path h = fc_path (k_config k)"
    "fs_files (lg_fs g) (fc_path (k_config k)) = Some disk" "disk @ f_buffer h = a"
    using assms(2) by (auto simp: sink_log_def)
  show ?thesis
    using assms(1) h
    by (simp add: Let_def Logger_shutdown_def two_sinks_def for_sink_def sink_flush_def FileSink_flush_def fflush_def append_file_def
        file_text_def release_def sink_destroy_def FileSink_destroy_def fclose_def ConsoleSink_flush_def Logger_log_def dispatch_def)
qed

text \<open>
  A sink whose file could not be opened, because of a missing directory for instance, drops every line
  without an error, and does not try again.
\<close>

theorem sink_without_file_is_silent:
  assumes "\<not> allowed w" "FileSink_new c w = (k, w')"
  shows "FileSink_writes ts (k, w') = (k, w') \<and> fs_files w' = fs_files w"
proof -
  have k: "k_file k = None" "fs_files w' = fs_files w"
    using assms by (auto simp: FileSink_new_def openFile_def fopen_ab_def fs_tick_def)
  have "FileSink_writes ts (k, w') = (k, w')"
    by (induction ts) (simp_all add: FileSink_writes_def FileSink_write_def k)
  then show ?thesis using k by simp
qed

section \<open>The logger of the program\<close>

text \<open>\<^verbatim>\<open>main\<close>: the sinks are also held by local variables of \<^verbatim>\<open>main\<close>.\<close>

definition main_logger :: "filesystem \<Rightarrow> logger" where
  "main_logger w =
     (let (k, w) = FileSink_new (FileSinkConfig_new ''DeepSeerLogs/proxylog'') w
      in Logger_init {0, 1} Info [0, 1]
           \<lparr>lg_minLevel = Info, lg_sinks = [], lg_heap = [0 \<mapsto> File k, 1 \<mapsto> Console], lg_fs = w, lg_calls = 0\<rparr>)"

lemma main_path: "plain_path ''DeepSeerLogs/proxylog''"
  by (simp add: plain_path_def path_join_def path_parent_def path_filename_def str_rfind_def Let_def)

lemma rotated_main_path: "rotatedPath (FileSinkConfig_new ''DeepSeerLogs/proxylog'') i = ''DeepSeerLogs/proxylog.'' @ dec i"
  by (simp add: rotatedPath_def FileSinkConfig_new_def path_join_def path_parent_def path_filename_def path_stem_def
      path_extension_def path_dot_def str_rfind_def Let_def)

definition empty_disk :: filesystem where
  "empty_disk = \<lparr>fs_files = Map.empty, fs_calls = 0, fs_denies = \<lambda>_. False, fs_spill = \<lambda>b. length b div 2, fs_stderr = []\<rparr>"

definition sample_config :: FileSinkConfig where
  "sample_config = \<lparr>fc_path = ''logs/app.log'', fc_maxFileSize = 4, fc_maxFiles = 2\<rparr>"

lemma sample_path: "plain_path (fc_path sample_config)"
  by (simp add: sample_config_def plain_path_def path_join_def path_parent_def path_filename_def str_rfind_def Let_def)

lemma sample_names: "rotatedPath sample_config i = ''logs/app.'' @ dec i @ ''.log''"
  by (simp add: sample_config_def rotatedPath_def path_join_def path_parent_def path_filename_def path_stem_def
      path_extension_def path_dot_def str_rfind_def Let_def)

lemma empty_disk_ok: "never_denies empty_disk" "fs_files empty_disk p = None"
  by (simp_all add: empty_disk_def never_denies_def)

theorem file_sink_refines_witness:
  "case FileSink_writes [''abc'', ''de'', ''fghi'', ''j''] (FileSink_new sample_config empty_disk) of (k, w') \<Rightarrow>
    sink_log k w' (''j'', [''fghi'', ''abcde'']) \<and> other_files_kept sample_config empty_disk w'"
proof (cases "FileSink_writes [''abc'', ''de'', ''fghi'', ''j''] (FileSink_new sample_config empty_disk)")
  case (Pair k w')
  have "fold (rot_write (fc_maxFileSize sample_config) (kept sample_config)) [''abc'', ''de'', ''fghi'', ''j'']
      (file_text (fc_path sample_config) empty_disk, []) = (''j'', [''fghi'', ''abcde''])"
    by (simp add: sample_config_def kept_def rot_write_def file_text_def empty_disk_def)
  then show ?thesis using file_sink_refines [OF empty_disk_ok(1) empty_disk_ok(2) sample_path Pair] Pair by simp
qed

theorem log_keeps_tail_witness:
  "case FileSink_writes [''abc'', ''de''] (FileSink_new sample_config empty_disk) of (k, w') \<Rightarrow>
    \<exists>a gs d. sink_log k w' (a, gs) \<and> file_text (fc_path sample_config) empty_disk @ ''abcde'' = d @ concat (rev gs) @ a \<and>
      length gs \<le> 2 \<and> (length gs < 2 \<longrightarrow> d = []) \<and> (\<forall>g \<in> set gs. 4 \<le> length g) \<and> length a < 4"
proof (cases "FileSink_writes [''abc'', ''de''] (FileSink_new sample_config empty_disk)")
  case (Pair k w')
  show ?thesis
    using log_keeps_tail [OF empty_disk_ok(1) empty_disk_ok(2) sample_path _ _ Pair] Pair
    by (simp add: sample_config_def numeral_2_eq_2)
qed

lemma main_two:
  "\<exists>k. two_sinks 0 1 k (main_logger empty_disk) \<and> sink_log k (lg_fs (main_logger empty_disk)) ([], []) \<and>
    never_denies (lg_fs (main_logger empty_disk)) \<and> plain_path (fc_path (k_config k))"
proof -
  let ?c = "FileSinkConfig_new ''DeepSeerLogs/proxylog''"
  obtain k w where n: "FileSink_new ?c empty_disk = (k, w)" by fastforce
  have p: "plain_path (fc_path ?c)" using main_path by (simp add: FileSinkConfig_new_def)
  note new = new_sink_log [OF empty_disk_ok(1) empty_disk_ok(2) p n]
  have "main_logger empty_disk =
      \<lparr>lg_minLevel = Info, lg_sinks = [0, 1], lg_heap = [0 \<mapsto> File k, 1 \<mapsto> Console], lg_fs = w, lg_calls = 0\<rparr>"
    by (simp add: main_logger_def n Logger_init_def)
  then show ?thesis
    using new p same_system_denies [OF new(2) empty_disk_ok(1)]
    by (intro exI [of _ k]) (simp add: two_sinks_def file_text_def empty_disk_ok)
qed

definition sample_stamp :: stamp where
  "sample_stamp = \<lparr>tm_year = 126, tm_mon = 5, tm_mday = 16, tm_hour = 14, tm_min = 23, tm_sec = 5, st_ms = 123, st_tid = 0xA3F2\<rparr>"

theorem logger_delivers_witness:
  "\<exists>(k :: FileSink) k'. two_sinks 0 1 k' (log_all (\<lambda>_. sample_stamp) [(Debug, ''d''), (Warn, ''w'')] (main_logger empty_disk)) \<and>
    sink_log k' (lg_fs (log_all (\<lambda>_. sample_stamp) [(Debug, ''d''), (Warn, ''w'')] (main_logger empty_disk)))
      (fold (rot_write (fc_maxFileSize (k_config k)) (kept (k_config k)))
        (lines_of (\<lambda>_. sample_stamp) (lg_calls (main_logger empty_disk)) (lg_minLevel (main_logger empty_disk)) [(Debug, ''d''), (Warn, ''w'')]) ([], [])) \<and>
    fs_stderr (lg_fs (log_all (\<lambda>_. sample_stamp) [(Debug, ''d''), (Warn, ''w'')] (main_logger empty_disk))) =
      fs_stderr (lg_fs (main_logger empty_disk)) @
      concat (lines_of (\<lambda>_. sample_stamp) (lg_calls (main_logger empty_disk)) (lg_minLevel (main_logger empty_disk)) [(Debug, ''d''), (Warn, ''w'')])"
proof -
  obtain k where "two_sinks 0 1 k (main_logger empty_disk)" "sink_log k (lg_fs (main_logger empty_disk)) ([], [])"
    "never_denies (lg_fs (main_logger empty_disk))" "plain_path (fc_path (k_config k))" using main_two by blast
  note k = this
  show ?thesis by (rule exI, rule logger_delivers [OF k])
qed

theorem logger_shutdown_flushes_witness:
  "\<exists>k :: FileSink. let g' = Logger_shutdown {} (main_logger empty_disk)
    in fs_files (lg_fs g') (fc_path (k_config k)) = Some [] \<and> lg_sinks g' = [] \<and>
       (0 \<notin> ({} :: nat set) \<longrightarrow> lg_heap g' 0 = None) \<and> lg_fs (Logger_log (\<lambda>_. sample_stamp) Warn ''w'' g') = lg_fs g'"
proof -
  obtain k where "two_sinks 0 1 k (main_logger empty_disk)" "sink_log k (lg_fs (main_logger empty_disk)) ([], [])"
    using main_two by blast
  note k = this
  show ?thesis by (rule exI, rule logger_shutdown_flushes [OF k])
qed

text \<open>The directory of the log file does not exist: the first call is denied.\<close>

definition no_directory :: filesystem where
  "no_directory = empty_disk\<lparr>fs_denies := \<lambda>_. True\<rparr>"

theorem sink_without_file_is_silent_witness:
  "case FileSink_new sample_config no_directory of (k, w') \<Rightarrow>
    FileSink_writes [''a'', ''b''] (k, w') = (k, w') \<and> fs_files w' = fs_files no_directory"
proof (cases "FileSink_new sample_config no_directory")
  case (Pair k w')
  have "\<not> allowed no_directory" by (simp add: allowed_def no_directory_def)
  from sink_without_file_is_silent [OF this Pair] show ?thesis by (simp add: Pair)
qed

end
