(* ===== verification/Spec2Isabelle.thy ===== *)
theory Spec2Isabelle
  imports Session_Connect Session_Intercept Result_Log
begin

text \<open>
  DeepSeer, a man-in-the-middle HTTP and HTTPS proxy with payload inspection, and Seer, the inference
  engine that labels the payloads. Sources are named relative to \<^verbatim>\<open>src/\<close>.

  \<^bold>\<open>The program.\<close> One thread runs an event loop on kqueue (\<^verbatim>\<open>Event\<close>). A listener accepts clients and the
  server makes a session for each (\<^verbatim>\<open>Net\<close>, \<^verbatim>\<open>Server\<close>, \<^verbatim>\<open>Source/main.cpp\<close>). A session (\<^verbatim>\<open>Proxy\<close>) parses requests
  with an HTTP/1.1 codec around llhttp (\<^verbatim>\<open>Http\<close>), connects to the upstream server and forwards requests and
  responses. A CONNECT request becomes a plain tunnel, or, with a certificate authority loaded, an
  intercepted one: a TLS client towards the server, a forged certificate and a TLS server towards the
  client (\<^verbatim>\<open>Tls\<close>). Response bodies are handed to an inspector, the queue of an engine with a worker thread
  that runs the Magika network (\<^verbatim>\<open>SeerLib\<close>). Everything logs through a global logger (\<^verbatim>\<open>Log\<close>).

  \<^bold>\<open>The theories\<close>, in the order in which they import each other.

  \<^item> \<open>DS_Prelude\<close>: bytes, strings, numbers in text, faults (failed assertion, exception, undefined behaviour,
    a call that does not return), \<open>rbind\<close> and the rules for it (\<open>res_iff\<close>, \<open>post_intros\<close>).
  \<^item> \<open>Platform\<close>: the operating system and OpenSSL as records of functions of the history of calls, and that
    history as the base of every state record.
  \<^item> \<open>Event_Loop\<close>: \<^verbatim>\<open>KqueueLoop\<close>; the locales for callbacks that keep an invariant of a running loop; posting
    threads as an interleaved step relation.
  \<^item> \<open>Buffer\<close>, \<open>Header_Map\<close>, \<open>Http1_Codec\<close>: \<^verbatim>\<open>Core/Buffer\<close>, \<^verbatim>\<open>Http/HeaderMap\<close> and \<^verbatim>\<open>Http/Http1/Codec\<close>.
  \<^item> \<open>Net_Socket\<close>, \<open>Net_Connection\<close>, \<open>Net_Listener\<close>: \<^verbatim>\<open>Net\<close>. Connections live in a heap and are named by
    numbers, callbacks are data with an interpreter as an argument.
  \<^item> \<open>Cert_Cache\<close>, \<open>Cert_Generator\<close>, \<open>Tls_Connection\<close>: \<^verbatim>\<open>Tls\<close>.
  \<^item> \<open>Proxy_Session\<close>: every handler of \<^verbatim>\<open>ProxySession\<close>, its closures as the constructors of \<open>sess_cb\<close>.
    \<open>Session_Heap\<close> and \<open>Session_Steps\<close> show that every handler keeps the heap of sessions and connections
    well-formed and the rest of it as it was, \<open>Session_Behaviour\<close> what the handlers do. \<open>Codec_Trace\<close> splits a
    codec that decodes responses into a machine of its own and the calls it makes; \<open>Session_Relay\<close> uses it to
    follow requests and responses through a plain session, \<open>Session_Intercept\<close> through an intercepted one;
    \<open>Session_Connect\<close> is the end of the connect.
  \<^item> \<open>Server\<close>: \<^verbatim>\<open>Server\<close> and \<^verbatim>\<open>main\<close> on the state of all the components above; a state record extends the
    one of the component it is built on.
  \<^item> \<open>Magika_Model\<close>, \<open>Seer_Engine\<close>: the network and the engine around it, callers and workers as interleaved
    steps with the mutex and the condition variable in the state.
  \<^item> \<open>Inspection\<close>: the inspector closure of \<^verbatim>\<open>main\<close>, from a session to the engine and its network.
  \<^item> \<open>Logging\<close>: the logger, its sinks and the rotation of the log file. \<open>Result_Log\<close>: the result callback of
    \<^verbatim>\<open>main\<close>, from the engine to the log.

  \<^bold>\<open>What is shown.\<close> End to end: a plain tunnel carries the bytes of both sides unchanged and in order
  whatever the order of events; a request is forwarded as its head and body; a response reaches the client as
  its head without the framing headers and its body, however it arrives, and a connection that is closed
  has got a prefix; the same holds of requests and responses of an intercepted tunnel, whose client gets a
  certificate for the host it asked for; \<^verbatim>\<open>stop()\<close> ends the server and closes every
  descriptor; the heap of a running server has no dangling pointer; an inspected response is labelled with
  what the network predicts for its bytes, and the label is logged. Components: buffers, header maps, the
  certificate cache and the file sink refine byte strings, finite maps, a recency list and a rotating log; the
  kernel's registrations are those of the watch table; posted callbacks and submitted payloads run exactly
  once; no wake-up is lost and the engine's calls return; the encoder, addresses, options and the weight file
  round-trip; the network never leaves its arrays. Where the code does not do what it is meant to, the theorem
  states what it does: the end of a response drops what the kernel has not taken yet, results that come
  after the logger's shutdown are lost, a failed connect is taken for a tunnel, a closed session reconnects, TLS reads after a close, an accept error makes the
  listener spin, a submit during a shutdown deadlocks, sizes of weights are not checked.

  \<^bold>\<open>Interfaces.\<close> Locales state what a client relies on: the callbacks of a loop (\<open>loop_run_total\<close>,
  \<open>loop_run_invariant\<close>), the owner of a connection, a TLS connection or a listener (\<open>accept_owner\<close>), what a
  session keeps (\<open>error_handler\<close>, \<open>tls_keeper\<close>), the client a response is relayed to
  (\<open>response_client\<close>, for plain and for intercepted sessions), a write queue and a line sink. They are
  interpreted on the definitions of the theory that provides the callbacks.

  \<^bold>\<open>Fuel.\<close> Only loops whose end the environment decides have fuel: the accept loop, the read loop of a TLS
  connection and the batches of the event loop, which are an argument. With too little fuel the result is
  \<open>NotReturned\<close>, and the theorems on them say how much is enough: one more than the clients or chunks that
  are waiting. All other recursions terminate.

  \<^bold>\<open>Not modelled.\<close> llhttp, OpenSSL, the kernel, the resolver and floating-point arithmetic are parameters; no
  law is assumed of them beyond the hypotheses that a theorem states. The Windows branches and the epoll
  loop, which is not in the repository, are left out. Log output inside the handlers has no effect on the other
  components and is left out there; the formats of floating-point numbers in it are parameters. The races on the worker handle that the code has are interleavings here,
  not undefined behaviour. Callbacks of the engine that call the engine are left out, and tests and build
  files are not part of the program.
\<close>

end
